(* ===== verification/UQ_Prelude.thy ===== *)
theory UQ_Prelude
  imports Main "HOL-Library.Word" "HOL-Library.Code_Target_Nat" "HOL-Library.List_Lexorder" "HOL-Library.Product_Lexorder"
begin

text \<open>
  The part of Rust and of its standard library that the modelled code uses, and the lemmas the
  components share.

  \<^item> Machine integers are words (\<open>u8\<close> to \<open>u64\<close>); a \<open>usize\<close> is a \<open>nat\<close> whose
    overflow (at \<open>2 ^ 64\<close>) is written out where the code checks it.
  \<^item> A byte slice, a \<open>Vec<u8>\<close> and a fixed array are lists of bytes; a Rust string is the list
    of its UTF-8 bytes, as it is in memory.
  \<^item> \<open>Result<T, E>\<close> is \<open>'e + 'a\<close> with \<open>Inl\<close> the error; the \<open>?\<close> operator is \<open>bindR\<close>.
  \<^item> A \<open>BTreeMap\<close> is an association list kept strictly sorted by \<open>bt_insert\<close>, so that the
    iteration order of the code is the order of the list.
  \<^item> The cryptographic and codec crates are fields of the record \<open>prims\<close>, an argument of every
    definition that calls them.
\<close>

section \<open>Bytes, words and literals\<close>

type_synonym byte = "8 word"
type_synonym u8 = "8 word"
type_synonym u16 = "16 word"
type_synonym u32 = "32 word"
type_synonym u64 = "64 word"
type_synonym bytes = "byte list"
type_synonym str = "byte list"

abbreviation lit :: "string \<Rightarrow> bytes" where
  "lit \<equiv> map of_char"

named_theorems bytes_simps "encodings of integers as bytes"
named_theorems result_simps "inversion of computations that succeed"
named_theorems no_error_intros "computations that never give an excluded error"
named_theorems result_elims "step-by-step inversion of computations that succeed"

text \<open>\<open>from_le_bytes\<close>, \<open>from_be_bytes\<close>, \<open>to_le_bytes\<close> and \<open>to_be_bytes\<close>.\<close>

primrec le_nat :: "bytes \<Rightarrow> nat" where
  "le_nat [] = 0"
| "le_nat (b # bs) = unat b + 256 * le_nat bs"

definition be_nat :: "bytes \<Rightarrow> nat" where
  "be_nat bs = le_nat (rev bs)"

primrec le_bytes :: "nat \<Rightarrow> nat \<Rightarrow> bytes" where
  "le_bytes 0 v = []"
| "le_bytes (Suc n) v = of_nat (v mod 256) # le_bytes n (v div 256)"

definition be_bytes :: "nat \<Rightarrow> nat \<Rightarrow> bytes" where
  "be_bytes n v = rev (le_bytes n v)"

lemma length_le_bytes [simp]: "length (le_bytes n v) = n"
  by (induction n arbitrary: v) auto

lemma length_be_bytes [simp]: "length (be_bytes n v) = n"
  by (simp add: be_bytes_def)

lemma unat_bound: "unat (w :: 'n::len word) < 2 ^ LENGTH('n)"
  by (rule unsigned_less)

lemma unat_of_nat_small: "n < 2 ^ LENGTH('n) \<Longrightarrow> unat (of_nat n :: 'n::len word) = n"
  by (simp add: unat_of_nat)

lemma unat_byte_less [simp]: "unat (b :: byte) < 256"
  using unat_bound [of b] by simp

lemma le_nat_less: "le_nat bs < 256 ^ length bs"
proof (induction bs)
  case (Cons b bs)
  have "unat b + 256 * le_nat bs < 256 + 256 * le_nat bs"
    by simp
  also have "\<dots> \<le> 256 * 256 ^ length bs"
    using Cons.IH by (simp add: Suc_leI flip: mult_Suc_right)
  finally show ?case by simp
qed simp

lemma le_nat_zeros [simp]: "le_nat (replicate n 0) = 0"
  by (induction n) simp_all

lemma le_nat_le_bytes [bytes_simps]: "le_nat (le_bytes n v) = v mod 256 ^ n"
proof (induction n arbitrary: v)
  case (Suc n)
  have "le_nat (le_bytes (Suc n) v) = v mod 256 + 256 * (v div 256 mod 256 ^ n)"
    using Suc.IH by (simp add: unat_of_nat)
  then show ?case
    by (simp add: mod_mult2_eq)
qed simp

lemma le_bytes_le_nat [bytes_simps]: "length bs = n \<Longrightarrow> le_bytes n (le_nat bs) = bs"
proof (induction n arbitrary: bs)
  case (Suc n)
  then obtain b cs where bs: "bs = b # cs" and cs: "length cs = n"
    by (cases bs) auto
  have "(unat b + 256 * le_nat cs) mod 256 = unat b"
    by simp
  moreover have "(unat b + 256 * le_nat cs) div 256 = le_nat cs"
    by simp
  ultimately show ?case
    using Suc.IH [OF cs] by (simp add: bs)
qed simp

lemma be_nat_be_bytes [bytes_simps]: "be_nat (be_bytes n v) = v mod 256 ^ n"
  by (simp add: be_nat_def be_bytes_def bytes_simps)

lemma be_bytes_be_nat [bytes_simps]: "length bs = n \<Longrightarrow> be_bytes n (be_nat bs) = bs"
  by (simp add: be_nat_def be_bytes_def bytes_simps)

lemma be_nat_less: "be_nat bs < 256 ^ length bs"
  using le_nat_less [of "rev bs"] by (simp add: be_nat_def)

lemma be_bytes_inject:
  assumes "v < 256 ^ n" and "w < 256 ^ n"
  shows "be_bytes n v = be_bytes n w \<longleftrightarrow> v = w"
proof
  assume "be_bytes n v = be_bytes n w"
  then have "be_nat (be_bytes n v) = be_nat (be_bytes n w)" by simp
  with assms show "v = w" by (simp add: bytes_simps)
qed simp

lemma be_bytes_u16_inject [simp]: "be_bytes 2 (unat (v :: u16)) = be_bytes 2 (unat w) \<longleftrightarrow> v = w"
  using unat_bound [of v] unat_bound [of w] by (simp add: be_bytes_inject word_unat_eq_iff)

lemma be_bytes_u32_inject [simp]: "be_bytes 4 (unat (v :: u32)) = be_bytes 4 (unat w) \<longleftrightarrow> v = w"
  using unat_bound [of v] unat_bound [of w] by (simp add: be_bytes_inject word_unat_eq_iff)

lemma be_bytes_u64_inject [simp]: "be_bytes 8 (unat (v :: u64)) = be_bytes 8 (unat w) \<longleftrightarrow> v = w"
  using unat_bound [of v] unat_bound [of w] by (simp add: be_bytes_inject word_unat_eq_iff)

text \<open>A field after its length (\<open>put_field\<close> and its like).\<close>

lemma length_prefixed_inject:
  assumes "length p < 2 ^ 32" "length q < 2 ^ 32"
  shows "be_bytes 4 (length p) @ p @ x = be_bytes 4 (length q) @ q @ y \<longleftrightarrow> p = q \<and> x = y"
proof
  assume eq: "be_bytes 4 (length p) @ p @ x = be_bytes 4 (length q) @ q @ y"
  then have "be_bytes 4 (length p) = be_bytes 4 (length q)" and rest: "p @ x = q @ y" by auto
  then have "length p = length q" using assms by (simp add: be_bytes_inject)
  then show "p = q \<and> x = y" using rest by simp
qed simp

text \<open>\<open>checked_add\<close> of a \<open>usize\<close> (a 64-bit platform) and of an unsigned word.\<close>

definition usize_checked_add :: "nat \<Rightarrow> nat \<Rightarrow> nat option" where
  "usize_checked_add a b = (if a + b < 2 ^ 64 then Some (a + b) else None)"

definition checked_add :: "'n::len word \<Rightarrow> 'n word \<Rightarrow> 'n word option" where
  "checked_add a b = (if unat a + unat b < 2 ^ LENGTH('n) then Some (a + b) else None)"

lemma checked_add_Some_iff:
  "checked_add a b = Some c \<longleftrightarrow> unat a + unat b < 2 ^ LENGTH('n) \<and> c = a + b"
  for a b c :: "'n::len word"
  by (auto simp: checked_add_def)

lemma unat_checked_add: "checked_add a b = Some c \<Longrightarrow> unat c = unat a + unat b"
  by (auto simp: checked_add_def unat_word_ariths split: if_splits)

definition is_power_of_two :: "nat \<Rightarrow> bool" where
  "is_power_of_two n \<longleftrightarrow> n \<in> set (map (\<lambda>k. 2 ^ k) [0..<64])"

lemma replicate_update_same [simp]: "(replicate n x)[i := x] = replicate n x"
  by (induction n arbitrary: i) (auto split: nat.splits)

text \<open>\<open>slice.get(start..stop)\<close>.\<close>

definition slice :: "'a list \<Rightarrow> nat \<Rightarrow> nat \<Rightarrow> 'a list option" where
  "slice xs start stop =
     (if start \<le> stop \<and> stop \<le> length xs then Some (take (stop - start) (drop start xs)) else None)"

lemma slice_Some_iff:
  "slice xs i j = Some ys \<longleftrightarrow> i \<le> j \<and> j \<le> length xs \<and> ys = take (j - i) (drop i xs)"
  by (auto simp: slice_def)

lemma length_slice: "slice xs i j = Some ys \<Longrightarrow> length ys = j - i"
  by (auto simp: slice_Some_iff)

section \<open>Results\<close>

fun bindR :: "'e + 'a \<Rightarrow> ('a \<Rightarrow> 'e + 'b) \<Rightarrow> 'e + 'b" where
  "bindR (Inl e) f = Inl e"
| "bindR (Inr x) f = f x"

definition ensureR :: "bool \<Rightarrow> 'e \<Rightarrow> 'e + unit" where
  "ensureR b e = (if b then Inr () else Inl e)"

definition ok_or :: "'a option \<Rightarrow> 'e \<Rightarrow> 'e + 'a" where
  "ok_or x e = (case x of None \<Rightarrow> Inl e | Some v \<Rightarrow> Inr v)"

definition map_err :: "('e \<Rightarrow> 'f) \<Rightarrow> 'e + 'a \<Rightarrow> 'f + 'a" where
  "map_err f r = (case r of Inl e \<Rightarrow> Inl (f e) | Inr x \<Rightarrow> Inr x)"

text \<open>A \<open>for\<close> loop whose body may return early with an error.\<close>

fun foldR :: "('s \<Rightarrow> 'a \<Rightarrow> 'e + 's) \<Rightarrow> 's \<Rightarrow> 'a list \<Rightarrow> 'e + 's" where
  "foldR f s [] = Inr s"
| "foldR f s (x # xs) = bindR (f s x) (\<lambda>s'. foldR f s' xs)"

definition is_ok :: "'e + 'a \<Rightarrow> bool" where
  "is_ok r = (case r of Inl _ \<Rightarrow> False | Inr _ \<Rightarrow> True)"

lemma bindR_cong [fundef_cong]:
  assumes "m = m'" and "\<And>x. m' = Inr x \<Longrightarrow> f x = g x"
  shows "bindR m f = bindR m' g"
  using assms by (cases m') auto

lemma bindR_Inr_iff [result_simps]: "bindR m f = Inr y \<longleftrightarrow> (\<exists>x. m = Inr x \<and> f x = Inr y)"
  by (cases m) auto

lemma bindR_Inl_iff: "bindR m f = Inl e \<longleftrightarrow> m = Inl e \<or> (\<exists>x. m = Inr x \<and> f x = Inl e)"
  by (cases m) auto

lemma ensureR_Inr_iff [result_simps]: "ensureR b e = Inr u \<longleftrightarrow> b"
  by (simp add: ensureR_def)

lemma ok_or_Inr_iff [result_simps]: "ok_or x e = Inr v \<longleftrightarrow> x = Some v"
  by (auto simp: ok_or_def split: option.splits)

lemma map_err_Inr_iff [result_simps]: "map_err f r = Inr v \<longleftrightarrow> r = Inr v"
  by (auto simp: map_err_def split: sum.splits)

lemma if_Inl_eq_Inr_iff [result_simps]: "(if b then Inl e else m) = Inr v \<longleftrightarrow> \<not> b \<and> m = Inr v"
  by simp

lemma bindR_pairE [result_elims]:
  assumes "bindR m (\<lambda>(x, c). f x c) = Inr y"
  obtains x c where "m = Inr (x, c)" and "f x c = Inr y"
  using assms by (cases m) auto

lemma bindRE [result_elims]:
  assumes "bindR m f = Inr y"
  obtains x where "m = Inr x" and "f x = Inr y"
  using assms by (cases m) auto

lemma if_InlE [result_elims]:
  assumes "(if b then Inl e else m) = Inr y"
  obtains "\<not> b" and "m = Inr y"
  using assms by (cases b) auto

lemma Inr_pairE [result_elims]:
  assumes "Inr (a, b) = Inr (c, d)"
  obtains "a = c" and "b = d"
  using assms by simp

lemma is_ok_iff: "is_ok r \<longleftrightarrow> (\<exists>x. r = Inr x)"
  by (cases r) (auto simp: is_ok_def)

lemma foldR_invariant:
  assumes "foldR f s xs = Inr t" and "I s"
    and "\<And>s x s'. x \<in> set xs \<Longrightarrow> I s \<Longrightarrow> f s x = Inr s' \<Longrightarrow> I s'"
  shows "I t"
  using assms
proof (induction xs arbitrary: s)
  case (Cons x xs)
  then obtain s' where s': "f s x = Inr s'" "foldR f s' xs = Inr t"
    by (auto simp: result_simps)
  have "I s'"
    using Cons.prems(2,3) s'(1) by (meson list.set_intros(1))
  then show ?case
    using Cons.IH [OF s'(2)] Cons.prems(3) by (meson list.set_intros(2))
qed simp

text \<open>The same with the invariant over the elements already seen.\<close>

lemma foldR_prefix_invariant_aux:
  "foldR f s xs = Inr t \<Longrightarrow> I ys s \<Longrightarrow>
   \<forall>ys x s s'. x \<in> set xs \<longrightarrow> I ys s \<longrightarrow> f s x = Inr s' \<longrightarrow> I (ys @ [x]) s' \<Longrightarrow> I (ys @ xs) t"
proof (induction xs arbitrary: ys s)
  case (Cons x xs)
  from Cons.prems(1) obtain s' where s': "f s x = Inr s'" "foldR f s' xs = Inr t"
    by (auto simp: result_simps)
  have I: "I (ys @ [x]) s'"
    using Cons.prems(2,3) s'(1) by (meson list.set_intros(1))
  have "\<forall>ys y s s'. y \<in> set xs \<longrightarrow> I ys s \<longrightarrow> f s y = Inr s' \<longrightarrow> I (ys @ [y]) s'"
    using Cons.prems(3) by (meson list.set_intros(2))
  from Cons.IH [OF s'(2) I this] show ?case by simp
qed simp

lemma foldR_prefix_invariant:
  assumes "foldR f s xs = Inr t" and "I [] s"
    and "\<And>ys x s s'. x \<in> set xs \<Longrightarrow> I ys s \<Longrightarrow> f s x = Inr s' \<Longrightarrow> I (ys @ [x]) s'"
  shows "I xs t"
  using foldR_prefix_invariant_aux [of f s xs t I "[]"] assms by auto

text \<open>An error of the loop is an error of one of its steps, from a state of the invariant.\<close>

lemma foldR_error:
  assumes "foldR f s xs = Inl e" and "I s"
    and "\<And>s x s'. x \<in> set xs \<Longrightarrow> I s \<Longrightarrow> f s x = Inr s' \<Longrightarrow> I s'"
  shows "\<exists>s x. x \<in> set xs \<and> I s \<and> f s x = Inl e"
  using assms
proof (induction xs arbitrary: s)
  case (Cons x xs)
  show ?case
  proof (cases "f s x")
    case (Inl d)
    with Cons.prems(1,2) show ?thesis by auto
  next
    case (Inr s')
    have err: "foldR f s' xs = Inl e"
      using Cons.prems(1) Inr by simp
    have "I s'"
      using Cons.prems(2,3) Inr by (meson list.set_intros(1))
    then have "\<exists>s y. y \<in> set xs \<and> I s \<and> f s y = Inl e"
      using Cons.IH [OF err] Cons.prems(3) by (meson list.set_intros(2))
    then show ?thesis by (meson list.set_intros(2))
  qed
qed simp

lemma foldR_append: "foldR f s (xs @ ys) = bindR (foldR f s xs) (\<lambda>s'. foldR f s' ys)"
proof (induction xs arbitrary: s)
  case (Cons x xs)
  then show ?case by (cases "f s x") auto
qed simp

text \<open>A loop that only checks: it succeeds exactly when every element passes.\<close>

lemma foldR_unit_Inr_iff:
  "foldR (\<lambda>_ x. f x) () xs = Inr u \<longleftrightarrow> (\<forall>x \<in> set xs. f x = Inr ())"
  by (induction xs) (auto simp: result_simps)

text \<open>Computations that never fail with an error of a given kind (a panic, say).\<close>

definition never_fails :: "('e \<Rightarrow> bool) \<Rightarrow> 'e + 'a \<Rightarrow> bool" where
  "never_fails bad r \<longleftrightarrow> (\<forall>e. r = Inl e \<longrightarrow> \<not> bad e)"

lemma never_fails_Inr [no_error_intros]: "never_fails bad (Inr x)"
  by (simp add: never_fails_def)

lemma never_fails_Inl: "\<not> bad e \<Longrightarrow> never_fails bad (Inl e)"
  by (simp add: never_fails_def)

lemma never_fails_bind [no_error_intros]:
  "never_fails bad m \<Longrightarrow> (\<And>x. m = Inr x \<Longrightarrow> never_fails bad (f x)) \<Longrightarrow> never_fails bad (bindR m f)"
  by (auto simp: never_fails_def bindR_Inl_iff)

lemma never_fails_if [no_error_intros]:
  "(b \<Longrightarrow> never_fails bad m) \<Longrightarrow> (\<not> b \<Longrightarrow> never_fails bad n) \<Longrightarrow> never_fails bad (if b then m else n)"
  by simp

lemma never_fails_ok_or [no_error_intros]: "(x = None \<Longrightarrow> \<not> bad e) \<Longrightarrow> never_fails bad (ok_or x e)"
  by (auto simp: never_fails_def ok_or_def split: option.splits)

lemma never_fails_prod [no_error_intros]:
  "(\<And>a b. p = (a, b) \<Longrightarrow> never_fails bad (f a b)) \<Longrightarrow> never_fails bad (case p of (a, b) \<Rightarrow> f a b)"
  by (cases p) simp

lemma never_fails_option [no_error_intros]:
  "(x = None \<Longrightarrow> never_fails bad m) \<Longrightarrow> (\<And>y. x = Some y \<Longrightarrow> never_fails bad (f y)) \<Longrightarrow>
   never_fails bad (case x of None \<Rightarrow> m | Some y \<Rightarrow> f y)"
  by (cases x) simp_all

lemma never_fails_foldR:
  "(\<And>s x. x \<in> set xs \<Longrightarrow> never_fails bad (f s x)) \<Longrightarrow> never_fails bad (foldR f s xs)"
proof (induction xs arbitrary: s)
  case (Cons x xs)
  then show ?case by (auto intro!: no_error_intros)
qed (simp add: never_fails_def)

section \<open>Ordered maps and sets\<close>

text \<open>
  The interface of \<open>std::collections::BTreeMap\<close> that the code relies on: a lookup after an
  insert, and that the keys come out strictly ascending.
\<close>

locale ordered_map =
  fixes empty :: "'m"
    and insert :: "'k::linorder \<Rightarrow> 'v \<Rightarrow> 'm \<Rightarrow> 'm"
    and get :: "'m \<Rightarrow> 'k \<Rightarrow> 'v option"
    and keys :: "'m \<Rightarrow> 'k list"
    and invar :: "'m \<Rightarrow> bool"
  assumes get_empty: "get empty k = None"
    and get_insert: "invar m \<Longrightarrow> get (insert k v m) l = (if l = k then Some v else get m l)"
    and invar_empty: "invar empty"
    and invar_insert: "invar m \<Longrightarrow> invar (insert k v m)"
    and keys_get: "invar m \<Longrightarrow> k \<in> set (keys m) \<longleftrightarrow> get m k \<noteq> None"
    and keys_sorted: "invar m \<Longrightarrow> sorted_wrt (<) (keys m)"
begin

lemma keys_distinct: "invar m \<Longrightarrow> distinct (keys m)"
  using keys_sorted by (simp add: strict_sorted_iff)

lemma set_keys_insert: "invar m \<Longrightarrow> set (keys (insert k v m)) = Set.insert k (set (keys m))"
  using keys_get get_insert invar_insert by (auto split: if_splits)

lemma length_keys_insert:
  assumes "invar m" and "get m k = None"
  shows "length (keys (insert k v m)) = Suc (length (keys m))"
proof -
  have "card (set (keys (insert k v m))) = Suc (card (set (keys m)))"
    using assms keys_get by (simp add: set_keys_insert)
  then show ?thesis
    using assms(1) by (simp add: distinct_card keys_distinct invar_insert)
qed

text \<open>Filling a map from a list of pairs, the later pairs winning.\<close>

lemma invar_fold: "invar m \<Longrightarrow> invar (fold (\<lambda>(k, v). insert k v) kvs m)"
  by (induction kvs arbitrary: m) (auto simp: invar_insert)

lemma get_fold:
  "invar m \<Longrightarrow> get (fold (\<lambda>(k, v). insert k v) kvs m) l =
     (case map_of (rev kvs) l of None \<Rightarrow> get m l | Some v \<Rightarrow> Some v)"
proof (induction kvs arbitrary: m)
  case (Cons kv kvs)
  obtain k v where kv: "kv = (k, v)" by (cases kv)
  show ?case
    using Cons.IH [OF invar_insert [OF Cons.prems]] Cons.prems
    by (auto simp: kv get_insert map_add_def split: option.splits)
qed simp

end

type_synonym ('k, 'v) btmap = "('k \<times> 'v) list"

fun bt_insert :: "'k::linorder \<Rightarrow> 'v \<Rightarrow> ('k, 'v) btmap \<Rightarrow> ('k, 'v) btmap" where
  "bt_insert k v [] = [(k, v)]"
| "bt_insert k v ((l, w) # m) =
     (if k < l then (k, v) # (l, w) # m
      else if k = l then (k, v) # m
      else (l, w) # bt_insert k v m)"

abbreviation bt_get :: "('k, 'v) btmap \<Rightarrow> 'k \<Rightarrow> 'v option" where
  "bt_get \<equiv> map_of"

abbreviation bt_keys :: "('k, 'v) btmap \<Rightarrow> 'k list" where
  "bt_keys \<equiv> map fst"

definition bt_invar :: "('k::linorder, 'v) btmap \<Rightarrow> bool" where
  "bt_invar m \<longleftrightarrow> sorted_wrt (<) (map fst m)"

lemma bt_get_insert [simp]: "bt_get (bt_insert k v m) = (bt_get m)(k \<mapsto> v)"
  by (induction k v m rule: bt_insert.induct) (auto simp: fun_eq_iff)

lemma set_bt_keys_insert [simp]: "set (bt_keys (bt_insert k v m)) = Set.insert k (set (bt_keys m))"
  by (induction k v m rule: bt_insert.induct) auto

lemma bt_invar_Nil [simp]: "bt_invar []"
  by (simp add: bt_invar_def)

lemma bt_invar_insert [simp]: "bt_invar m \<Longrightarrow> bt_invar (bt_insert k v m)"
proof (induction k v m rule: bt_insert.induct)
  case (2 k v l w m)
  have "\<forall>x \<in> set (bt_keys (bt_insert k v m)). l < x" if "l < k"
    using "2.prems" that unfolding set_bt_keys_insert by (auto simp: bt_invar_def)
  with 2 show ?case by (auto simp: bt_invar_def)
qed (simp add: bt_invar_def)

interpretation bt: ordered_map "[]" bt_insert bt_get bt_keys bt_invar
  by unfold_locales (auto simp: bt_invar_def map_of_eq_None_iff simp flip: bt_invar_def)

lemma set_bt_insert_subset: "set (bt_insert k v m) \<subseteq> Set.insert (k, v) (set m)"
  by (induction k v m rule: bt_insert.induct) auto

lemma length_bt_insert_new:
  "bt_invar m \<Longrightarrow> bt_get m k = None \<Longrightarrow> length (bt_insert k v m) = Suc (length m)"
  using bt.length_keys_insert [of m k v] by simp

lemma bt_invar_get_iff: "bt_invar m \<Longrightarrow> bt_get m k = Some v \<longleftrightarrow> (k, v) \<in> set m"
  using bt.keys_distinct by (auto simp: map_of_is_SomeI dest: map_of_SomeD)

lemma bt_insert_last:
  "bt_invar m \<Longrightarrow> (\<forall>x \<in> set (bt_keys m). x < k) \<Longrightarrow> bt_insert k v m = m @ [(k, v)]"
  by (induction m rule: list.induct) (auto simp: bt_invar_def)

text \<open>A \<open>BTreeSet\<close>: \<open>insert\<close> says whether the element is new.\<close>

definition bts_insert :: "'k::linorder \<Rightarrow> 'k list \<Rightarrow> 'k list" where
  "bts_insert k s = bt_keys (bt_insert k () (map (\<lambda>x. (x, ())) s))"

lemma set_bts_insert [simp]: "set (bts_insert k xs) = Set.insert k (set xs)"
  unfolding bts_insert_def set_bt_keys_insert by (simp add: image_image)

lemma sorted_bts_insert: "sorted_wrt (<) xs \<Longrightarrow> sorted_wrt (<) (bts_insert k xs)"
  using bt_invar_insert [of "map (\<lambda>x. (x, ())) xs" k "()"] by (simp add: bts_insert_def bt_invar_def comp_def)

end
