(* ===== verification/UQ_Text.thy ===== *)
theory UQ_Text
  imports UQ_Prelude
begin

text \<open>
  Rust strings. A \<open>str\<close> is the list of its UTF-8 bytes; \<open>utf8_decode\<close> is
  \<open>std::str::from_utf8\<close> together with \<open>chars()\<close>, and \<open>utf8_encode\<close> is the collection of
  characters into a \<open>String\<close>. The round trip of the two is what makes character-wise rewriting of
  a string well defined. The rest of the theory has the string methods the code calls.
\<close>

section \<open>UTF-8\<close>

definition scalar :: "nat \<Rightarrow> bool" where
  "scalar c \<longleftrightarrow> c < 0xD800 \<or> (0xE000 \<le> c \<and> c < 0x110000)"

definition byte_of :: "nat \<Rightarrow> byte" where
  "byte_of n = of_nat n"

definition utf8_encode1 :: "nat \<Rightarrow> bytes" where
  "utf8_encode1 c =
     (if c < 0x80 then [byte_of c]
      else if c < 0x800 then [byte_of (0xC0 + c div 64), byte_of (0x80 + c mod 64)]
      else if c < 0x10000 then
        [byte_of (0xE0 + c div 4096), byte_of (0x80 + c div 64 mod 64), byte_of (0x80 + c mod 64)]
      else
        [byte_of (0xF0 + c div 262144), byte_of (0x80 + c div 4096 mod 64),
         byte_of (0x80 + c div 64 mod 64), byte_of (0x80 + c mod 64)])"

definition utf8_encode :: "nat list \<Rightarrow> str" where
  "utf8_encode cs = concat (map utf8_encode1 cs)"

definition cont :: "byte \<Rightarrow> bool" where
  "cont b \<longleftrightarrow> 0x80 \<le> unat b \<and> unat b \<le> 0xBF"

text \<open>One well-formed sequence (Table 3-7 of the Unicode standard), and the bytes after it.\<close>

definition utf8_step :: "bytes \<Rightarrow> (nat \<times> bytes) option" where
  "utf8_step bs =
     (case bs of
        [] \<Rightarrow> None
      | a # r \<Rightarrow>
          (let x = unat a in
           if x < 0x80 then Some (x, r)
           else if 0xC2 \<le> x \<and> x \<le> 0xDF then
             (case r of
                b # r' \<Rightarrow> if cont b then Some ((x - 0xC0) * 64 + (unat b - 0x80), r') else None
              | _ \<Rightarrow> None)
           else if 0xE0 \<le> x \<and> x \<le> 0xEF then
             (case r of
                b # c # r' \<Rightarrow>
                  if cont b \<and> cont c \<and> (x = 0xE0 \<longrightarrow> 0xA0 \<le> unat b) \<and> (x = 0xED \<longrightarrow> unat b \<le> 0x9F)
                  then Some ((x - 0xE0) * 4096 + (unat b - 0x80) * 64 + (unat c - 0x80), r')
                  else None
              | _ \<Rightarrow> None)
           else if 0xF0 \<le> x \<and> x \<le> 0xF4 then
             (case r of
                b # c # d # r' \<Rightarrow>
                  if cont b \<and> cont c \<and> cont d \<and> (x = 0xF0 \<longrightarrow> 0x90 \<le> unat b) \<and>
                     (x = 0xF4 \<longrightarrow> unat b \<le> 0x8F)
                  then Some ((x - 0xF0) * 262144 + (unat b - 0x80) * 4096 + (unat c - 0x80) * 64 +
                             (unat d - 0x80), r')
                  else None
              | _ \<Rightarrow> None)
           else None))"

lemma utf8_step_shorter: "utf8_step bs = Some (c, r) \<Longrightarrow> length r < length bs"
  by (auto simp: utf8_step_def Let_def split: list.splits if_splits)

function utf8_decode :: "bytes \<Rightarrow> nat list option" where
  "utf8_decode bs =
     (if bs = [] then Some []
      else (case utf8_step bs of
              None \<Rightarrow> None
            | Some (c, r) \<Rightarrow> map_option (Cons c) (utf8_decode r)))"
  by pat_completeness auto
termination
  by (relation "measure length") (auto dest: utf8_step_shorter)

declare utf8_decode.simps [simp del]

definition from_utf8 :: "bytes \<Rightarrow> str option" where
  "from_utf8 bs = (if utf8_decode bs = None then None else Some bs)"

definition chars :: "str \<Rightarrow> nat list" where
  "chars s = (case utf8_decode s of None \<Rightarrow> [] | Some cs \<Rightarrow> cs)"

lemma utf8_decode_Nil [simp]: "utf8_decode [] = Some []"
  by (simp add: utf8_decode.simps)

lemma unat_byte_of [simp]: "unat (byte_of n) = n mod 256"
  by (simp add: byte_of_def unat_of_nat)

lemma base64_digits3:
  obtains q r1 r0 where "c = q * 4096 + r1 * 64 + r0" and "r1 < 64" and "r0 < (64::nat)"
    and "c div 4096 = q" and "c div 64 mod 64 = r1" and "c mod 64 = r0"
proof
  have q: "c div 4096 = c div 64 div 64"
    by (simp flip: div_mult2_eq)
  have "c div 64 = (c div 64 div 64) * 64 + c div 64 mod 64" "c = c div 64 * 64 + c mod 64"
    by simp_all
  then show "c = c div 4096 * 4096 + c div 64 mod 64 * 64 + c mod 64"
    unfolding q by linarith
qed simp_all

lemma utf8_step_encode1:
  assumes "scalar c"
  shows "utf8_step (utf8_encode1 c @ r) = Some (c, r)"
proof -
  consider (one) "c < 0x80" | (two) "0x80 \<le> c" "c < 0x800" | (three) "0x800 \<le> c" "c < 0x10000"
    | (four) "0x10000 \<le> c" "c < 0x110000"
    using assms by (fastforce simp: scalar_def)
  then show ?thesis
  proof cases
    case one
    then show ?thesis by (simp add: utf8_step_def utf8_encode1_def)
  next
    case two
    then have "c div 64 \<le> 31" "2 \<le> c div 64" by auto
    with two show ?thesis
      by (simp add: utf8_step_def utf8_encode1_def cont_def Let_def)
  next
    case three
    obtain q r1 r0 where c: "c = q * 4096 + r1 * 64 + r0" "r1 < 64" "r0 < 64"
        "c div 4096 = q" "c div 64 mod 64 = r1" "c mod 64 = r0"
      by (rule base64_digits3)
    have "q \<le> 15" "q = 0 \<Longrightarrow> 32 \<le> r1" "q = 13 \<Longrightarrow> r1 \<le> 31"
      using assms three c(1-3) by (auto simp: scalar_def)
    then show ?thesis
      using three c(2-6) c(1) [symmetric]
      by (simp add: utf8_step_def utf8_encode1_def cont_def Let_def)
  next
    case four
    obtain q r1 r0 where c: "c = q * 4096 + r1 * 64 + r0" "r1 < 64" "r0 < 64"
        "c div 4096 = q" "c div 64 mod 64 = r1" "c mod 64 = r0"
      by (rule base64_digits3)
    obtain p r2 where q: "q = p * 64 + r2" "r2 < 64" "q div 64 = p" "q mod 64 = r2"
      by (metis div_mult_mod_eq mod_less_divisor zero_less_numeral)
    have d: "c div 262144 = p" "c div 4096 mod 64 = r2"
      using c(4) q(3,4) by (auto simp flip: div_mult2_eq)
    have e: "p * 262144 + r2 * 4096 + r1 * 64 + r0 = c"
      using c(1) q(1) by simp
    have "p \<le> 4" "p = 0 \<Longrightarrow> 16 \<le> r2" "p = 4 \<Longrightarrow> r2 \<le> 15"
      using four c(2,3) q(2) e by linarith+
    then show ?thesis
      using four c(2,3,5,6) d e q(2)
      by (simp add: utf8_step_def utf8_encode1_def cont_def Let_def)
  qed
qed

lemma utf8_encode1_nonempty [simp]: "utf8_encode1 c \<noteq> []"
  by (simp add: utf8_encode1_def)

lemma utf8_decode_Cons:
  "scalar c \<Longrightarrow> utf8_decode (utf8_encode1 c @ r) = map_option (Cons c) (utf8_decode r)"
  by (subst utf8_decode.simps) (simp add: utf8_step_encode1)

lemma utf8_roundtrip: "\<forall>c \<in> set cs. scalar c \<Longrightarrow> utf8_decode (utf8_encode cs) = Some cs"
  by (induction cs) (auto simp: utf8_encode_def utf8_decode_Cons)

lemma byte_of_eq_iff: "n < 256 \<Longrightarrow> b = byte_of n \<longleftrightarrow> unat b = n"
  by (auto simp: word_unat_eq_iff)

lemma divmod64: "n < 64 \<Longrightarrow> (q * 64 + n) div 64 = q \<and> (q * 64 + n) mod 64 = (n::nat)"
  by simp

lemma div_4096: "c div 64 = q * 64 + n \<Longrightarrow> n < 64 \<Longrightarrow> c div 4096 = (q::nat)"
  using div_mult2_eq [of c 64 64] by simp

lemma div_262144: "c div 4096 = q * 64 + n \<Longrightarrow> n < 64 \<Longrightarrow> c div 262144 = (q::nat)"
  using div_mult2_eq [of c 4096 64] by simp

lemma utf8_step_sound:
  assumes "utf8_step bs = Some (c, r)"
  shows "scalar c \<and> bs = utf8_encode1 c @ r"
proof -
  obtain a t where bs: "bs = a # t"
    using assms by (auto simp: utf8_step_def split: list.splits)
  let ?x = "unat a"
  consider (one) "?x < 0x80" "c = ?x" "t = r"
    | (two) b where "0xC2 \<le> ?x" "?x \<le> 0xDF" "t = b # r" "cont b"
        "c = (?x - 0xC0) * 64 + (unat b - 0x80)"
    | (three) b d where "0xE0 \<le> ?x" "?x \<le> 0xEF" "t = b # d # r" "cont b" "cont d"
        "?x = 0xE0 \<longrightarrow> 0xA0 \<le> unat b" "?x = 0xED \<longrightarrow> unat b \<le> 0x9F"
        "c = (?x - 0xE0) * 4096 + (unat b - 0x80) * 64 + (unat d - 0x80)"
    | (four) b d e where "0xF0 \<le> ?x" "?x \<le> 0xF4" "t = b # d # e # r" "cont b" "cont d" "cont e"
        "?x = 0xF0 \<longrightarrow> 0x90 \<le> unat b" "?x = 0xF4 \<longrightarrow> unat b \<le> 0x8F"
        "c = (?x - 0xF0) * 262144 + (unat b - 0x80) * 4096 + (unat d - 0x80) * 64 + (unat e - 0x80)"
    using assms unfolding bs utf8_step_def
    by (simp add: Let_def split: list.split_asm if_split_asm; blast)
  then show ?thesis
  proof cases
    case one
    then show ?thesis
      by (simp add: bs scalar_def utf8_encode1_def byte_of_eq_iff)
  next
    case two
    define m n where "m = ?x - 0xC0" and "n = unat b - 0x80"
    then have mn: "?x = 0xC0 + m" "unat b = 0x80 + n" "2 \<le> m" "m \<le> 31" "n < 64"
      using two by (auto simp: cont_def)
    then have "c = m * 64 + n" using two(5) by simp
    then show ?thesis
      using mn two by (simp add: bs scalar_def utf8_encode1_def byte_of_eq_iff)
  next
    case three
    define l m n where "l = ?x - 0xE0" and "m = unat b - 0x80" and "n = unat d - 0x80"
    then have mn: "?x = 0xE0 + l" "unat b = 0x80 + m" "unat d = 0x80 + n" "l \<le> 15"
        "m < 64" "n < 64" "l = 0 \<longrightarrow> 32 \<le> m" "l = 13 \<longrightarrow> m \<le> 31"
      using three(1,2,4-7) unfolding cont_def by linarith+
    then have c: "c = (l * 64 + m) * 64 + n" using three(8) by simp
    then have d: "c div 64 = l * 64 + m" "c mod 64 = n"
      using divmod64 [OF mn(6), of "l * 64 + m"] by simp_all
    moreover have "c div 4096 = l"
      using div_4096 [OF d(1) mn(5)] .
    moreover have "0x800 \<le> c"
      using c mn by (cases "l = 0") auto
    moreover have "c < 0x10000"
      using c mn(4-6) by simp
    moreover have "c < 0xD800 \<or> 0xE000 \<le> c"
      using c mn by (cases l "13 :: nat" rule: linorder_cases) auto
    ultimately show ?thesis
      using mn three by (simp add: bs scalar_def utf8_encode1_def byte_of_eq_iff)
  next
    case four
    define k l m n where "k = ?x - 0xF0" and "l = unat b - 0x80" and "m = unat d - 0x80"
      and "n = unat e - 0x80"
    then have mn: "?x = 0xF0 + k" "unat b = 0x80 + l" "unat d = 0x80 + m"
        "unat e = 0x80 + n" "k \<le> 4" "l < 64" "m < 64" "n < 64" "k = 0 \<longrightarrow> 16 \<le> l" "k = 4 \<longrightarrow> l \<le> 15"
      using four(1,2,4-8) unfolding cont_def by linarith+
    then have c: "c = ((k * 64 + l) * 64 + m) * 64 + n" using four(9) by simp
    then have d: "c div 64 = (k * 64 + l) * 64 + m" "c mod 64 = n"
      using divmod64 [OF mn(8), of "(k * 64 + l) * 64 + m"] by simp_all
    moreover have e: "c div 4096 = k * 64 + l"
      using div_4096 [OF d(1) mn(7)] .
    moreover have "c div 262144 = k"
      using div_262144 [OF e mn(6)] .
    moreover have "0x10000 \<le> c"
      using c mn by (cases "k = 0") auto
    moreover have "c < 0x110000"
      using c mn by (cases "k = 4") auto
    moreover have "c div 64 mod 64 = m" "c div 4096 mod 64 = l"
      unfolding d(1) e using divmod64 [OF mn(7), of "k * 64 + l"] divmod64 [OF mn(6), of k] by simp_all
    ultimately show ?thesis
      using mn four(1-8) by (simp add: bs scalar_def utf8_encode1_def byte_of_eq_iff)
  qed
qed

lemma utf8_decode_sound:
  "utf8_decode bs = Some cs \<Longrightarrow> (\<forall>c \<in> set cs. scalar c) \<and> utf8_encode cs = bs"
proof (induction bs arbitrary: cs rule: utf8_decode.induct)
  case (1 bs)
  show ?case
  proof (cases "bs = []")
    case True
    with "1.prems" show ?thesis by (simp add: utf8_encode_def)
  next
    case False
    with "1.prems" obtain c r ds where st: "utf8_step bs = Some (c, r)"
        and ds: "utf8_decode r = Some ds" "cs = c # ds"
      by (subst (asm) utf8_decode.simps) (auto split: option.splits)
    from "1.IH" [OF False st refl ds(1)] utf8_step_sound [OF st] ds(2)
    show ?thesis by (simp add: utf8_encode_def)
  qed
qed

lemma utf8_encode_chars: "utf8_decode s \<noteq> None \<Longrightarrow> utf8_encode (chars s) = s"
  using utf8_decode_sound by (auto simp: chars_def)

lemma chars_scalar: "c \<in> set (chars s) \<Longrightarrow> scalar c"
  by (cases "utf8_decode s") (auto simp: chars_def dest: utf8_decode_sound)

lemma chars_utf8_encode [simp]: "\<forall>c \<in> set cs. scalar c \<Longrightarrow> chars (utf8_encode cs) = cs"
  by (simp add: chars_def utf8_roundtrip)

lemma utf8_encode_ascii: "\<forall>b \<in> set bs. unat b < 128 \<Longrightarrow> utf8_encode (map unat bs) = bs"
  by (induction bs) (auto simp: utf8_encode_def utf8_encode1_def byte_of_def)

lemma utf8_decode_ascii: "\<forall>b \<in> set bs. unat b < 128 \<Longrightarrow> utf8_decode bs = Some (map unat bs)"
  using utf8_roundtrip [of "map unat bs"] by (fastforce simp: utf8_encode_ascii scalar_def)

lemma from_utf8_Some_iff: "from_utf8 bs = Some s \<longleftrightarrow> utf8_decode bs \<noteq> None \<and> s = bs"
  by (auto simp: from_utf8_def)

section \<open>Character classes\<close>

text \<open>\<open>char::is_control\<close> (category Cc) and \<open>char::is_whitespace\<close> (property White\_Space).\<close>

definition is_control :: "nat \<Rightarrow> bool" where
  "is_control c \<longleftrightarrow> c < 0x20 \<or> (0x7f \<le> c \<and> c < 0xa0)"

definition is_whitespace :: "nat \<Rightarrow> bool" where
  "is_whitespace c \<longleftrightarrow>
     (9 \<le> c \<and> c \<le> 13) \<or> (0x2000 \<le> c \<and> c \<le> 0x200a) \<or>
     c \<in> {0x20, 0x85, 0xa0, 0x1680, 0x2028, 0x2029, 0x202f, 0x205f, 0x3000}"

definition is_ascii_digit :: "byte \<Rightarrow> bool" where
  "is_ascii_digit b \<longleftrightarrow> 48 \<le> unat b \<and> unat b \<le> 57"

definition is_ascii_hexdigit :: "byte \<Rightarrow> bool" where
  "is_ascii_hexdigit b \<longleftrightarrow>
     is_ascii_digit b \<or> (65 \<le> unat b \<and> unat b \<le> 70) \<or> (97 \<le> unat b \<and> unat b \<le> 102)"

definition is_ascii_whitespace :: "byte \<Rightarrow> bool" where
  "is_ascii_whitespace b \<longleftrightarrow> unat b \<in> {9, 10, 12, 13, 32}"

definition ascii_lower :: "byte \<Rightarrow> byte" where
  "ascii_lower b = (if 65 \<le> unat b \<and> unat b \<le> 90 then b + 32 else b)"

definition to_ascii_lowercase :: "str \<Rightarrow> str" where
  "to_ascii_lowercase = map ascii_lower"

section \<open>Splitting and searching\<close>

text \<open>\<open>iter().position(..)\<close>, \<open>starts_with\<close>, \<open>strip_prefix\<close> and \<open>strip_suffix\<close>.\<close>

fun position :: "('a \<Rightarrow> bool) \<Rightarrow> 'a list \<Rightarrow> nat option" where
  "position p [] = None"
| "position p (x # xs) = (if p x then Some 0 else map_option Suc (position p xs))"

definition starts_with :: "'a list \<Rightarrow> 'a list \<Rightarrow> bool" where
  "starts_with xs p \<longleftrightarrow> take (length p) xs = p"

definition strip_prefix :: "'a list \<Rightarrow> 'a list \<Rightarrow> 'a list option" where
  "strip_prefix xs p = (if take (length p) xs = p then Some (drop (length p) xs) else None)"

definition strip_suffix :: "'a list \<Rightarrow> 'a list \<Rightarrow> 'a list option" where
  "strip_suffix xs p =
     (if length p \<le> length xs \<and> drop (length xs - length p) xs = p
      then Some (take (length xs - length p) xs) else None)"

text \<open>\<open>split(sep)\<close> on a one-byte separator, \<open>split_once\<close>, \<open>splitn(3, sep)\<close>,
  \<open>split_ascii_whitespace\<close> and \<open>lines\<close>.\<close>

fun split_by :: "('a \<Rightarrow> bool) \<Rightarrow> 'a list \<Rightarrow> 'a list list" where
  "split_by p [] = [[]]"
| "split_by p (x # xs) =
     (if p x then [] # split_by p xs
      else (case split_by p xs of [] \<Rightarrow> [[x]] | w # ws \<Rightarrow> (x # w) # ws))"

definition split_on :: "'a \<Rightarrow> 'a list \<Rightarrow> 'a list list" where
  "split_on c = split_by (\<lambda>x. x = c)"

definition split_once :: "'a \<Rightarrow> 'a list \<Rightarrow> ('a list \<times> 'a list) option" where
  "split_once c xs =
     (if c \<in> set xs then Some (takeWhile (\<lambda>x. x \<noteq> c) xs, tl (dropWhile (\<lambda>x. x \<noteq> c) xs)) else None)"

definition splitn3 :: "'a \<Rightarrow> 'a list \<Rightarrow> 'a list list" where
  "splitn3 c xs =
     (case split_once c xs of
        None \<Rightarrow> [xs]
      | Some (a, r) \<Rightarrow> (case split_once c r of None \<Rightarrow> [a, r] | Some (b, d) \<Rightarrow> [a, b, d]))"

definition split_ascii_whitespace :: "str \<Rightarrow> str list" where
  "split_ascii_whitespace s = filter (\<lambda>w. w \<noteq> []) (split_by is_ascii_whitespace s)"

definition strip_cr :: "str \<Rightarrow> str" where
  "strip_cr l = (if l \<noteq> [] \<and> last l = 13 then butlast l else l)"

text \<open>\<open>str::lines\<close>: a carriage return is dropped only in front of a line feed, so a last line
  without one keeps it.\<close>

definition lines_of :: "str \<Rightarrow> str list" where
  "lines_of s =
     (let ps = split_on 10 s in
      map strip_cr (butlast ps) @ (if last ps = [] then [] else [last ps]))"

text \<open>\<open>str::parse\<close> of an unsigned integer below \<open>bound\<close>, on a string of decimal digits.\<close>

definition decimal :: "str \<Rightarrow> nat" where
  "decimal s = foldl (\<lambda>n b. n * 10 + (unat b - 48)) 0 s"

definition parse_below :: "nat \<Rightarrow> str \<Rightarrow> nat option" where
  "parse_below bound s = (if decimal s < bound then Some (decimal s) else None)"

text \<open>\<open>str::parse\<close> on any string: a plus sign may precede the digits. Printing is \<open>to_string\<close>.\<close>

definition parse_unsigned :: "nat \<Rightarrow> str \<Rightarrow> nat option" where
  "parse_unsigned bound s =
     (let t = (if starts_with s (lit ''+'') then drop 1 s else s) in
      if t = [] \<or> \<not> list_all is_ascii_digit t then None else parse_below bound t)"

fun to_string :: "nat \<Rightarrow> str" where
  "to_string n = (if n < 10 then [byte_of (48 + n)] else to_string (n div 10) @ [byte_of (48 + n mod 10)])"

declare to_string.simps [simp del]

lemma decimal_snoc: "decimal (s @ [b]) = decimal s * 10 + (unat b - 48)"
  by (simp add: decimal_def)

lemma decimal_to_string [simp]: "decimal (to_string n) = n"
proof (induction n rule: to_string.induct)
  case (1 n)
  show ?case
  proof (cases "n < 10")
    case True
    then show ?thesis by (subst to_string.simps) (simp add: decimal_def)
  next
    case False
    then have "decimal (to_string n) = decimal (to_string (n div 10)) * 10 + n mod 10"
      by (subst to_string.simps) (simp add: decimal_snoc)
    with 1 [OF False] show ?thesis by simp
  qed
qed

lemma to_string_digits [simp]: "list_all is_ascii_digit (to_string n)" "to_string n \<noteq> []"
proof (induction n rule: to_string.induct)
  case (1 n)
  show "list_all is_ascii_digit (to_string n)"
    by (subst to_string.simps) (auto simp: 1 is_ascii_digit_def)
  show "to_string n \<noteq> []"
    by (subst to_string.simps) auto
qed

lemma to_string_inject [simp]: "to_string m = to_string n \<longleftrightarrow> m = n"
  by (metis decimal_to_string)

lemma parse_to_string [simp]: "parse_unsigned bound (to_string n) = (if n < bound then Some n else None)"
proof -
  have "is_ascii_digit (hd (to_string n))"
    using to_string_digits [of n] by (cases "to_string n") auto
  then have "\<not> starts_with (to_string n) (lit ''+'')"
    by (cases "to_string n") (auto simp: starts_with_def is_ascii_digit_def)
  then show ?thesis by (simp add: parse_unsigned_def parse_below_def)
qed

text \<open>\<open>str::trim\<close> and \<open>str::find\<close> of a string.\<close>

definition str_trim :: "str \<Rightarrow> str" where
  "str_trim s = utf8_encode (rev (dropWhile is_whitespace (rev (dropWhile is_whitespace (chars s)))))"

fun find_sub :: "'a list \<Rightarrow> 'a list \<Rightarrow> nat option" where
  "find_sub p [] = (if p = [] then Some 0 else None)"
| "find_sub p (x # xs) = (if starts_with (x # xs) p then Some 0 else map_option Suc (find_sub p xs))"

lemma length_utf8_encode_sublist:
  "length (utf8_encode (dropWhile p cs)) \<le> length (utf8_encode cs)"
  "length (utf8_encode (rev cs)) = length (utf8_encode cs)"
  by (induction cs) (auto simp: utf8_encode_def)

lemma length_str_trim: "length (str_trim s) \<le> length s"
proof (cases "utf8_decode s")
  case None
  then show ?thesis by (simp add: str_trim_def chars_def utf8_encode_def)
next
  case (Some cs)
  then have "length (utf8_encode (chars s)) = length s" by (simp add: utf8_encode_chars)
  then show ?thesis
    using length_utf8_encode_sublist(1) [of is_whitespace "rev (dropWhile is_whitespace (chars s))"]
      length_utf8_encode_sublist(1) [of is_whitespace "chars s"]
    by (simp add: str_trim_def length_utf8_encode_sublist(2))
qed

lemma str_trim_ascii:
  assumes "\<forall>b \<in> set s. unat b < 128"
  shows "str_trim s = rev (dropWhile (\<lambda>b. is_whitespace (unat b)) (rev (dropWhile (\<lambda>b. is_whitespace (unat b)) s)))"
proof -
  let ?t = "rev (dropWhile (\<lambda>b. is_whitespace (unat b)) (rev (dropWhile (\<lambda>b. is_whitespace (unat b)) s)))"
  have "set ?t \<subseteq> set s" by (auto dest!: set_dropWhileD)
  then have "utf8_encode (map unat ?t) = ?t" using assms by (intro utf8_encode_ascii) auto
  moreover have "chars s = map unat s" using utf8_decode_ascii [OF assms] by (simp add: chars_def)
  ultimately show ?thesis by (simp add: str_trim_def dropWhile_map rev_map comp_def)
qed

lemma find_sub_Some_length: "find_sub p xs = Some n \<Longrightarrow> n + length p \<le> length xs"
proof (induction p xs arbitrary: n rule: find_sub.induct)
  case (2 p x xs)
  show ?case
  proof (cases "starts_with (x # xs) p")
    case True
    then have "length p \<le> length (x # xs)"
      unfolding starts_with_def by (metis length_take min.cobounded1)
    then show ?thesis using 2(2) True by simp
  next
    case False
    then show ?thesis using 2 by auto
  qed
qed (simp split: if_splits)

lemma find_sub_first:
  "p \<noteq> [] \<Longrightarrow> hd p \<notin> set a \<Longrightarrow> find_sub p (a @ p @ r) = Some (length a)"
proof (induction a)
  case Nil
  then show ?case by (cases p) (auto simp: starts_with_def)
next
  case (Cons x a)
  then have "\<not> starts_with (x # a @ p @ r) p" by (cases p) (auto simp: starts_with_def)
  with Cons show ?case by simp
qed

lemma split_by_nonempty [simp]: "split_by p xs \<noteq> []"
  by (induction xs) (auto split: list.splits)

lemma split_by_parts: "w \<in> set (split_by p xs) \<Longrightarrow> x \<in> set w \<Longrightarrow> \<not> p x \<and> x \<in> set xs"
proof (induction xs arbitrary: w)
  case (Cons y ys)
  show ?case
  proof (cases "p y")
    case True
    with Cons show ?thesis by auto
  next
    case False
    obtain v vs where v: "split_by p ys = v # vs"
      by (cases "split_by p ys") auto
    then consider "w = y # v" | "w \<in> set vs"
      using Cons.prems(1) False by auto
    then show ?thesis
      using Cons.IH [of v] Cons.IH [of w] Cons.prems(2) False v by cases auto
  qed
qed simp

lemma split_once_SomeD:
  assumes "split_once c xs = Some (a, b)"
  shows "xs = a @ c # b \<and> c \<notin> set a"
proof -
  have c: "c \<in> set xs" "a = takeWhile (\<lambda>x. x \<noteq> c) xs" "b = tl (dropWhile (\<lambda>x. x \<noteq> c) xs)"
    using assms by (auto simp: split_once_def split: if_splits)
  obtain d ds where "dropWhile (\<lambda>x. x \<noteq> c) xs = d # ds"
    using c(1) by (cases "dropWhile (\<lambda>x. x \<noteq> c) xs") auto
  moreover from this have "d = c"
    by (metis (mono_tags, lifting) hd_dropWhile list.discI list.sel(1))
  ultimately show ?thesis
    using takeWhile_dropWhile_id [of "\<lambda>x. x \<noteq> c" xs] c by (metis list.sel(3) set_takeWhileD)
qed

lemma split_once_append [simp]: "c \<notin> set a \<Longrightarrow> split_once c (a @ c # b) = Some (a, b)"
  by (simp add: split_once_def takeWhile_append dropWhile_append)

lemma splitn3_join [simp]:
  "c \<notin> set a \<Longrightarrow> c \<notin> set b \<Longrightarrow> splitn3 c (a @ c # b @ c # d) = [a, b, d]"
  by (simp add: splitn3_def)

lemma position_Some_iff:
  "position p xs = Some i \<longleftrightarrow> i < length xs \<and> p (xs ! i) \<and> (\<forall>j < i. \<not> p (xs ! j))"
proof (induction xs arbitrary: i)
  case (Cons x xs)
  then show ?case
    by (cases i) (auto simp: less_Suc_eq_0_disj)
qed simp

lemma position_None_iff: "position p xs = None \<longleftrightarrow> (\<forall>x \<in> set xs. \<not> p x)"
  by (induction xs) auto

lemma strip_prefix_Some_iff: "strip_prefix xs p = Some ys \<longleftrightarrow> xs = p @ ys"
  by (auto simp: strip_prefix_def) (metis append_take_drop_id)

lemma strip_suffix_Some_iff: "strip_suffix xs p = Some ys \<longleftrightarrow> xs = ys @ p"
proof
  assume "strip_suffix xs p = Some ys"
  then show "xs = ys @ p"
    by (auto simp: strip_suffix_def split: if_splits) (metis append_take_drop_id)
qed (simp add: strip_suffix_def)

lemma starts_with_iff: "starts_with xs p \<longleftrightarrow> (\<exists>ys. xs = p @ ys)"
  by (metis append_eq_conv_conj append_take_drop_id starts_with_def)

section \<open>UTF-16\<close>

text \<open>\<open>String::from_utf16\<close> (unpaired surrogates are errors), its inverse \<open>encode_utf16\<close>, and the
  little-endian words of a byte string.\<close>

fun utf16_decode :: "u16 list \<Rightarrow> nat list option" where
  "utf16_decode [] = Some []"
| "utf16_decode (w # ws) =
     (if unat w < 0xD800 \<or> 0xE000 \<le> unat w then map_option (Cons (unat w)) (utf16_decode ws)
      else if 0xDC00 \<le> unat w then None
      else case ws of
          [] \<Rightarrow> None
        | v # vs \<Rightarrow>
            if 0xDC00 \<le> unat v \<and> unat v < 0xE000
            then map_option (Cons (0x10000 + (unat w - 0xD800) * 1024 + (unat v - 0xDC00))) (utf16_decode vs)
            else None)"

definition utf16_encode1 :: "nat \<Rightarrow> u16 list" where
  "utf16_encode1 c =
     (if c < 0x10000 then [of_nat c]
      else [of_nat (0xD800 + (c - 0x10000) div 1024), of_nat (0xDC00 + (c - 0x10000) mod 1024)])"

definition utf16_encode :: "nat list \<Rightarrow> u16 list" where
  "utf16_encode cs = concat (map utf16_encode1 cs)"

fun le_words :: "bytes \<Rightarrow> u16 list" where
  "le_words (a # b # bs) = of_nat (le_nat [a, b]) # le_words bs"
| "le_words _ = []"

definition words_le :: "u16 list \<Rightarrow> bytes" where
  "words_le ws = concat (map (\<lambda>w. le_bytes 2 (unat w)) ws)"

lemma u16_less [simp]: "unat (w :: u16) < 65536"
  using unat_bound [of w] by simp

lemma words_le_le_words: "even (length bs) \<Longrightarrow> words_le (le_words bs) = bs"
proof (induction bs rule: le_words.induct)
  case (1 a b bs)
  have "le_nat [a, b] < 2 ^ 16"
    using le_nat_less [of "[a, b]"] by simp
  then have "unat (of_nat (le_nat [a, b]) :: u16) = le_nat [a, b]"
    by (intro unat_of_nat_small) simp
  moreover have "le_bytes 2 (le_nat [a, b]) = [a, b]"
    by (rule le_bytes_le_nat) simp
  ultimately show ?case
    using 1 by (simp add: words_le_def del: le_nat.simps)
qed (simp_all add: words_le_def)

lemma surrogates_split:
  assumes "h < 1024" and "l < 1024"
  shows "(h * 1024 + l) div 1024 = h" and "(h * 1024 + l) mod 1024 = (l::nat)"
  using assms by simp_all

lemma utf16_encode1_pair:
  assumes "0xD800 \<le> unat w" "unat w < 0xDC00" "0xDC00 \<le> unat v" "unat v < 0xE000"
  shows "utf16_encode1 (0x10000 + (unat w - 0xD800) * 1024 + (unat v - 0xDC00)) = [w, v :: u16]"
    and "scalar (0x10000 + (unat w - 0xD800) * 1024 + (unat v - 0xDC00))"
proof -
  define h l where "h = unat w - 0xD800" and "l = unat v - 0xDC00"
  have hl: "h < 1024" "l < 1024" and u: "0xD800 + h = unat w" "0xDC00 + l = unat v"
    using assms unfolding h_def l_def by linarith+
  have "utf16_encode1 (0x10000 + h * 1024 + l) = [of_nat (0xD800 + h), of_nat (0xDC00 + l)]"
    using hl by (simp add: utf16_encode1_def surrogates_split del: of_nat_add)
  then show "utf16_encode1 (0x10000 + (unat w - 0xD800) * 1024 + (unat v - 0xDC00)) = [w, v]"
    unfolding u h_def [symmetric] l_def [symmetric] by simp
  show "scalar (0x10000 + (unat w - 0xD800) * 1024 + (unat v - 0xDC00))"
    unfolding h_def [symmetric] l_def [symmetric] using hl by (simp add: scalar_def)
qed

lemma utf16_decode_sound:
  "utf16_decode ws = Some cs \<Longrightarrow> utf16_encode cs = ws \<and> (\<forall>c \<in> set cs. scalar c)"
proof (induction ws arbitrary: cs rule: utf16_decode.induct)
  case (2 w ws)
  show ?case
  proof (cases "unat w < 0xD800 \<or> 0xE000 \<le> unat w")
    case True
    then obtain ds where "utf16_decode ws = Some ds" "cs = unat w # ds"
      using "2.prems" by auto
    moreover have "unat w < 0x110000"
      using u16_less [of w] by (rule less_trans) simp
    ultimately show ?thesis
      using "2.IH"(1) [OF True] True
      by (auto simp: utf16_encode_def utf16_encode1_def scalar_def)
  next
    case False
    then obtain v vs ds where ws: "ws = v # vs" and r: "\<not> 0xDC00 \<le> unat w"
        "0xDC00 \<le> unat v" "unat v < 0xE000" and ds: "utf16_decode vs = Some ds"
      and cs: "cs = (0x10000 + (unat w - 0xD800) * 1024 + (unat v - 0xDC00)) # ds"
      using "2.prems" by (auto split: list.splits if_splits)
    have "utf16_encode ds = vs \<and> (\<forall>c \<in> set ds. scalar c)"
      using "2.IH"(2) [OF False r(1) ws] r ds by blast
    moreover have "utf16_encode1 (0x10000 + (unat w - 0xD800) * 1024 + (unat v - 0xDC00)) = [w, v]"
        "scalar (0x10000 + (unat w - 0xD800) * 1024 + (unat v - 0xDC00))"
      using False r by (intro utf16_encode1_pair; simp)+
    ultimately show ?thesis
      by (simp only: cs ws utf16_encode_def list.map concat.simps) simp
  qed
qed (simp add: utf16_encode_def)

end
