(* ===== verification/UQ_Prims.thy ===== *)
theory UQ_Prims
  imports UQ_Text
begin

text \<open>
  The hash and hex crates (\<open>sha2\<close>, \<open>hex\<close>) the code calls, as the fields of a record that every
  definition calling them takes as an argument. What the code relies on is named here: the digest
  sizes, and that decoding inverts encoding. \<open>demo_prims\<close> is an executable instance of the record
  on which both hypotheses hold.
\<close>

record prims =
  sha256 :: "bytes \<Rightarrow> bytes"
  sha384 :: "bytes \<Rightarrow> bytes"
  sha512 :: "bytes \<Rightarrow> bytes"
  hex_encode :: "bytes \<Rightarrow> str"
  hex_decode :: "str \<Rightarrow> bytes option"

definition digest_sizes :: "prims \<Rightarrow> bool" where
  "digest_sizes P \<longleftrightarrow>
     (\<forall>x. length (sha256 P x) = 32 \<and> length (sha384 P x) = 48 \<and> length (sha512 P x) = 64)"

definition hex_laws :: "prims \<Rightarrow> bool" where
  "hex_laws P \<longleftrightarrow>
     (\<forall>b. hex_decode P (hex_encode P b) = Some b) \<and>
     (\<forall>s b. hex_decode P s = Some b \<longrightarrow> length s = 2 * length b)"

lemma digest_sizesD [simp]:
  assumes "digest_sizes P"
  shows "length (sha256 P x) = 32" and "length (sha384 P x) = 48" and "length (sha512 P x) = 64"
  using assms by (simp_all add: digest_sizes_def)

lemma hex_laws_decode_encode [simp]: "hex_laws P \<Longrightarrow> hex_decode P (hex_encode P b) = Some b"
  by (simp add: hex_laws_def)

lemma hex_laws_length: "hex_laws P \<Longrightarrow> hex_decode P s = Some b \<Longrightarrow> length s = 2 * length b"
  by (simp add: hex_laws_def)

lemma hex_encode_inject [simp]:
  assumes "hex_laws P"
  shows "hex_encode P a = hex_encode P b \<longleftrightarrow> a = b"
  using hex_laws_decode_encode [OF assms] by (metis option.inject)

section \<open>An executable instance\<close>

definition demo_digest :: "nat \<Rightarrow> bytes \<Rightarrow> bytes" where
  "demo_digest n x = take n (rev x @ replicate n 0)"

definition demo_digit :: "nat \<Rightarrow> byte" where
  "demo_digit n = of_nat (if n < 10 then 48 + n else 87 + n)"

definition demo_nibble :: "byte \<Rightarrow> nat option" where
  "demo_nibble b =
     (let n = unat b in
      if 48 \<le> n \<and> n \<le> 57 then Some (n - 48)
      else if 97 \<le> n \<and> n \<le> 102 then Some (n - 87)
      else if 65 \<le> n \<and> n \<le> 70 then Some (n - 55)
      else None)"

primrec demo_hex_encode :: "bytes \<Rightarrow> str" where
  "demo_hex_encode [] = []"
| "demo_hex_encode (b # bs) =
     demo_digit (unat b div 16) # demo_digit (unat b mod 16) # demo_hex_encode bs"

fun demo_hex_decode :: "str \<Rightarrow> bytes option" where
  "demo_hex_decode [] = Some []"
| "demo_hex_decode [_] = None"
| "demo_hex_decode (a # b # s) =
     (case (demo_nibble a, demo_nibble b, demo_hex_decode s) of
        (Some h, Some l, Some bs) \<Rightarrow> Some (of_nat (16 * h + l) # bs)
      | _ \<Rightarrow> None)"

definition demo_prims :: prims where
  "demo_prims = \<lparr>sha256 = demo_digest 32, sha384 = demo_digest 48, sha512 = demo_digest 64,
     hex_encode = demo_hex_encode, hex_decode = demo_hex_decode\<rparr>"

lemma length_demo_digest [simp]: "length (demo_digest n x) = n"
  by (simp add: demo_digest_def)

lemma demo_digest_suffix: "length c = n \<Longrightarrow> demo_digest n (x @ c) = rev c"
  by (simp add: demo_digest_def)

lemma demo_nibble_digit: "n < 16 \<Longrightarrow> demo_nibble (demo_digit n) = Some n"
  by (simp add: demo_nibble_def demo_digit_def Let_def unat_of_nat)

lemma demo_hex_roundtrip: "demo_hex_decode (demo_hex_encode bs) = Some bs"
proof (induction bs)
  case (Cons b bs)
  have "unat b div 16 < 16"
    using unat_byte_less [of b] by (simp add: div_less_iff_less_mult del: unat_byte_less)
  then show ?case
    using Cons.IH by (simp add: demo_nibble_digit)
qed simp

lemma demo_hex_length: "demo_hex_decode s = Some bs \<Longrightarrow> length s = 2 * length bs"
  by (induction s arbitrary: bs rule: demo_hex_decode.induct) (auto split: option.splits)

lemma demo_digest_sizes [simp]: "digest_sizes demo_prims"
  by (simp add: digest_sizes_def demo_prims_def)

lemma demo_hex_laws [simp]: "hex_laws demo_prims"
  by (simp add: hex_laws_def demo_prims_def demo_hex_roundtrip demo_hex_length)

end
