(* ===== verification/Boot_Types.thy ===== *)
theory Boot_Types
  imports UQ_Prims
begin

text \<open>
  The data of \<open>v2/src/boot.rs\<close>: errors, limits, events and logs, the bounds-checked cursor every
  field of a log is read through, the digest table and the hash dispatch; and from
  \<open>v2/src/boot/runtime.rs\<close> the application event (AAEL) that the log parser itself calls.
\<close>

text \<open>\<open>Panic\<close> is not a constructor of the code: it stands for an \<open>unwrap\<close> or an index that aborts
  the call, and the theorems show where it cannot be reached.\<close>

datatype BootError =
    Io string
  | Malformed nat string
  | Limit string
  | UnsupportedAlgorithm u16
  | Unsupported string
  | PlatformMismatch
  | InvalidRegisters string
  | RegisterMismatch u16 u32
  | UnauthenticatedEvent nat
  | ContentMismatch nat
  | CommandLine string
  | VerityRootMismatch
  | Uki string
  | Runtime string
  | VerityState string
  | Panic string

type_synonym 'a boot = "BootError + 'a"

fun is_panic :: "BootError \<Rightarrow> bool" where
  "is_panic (Panic _) = True"
| "is_panic _ = False"

abbreviation panic_free :: "'a boot \<Rightarrow> bool" where
  "panic_free \<equiv> never_fails is_panic"

lemma panic_free_Inl [no_error_intros]: "\<not> is_panic e \<Longrightarrow> panic_free (Inl e)"
  by (rule never_fails_Inl)

lemmas not_panic = is_panic.simps not_False_eq_True

lemma panic_freeD: "panic_free r \<Longrightarrow> r \<noteq> Inl (Panic m)"
  by (auto simp: never_fails_def)

abbreviation TPM_ALG_SHA256 :: u16 where "TPM_ALG_SHA256 \<equiv> 0x000b"
abbreviation TPM_ALG_SHA384 :: u16 where "TPM_ALG_SHA384 \<equiv> 0x000c"
abbreviation TPM_ALG_SHA512 :: u16 where "TPM_ALG_SHA512 \<equiv> 0x000d"
abbreviation EV_NO_ACTION :: u32 where "EV_NO_ACTION \<equiv> 3"
abbreviation EV_IPL :: u32 where "EV_IPL \<equiv> 13"

record ParseLimits =
  max_log_bytes :: nat
  max_events :: nat
  max_event_bytes :: nat
  max_algorithms :: nat

definition default_limits :: ParseLimits where
  "default_limits = \<lparr>max_log_bytes = 32 * 1024 * 1024, max_events = 65536,
     max_event_bytes = 4 * 1024 * 1024, max_algorithms = 16\<rparr>"

datatype LogKind = Tpm2 | TdxCcel

record Event =
  ev_offset :: nat
  register_index :: u32
  reported_event_type :: u32
  digests :: "(u16, bytes) btmap"
  untrusted_event_data :: bytes

record EventLog =
  log_kind :: LogKind
  log_algorithms :: "(u16, nat) btmap"
  log_events :: "Event list"
  consumed_bytes :: nat

section \<open>Operations that panic\<close>

text \<open>Indexing a slice, taking a range of it, the \<open>unwrap\<close> of a conversion to an array, and a
  subtraction of \<open>usize\<close> abort outside their domain (the subtraction in a build with overflow checks,
  which is the stricter reading).\<close>

definition index_at :: "'a list \<Rightarrow> nat \<Rightarrow> 'a boot" where
  "index_at xs i = (if i < length xs then Inr (xs ! i) else Inl (Panic ''index out of bounds''))"

definition index_range :: "'a list \<Rightarrow> nat \<Rightarrow> nat \<Rightarrow> 'a list boot" where
  "index_range xs start stop = ok_or (slice xs start stop) (Panic ''range out of bounds'')"

definition into_array :: "nat \<Rightarrow> bytes \<Rightarrow> bytes boot" where
  "into_array n bs = (if length bs = n then Inr bs else Inl (Panic ''unwrap of a failed conversion''))"

definition usize_sub :: "nat \<Rightarrow> nat \<Rightarrow> nat boot" where
  "usize_sub a b = (if b \<le> a then Inr (a - b) else Inl (Panic ''subtract with overflow''))"

lemma index_at_eq: "i < length xs \<Longrightarrow> index_at xs i = Inr (xs ! i)"
  by (simp add: index_at_def)

lemma index_range_eq:
  "i \<le> j \<Longrightarrow> j \<le> length xs \<Longrightarrow> index_range xs i j = Inr (take (j - i) (drop i xs))"
  by (simp add: index_range_def slice_def ok_or_def)

lemma into_array_eq: "length bs = n \<Longrightarrow> into_array n bs = Inr bs"
  by (simp add: into_array_def)

lemma usize_sub_eq: "b \<le> a \<Longrightarrow> usize_sub a b = Inr (a - b)"
  by (simp add: usize_sub_def)

lemmas in_domain = index_at_eq index_range_eq into_array_eq usize_sub_eq

section \<open>The cursor\<close>

record cursor =
  cur_bytes :: bytes
  cur_offset :: nat

definition cursor_take :: "nat \<Rightarrow> cursor \<Rightarrow> (bytes \<times> cursor) boot" where
  "cursor_take n c =
     bindR (ok_or (usize_checked_add (cur_offset c) n) (Limit ''offset'')) (\<lambda>stop.
     bindR (ok_or (slice (cur_bytes c) (cur_offset c) stop)
              (Malformed (cur_offset c) ''truncated field'')) (\<lambda>value.
     Inr (value, c\<lparr>cur_offset := stop\<rparr>)))"

definition cursor_u8 :: "cursor \<Rightarrow> (u8 \<times> cursor) boot" where
  "cursor_u8 c = bindR (cursor_take 1 c) (\<lambda>(v, c'). bindR (index_at v 0) (\<lambda>b. Inr (b, c')))"

definition cursor_u16 :: "cursor \<Rightarrow> (u16 \<times> cursor) boot" where
  "cursor_u16 c =
     bindR (cursor_take 2 c) (\<lambda>(v, c'). bindR (into_array 2 v) (\<lambda>a. Inr (of_nat (le_nat a), c')))"

definition cursor_u32 :: "cursor \<Rightarrow> (u32 \<times> cursor) boot" where
  "cursor_u32 c =
     bindR (cursor_take 4 c) (\<lambda>(v, c'). bindR (into_array 4 v) (\<lambda>a. Inr (of_nat (le_nat a), c')))"

definition cursor_invalid :: "cursor \<Rightarrow> string \<Rightarrow> BootError" where
  "cursor_invalid c reason = Malformed (cur_offset c) reason"

text \<open>
  The contract of every routine that reads from a cursor: it never touches the bytes, never moves
  backwards, and leaves the offset inside the buffer. \<open>k\<close> is the number of bytes it is known to
  consume.
\<close>

definition reads_within :: "nat \<Rightarrow> cursor \<Rightarrow> cursor \<Rightarrow> bool" where
  "reads_within k c c' \<longleftrightarrow>
     cur_bytes c' = cur_bytes c \<and> cur_offset c + k \<le> cur_offset c' \<and>
     cur_offset c' \<le> length (cur_bytes c)"

locale reader =
  fixes rd :: "cursor \<Rightarrow> ('a \<times> cursor) boot"
    and k :: nat
  assumes reads: "rd c = Inr (x, c') \<Longrightarrow> reads_within k c c'"
begin

lemma rd_bytes: "rd c = Inr (x, c') \<Longrightarrow> cur_bytes c' = cur_bytes c"
  using reads by (simp add: reads_within_def)

lemma rd_progress: "rd c = Inr (x, c') \<Longrightarrow> cur_offset c + k \<le> cur_offset c'"
  using reads by (simp add: reads_within_def)

lemma rd_bound: "rd c = Inr (x, c') \<Longrightarrow> cur_offset c' \<le> length (cur_bytes c')"
  using reads by (simp add: reads_within_def)

lemma rd_then:
  "rd c = Inr (x, c') \<Longrightarrow> reads_within m c' c'' \<Longrightarrow> reads_within (k + m) c c''"
  using reads [of c x c'] by (auto simp: reads_within_def)

end

lemma cursor_take_Inr_iff:
  "cursor_take n c = Inr (v, c') \<longleftrightarrow>
     cur_offset c + n < 2 ^ 64 \<and> cur_offset c + n \<le> length (cur_bytes c) \<and>
     v = take n (drop (cur_offset c) (cur_bytes c)) \<and> c' = c\<lparr>cur_offset := cur_offset c + n\<rparr>"
  by (auto simp: cursor_take_def usize_checked_add_def slice_Some_iff result_simps)

lemma reads_within_weaken: "reads_within k c c' \<Longrightarrow> j \<le> k \<Longrightarrow> reads_within j c c'"
  by (simp add: reads_within_def)

lemma reads_within_trans:
  "reads_within j c c' \<Longrightarrow> reads_within k c' c'' \<Longrightarrow> reads_within (j + k) c c''"
  by (auto simp: reads_within_def)

interpretation take_reader: reader "cursor_take n" n for n
  by unfold_locales (auto simp: cursor_take_Inr_iff reads_within_def)

lemma length_cursor_take: "cursor_take n c = Inr (v, c') \<Longrightarrow> length v = n"
  by (auto simp: cursor_take_Inr_iff)

text \<open>What \<open>take\<close> returns has the requested length, so the index and the conversions succeed.\<close>

lemma cursor_u8_eq: "cursor_u8 c = bindR (cursor_take 1 c) (\<lambda>(v, c'). Inr (v ! 0, c'))"
  by (cases "cursor_take 1 c") (auto simp: cursor_u8_def in_domain dest: length_cursor_take)

lemma cursor_u16_eq: "cursor_u16 c = bindR (cursor_take 2 c) (\<lambda>(v, c'). Inr (of_nat (le_nat v), c'))"
  by (cases "cursor_take 2 c") (auto simp: cursor_u16_def in_domain dest: length_cursor_take)

lemma cursor_u32_eq: "cursor_u32 c = bindR (cursor_take 4 c) (\<lambda>(v, c'). Inr (of_nat (le_nat v), c'))"
  by (cases "cursor_take 4 c") (auto simp: cursor_u32_def in_domain dest: length_cursor_take)

interpretation u8_reader: reader cursor_u8 1
  by unfold_locales (auto simp: cursor_u8_eq result_simps intro: take_reader.reads)

interpretation u16_reader: reader cursor_u16 2
  by unfold_locales (auto simp: cursor_u16_eq result_simps intro: take_reader.reads)

interpretation u32_reader: reader cursor_u32 4
  by unfold_locales (auto simp: cursor_u32_eq result_simps intro: take_reader.reads)

text \<open>A cursor between what is read and what is left, for the proofs that a printed record parses.\<close>

definition cursor_at :: "bytes \<Rightarrow> bytes \<Rightarrow> cursor" where
  "cursor_at pre post = \<lparr>cur_bytes = pre @ post, cur_offset = length pre\<rparr>"

lemma cursor_at_simps [simp]:
  "cur_bytes (cursor_at pre post) = pre @ post" "cur_offset (cursor_at pre post) = length pre"
  by (simp_all add: cursor_at_def)

lemma cursor_take_at:
  "length pre + n < 2 ^ 64 \<Longrightarrow> length x = n \<Longrightarrow>
   cursor_take n (cursor_at pre (x @ post)) = Inr (x, cursor_at (pre @ x) post)"
  by (simp add: cursor_take_Inr_iff cursor_at_def)

lemma cursor_u8_at:
  "length pre + 1 < 2 ^ 64 \<Longrightarrow> cursor_u8 (cursor_at pre (b # post)) = Inr (b, cursor_at (pre @ [b]) post)"
  using cursor_take_at [of pre 1 "[b]" post] by (simp add: cursor_u8_eq)

lemma cursor_u16_at:
  "length pre + 2 < 2 ^ 64 \<Longrightarrow> v < 2 ^ 16 \<Longrightarrow>
   cursor_u16 (cursor_at pre (le_bytes 2 v @ post)) = Inr (of_nat v, cursor_at (pre @ le_bytes 2 v) post)"
  by (simp add: cursor_u16_eq cursor_take_at le_nat_le_bytes)

lemma cursor_u32_at:
  "length pre + 4 < 2 ^ 64 \<Longrightarrow> v < 2 ^ 32 \<Longrightarrow>
   cursor_u32 (cursor_at pre (le_bytes 4 v @ post)) = Inr (of_nat v, cursor_at (pre @ le_bytes 4 v) post)"
  by (simp add: cursor_u32_eq cursor_take_at le_nat_le_bytes)

lemma panic_free_cursor [no_error_intros]:
  "panic_free (cursor_take n c)" "panic_free (cursor_u8 c)" "panic_free (cursor_u16 c)" "panic_free (cursor_u32 c)"
  by (auto simp: cursor_take_def cursor_u8_eq cursor_u16_eq cursor_u32_eq intro!: no_error_intros)

lemma not_panic_cursor_invalid [simp]: "\<not> is_panic (cursor_invalid c m)"
  by (simp add: cursor_invalid_def)

section \<open>Digest sizes and hashing\<close>

definition known_digest_size :: "u16 \<Rightarrow> nat option" where
  "known_digest_size algorithm =
     (if algorithm = 0x0004 then Some 20
      else if algorithm = 0x000b then Some 32
      else if algorithm = 0x000c then Some 48
      else if algorithm = 0x000d then Some 64
      else if algorithm = 0x0012 then Some 32
      else if algorithm = 0x0027 then Some 32
      else if algorithm = 0x0028 then Some 48
      else if algorithm = 0x0029 then Some 64
      else None)"

definition hash :: "prims \<Rightarrow> u16 \<Rightarrow> bytes \<Rightarrow> bytes boot" where
  "hash P algorithm bs =
     (if algorithm = TPM_ALG_SHA256 then Inr (sha256 P bs)
      else if algorithm = TPM_ALG_SHA384 then Inr (sha384 P bs)
      else if algorithm = TPM_ALG_SHA512 then Inr (sha512 P bs)
      else Inl (UnsupportedAlgorithm algorithm))"

lemma panic_free_hash [no_error_intros]: "panic_free (hash P a bs)"
  by (auto simp: hash_def intro!: no_error_intros)

lemma hash_384 [simp]: "hash P TPM_ALG_SHA384 bs = Inr (sha384 P bs)"
  by (simp add: hash_def)

lemma hash_total: "hash P a x = Inr d \<Longrightarrow> \<exists>e. hash P a y = Inr e"
  by (auto simp: hash_def split: if_splits)

text \<open>The replayed banks are exactly those whose digest size the table gives.\<close>

lemma hash_size:
  "digest_sizes P \<Longrightarrow> hash P a x = Inr d \<Longrightarrow> known_digest_size a = Some (length d)"
  by (auto simp: hash_def known_digest_size_def split: if_splits)

lemma hash_same_size:
  "digest_sizes P \<Longrightarrow> hash P a x = Inr d \<Longrightarrow> hash P a y = Inr e \<Longrightarrow> length d = length e"
  using hash_size [of P a x d] hash_size [of P a y e] by simp

section \<open>Application events\<close>

abbreviation MAX_RUNTIME_EVENT_BYTES :: nat where "MAX_RUNTIME_EVENT_BYTES \<equiv> 64 * 1024"
abbreviation AAEL_TAG :: nat where "AAEL_TAG \<equiv> 0x4141454c"
abbreviation EV_EVENT_TAG :: u32 where "EV_EVENT_TAG \<equiv> 6"

record RuntimeEvent =
  domain_of :: str
  operation_of :: str
  content_of :: str

text \<open>The lengths are those of strings in memory, so the saturating sums are plain sums unless they
  pass \<open>2 ^ 64\<close>, where they stay above the limit.\<close>

definition saturating_add :: "nat \<Rightarrow> nat \<Rightarrow> nat" where
  "saturating_add a b = min (a + b) (2 ^ 64 - 1)"

definition runtime_event_bytes :: "nat \<Rightarrow> RuntimeEvent \<Rightarrow> nat" where
  "runtime_event_bytes start e =
     saturating_add (saturating_add (saturating_add (saturating_add start
       (length (domain_of e))) (length (operation_of e))) (length (content_of e))) 10"

definition runtime_event_validate :: "RuntimeEvent \<Rightarrow> unit boot" where
  "runtime_event_validate e =
     (if domain_of e = [] \<or> operation_of e = [] \<or> content_of e = []
       \<or> (\<exists>c \<in> set (chars (domain_of e)). is_whitespace c \<or> is_control c)
       \<or> (\<exists>c \<in> set (chars (operation_of e)). is_whitespace c \<or> is_control c)
       \<or> (\<exists>c \<in> set (chars (content_of e)). is_control c)
       \<or> runtime_event_bytes 0 e > MAX_RUNTIME_EVENT_BYTES
      then Inl (Runtime ''invalid or oversized AAEL fields'')
      else Inr ())"

definition parse_aael :: "Event \<Rightarrow> RuntimeEvent boot" where
  "parse_aael event =
     (let data = untrusted_event_data event in
      if register_index event \<noteq> 4 \<or> reported_event_type event \<noteq> EV_EVENT_TAG
         \<or> length (digests event) \<noteq> 1
         \<or> (case bt_get (digests event) TPM_ALG_SHA384 of None \<Rightarrow> True | Some d \<Rightarrow> length d \<noteq> 48)
         \<or> length data < 8 \<or> length data > MAX_RUNTIME_EVENT_BYTES
      then Inl (Runtime ''expected bounded SHA384 AAEL EV_EVENT_TAG in MRIndex4'')
      else bindR (bindR (index_range data 0 4) (into_array 4)) (\<lambda>tag.
        if le_nat tag \<noteq> AAEL_TAG then Inl (Runtime ''AAEL tag or length mismatch'')
        else bindR (bindR (index_range data 4 8) (into_array 4)) (\<lambda>len.
        bindR (usize_sub (length data) 8) (\<lambda>rest.
        if le_nat len \<noteq> rest then Inl (Runtime ''AAEL tag or length mismatch'')
        else bindR (index_range data 8 (length data)) (\<lambda>body.
        bindR (ok_or (from_utf8 body) (Runtime ''AAEL is not UTF8'')) (\<lambda>txt.
        let parts = splitn3 32 txt;
            nth_or = (\<lambda>i. if i < length parts then parts ! i else []);
            rec = \<lparr>domain_of = nth_or 0, operation_of = nth_or 1, content_of = nth_or 2\<rparr>
        in bindR (runtime_event_validate rec) (\<lambda>_. Inr rec)))))))"

text \<open>Past the length guard no range is out of bounds: the function without the panicking steps.\<close>

lemma parse_aael_eq:
  "parse_aael event =
     (let data = untrusted_event_data event in
      if register_index event \<noteq> 4 \<or> reported_event_type event \<noteq> EV_EVENT_TAG
         \<or> length (digests event) \<noteq> 1
         \<or> (case bt_get (digests event) TPM_ALG_SHA384 of None \<Rightarrow> True | Some d \<Rightarrow> length d \<noteq> 48)
         \<or> length data < 8 \<or> length data > MAX_RUNTIME_EVENT_BYTES
      then Inl (Runtime ''expected bounded SHA384 AAEL EV_EVENT_TAG in MRIndex4'')
      else if le_nat (take 4 data) \<noteq> AAEL_TAG
         \<or> le_nat (take 4 (drop 4 data)) \<noteq> length data - 8
      then Inl (Runtime ''AAEL tag or length mismatch'')
      else bindR (ok_or (from_utf8 (drop 8 data)) (Runtime ''AAEL is not UTF8'')) (\<lambda>txt.
        let parts = splitn3 32 txt;
            nth_or = (\<lambda>i. if i < length parts then parts ! i else []);
            rec = \<lparr>domain_of = nth_or 0, operation_of = nth_or 1, content_of = nth_or 2\<rparr>
        in bindR (runtime_event_validate rec) (\<lambda>_. Inr rec)))"
proof (cases "length (untrusted_event_data event) < 8")
  case False
  then show ?thesis by (simp add: parse_aael_def in_domain Let_def)
qed (simp add: parse_aael_def Let_def)

lemma panic_free_parse_aael [no_error_intros]: "panic_free (parse_aael e)"
  by (auto simp: parse_aael_eq runtime_event_validate_def Let_def intro!: no_error_intros)

text \<open>The tagged encoding an approved agent measures: tag, length, and the three fields joined by
  single spaces.\<close>

definition aael_data :: "RuntimeEvent \<Rightarrow> bytes" where
  "aael_data e =
     (let txt = domain_of e @ 32 # operation_of e @ 32 # content_of e
      in le_bytes 4 AAEL_TAG @ le_bytes 4 (length txt) @ txt)"

end
