(* ===== verification/Boot_Log.thy ===== *)
theory Boot_Log
  imports Boot_Types
begin

text \<open>
  The event-log parser of \<open>v2/src/boot.rs\<close> (\<open>EventLog::parse\<close> and its three entry points): the SpecID
  header with its algorithm table, then the events, then the erased tail of a CCEL area. The
  lemmas show what a log that parses is: inside the limits, with registers of the platform, one
  digest of the declared size per listed algorithm, and with all offsets inside the buffer.
\<close>

section \<open>The SpecID header\<close>

text \<open>The algorithm table. \<open>c\<close> is the outer cursor, which the error offsets come from.\<close>

fun parse_algorithms ::
  "cursor \<Rightarrow> nat \<Rightarrow> (u16, nat) btmap \<Rightarrow> cursor \<Rightarrow> ((u16, nat) btmap \<times> cursor) boot" where
  "parse_algorithms c 0 algorithms s = Inr (algorithms, s)"
| "parse_algorithms c (Suc n) algorithms s =
     bindR (cursor_u16 s) (\<lambda>(algorithm, s).
     bindR (cursor_u16 s) (\<lambda>(size16, s).
     let sz = unat size16 in
     if sz = 0 \<or> sz > 128
        \<or> (case known_digest_size algorithm of None \<Rightarrow> False | Some k \<Rightarrow> k \<noteq> sz)
     then Inl (cursor_invalid c ''invalid algorithm digest size'')
     else if bt_get algorithms algorithm \<noteq> None
     then Inl (cursor_invalid c ''duplicate SpecID algorithm'')
     else parse_algorithms c n (bt_insert algorithm sz algorithms) s))"

definition parse_spec :: "LogKind \<Rightarrow> ParseLimits \<Rightarrow> cursor \<Rightarrow> ((u16, nat) btmap \<times> cursor) boot" where
  "parse_spec kind limits c =
     bindR (cursor_u32 c) (\<lambda>(initial_index, c).
     if (kind = Tpm2 \<and> initial_index \<noteq> 0) \<or> (kind = TdxCcel \<and> initial_index > 1)
     then Inl (cursor_invalid c ''invalid SpecID register'')
     else bindR (cursor_u32 c) (\<lambda>(event_type, c).
     if event_type \<noteq> EV_NO_ACTION
     then Inl (cursor_invalid c ''missing legacy-format SpecID header'')
     else bindR (cursor_take 20 c) (\<lambda>(digest, c).
     if \<exists>b \<in> set digest. b \<noteq> 0
     then Inl (cursor_invalid c ''missing legacy-format SpecID header'')
     else bindR (cursor_u32 c) (\<lambda>(spec_len, c).
     if unat spec_len > max_event_bytes limits then Inl (Limit ''SpecID bytes'')
     else bindR (cursor_take (unat spec_len) c) (\<lambda>(spec, c).
     let s = \<lparr>cur_bytes = spec, cur_offset = 0\<rparr> in
     bindR (cursor_take 16 s) (\<lambda>(signature, s).
     if signature \<noteq> lit ''Spec ID Event03'' @ [0]
     then Inl (cursor_invalid c ''unsupported SpecID signature'')
     else bindR (cursor_u32 s) (\<lambda>(_, s).
     bindR (cursor_u8 s) (\<lambda>(minor, s).
     bindR (cursor_u8 s) (\<lambda>(major, s).
     bindR (cursor_u8 s) (\<lambda>(_, s).
     bindR (cursor_u8 s) (\<lambda>(uintn, s).
     if major \<noteq> 2 \<or> minor \<noteq> 0 \<or> uintn \<notin> {1, 2}
     then Inl (cursor_invalid c ''unsupported SpecID version or UINTN size'')
     else bindR (cursor_u32 s) (\<lambda>(count, s).
     if count = 0 \<or> unat count > max_algorithms limits then Inl (Limit ''algorithm count'')
     else bindR (parse_algorithms c (unat count) [] s) (\<lambda>(algorithms, s).
     bindR (cursor_u8 s) (\<lambda>(vendor_len, s).
     bindR (cursor_take (unat vendor_len) s) (\<lambda>(_, s).
     if cur_offset s \<noteq> length spec then Inl (cursor_invalid c ''trailing SpecID data'')
     else if kind = TdxCcel \<and> bt_get algorithms TPM_ALG_SHA384 \<noteq> Some 48
     then Inl (cursor_invalid c ''TDX CCEL lacks SHA-384 bank'')
     else Inr (algorithms, c))))))))))))))))"

section \<open>Events\<close>

text \<open>One round of the event loop. The event is pushed before its AAEL check, so the
  \<open>events.last().unwrap()\<close> of that check is the event itself.\<close>

fun parse_digests ::
  "(u16, nat) btmap \<Rightarrow> nat \<Rightarrow> (u16, bytes) btmap \<Rightarrow> cursor \<Rightarrow> ((u16, bytes) btmap \<times> cursor) boot" where
  "parse_digests algorithms 0 ds c = Inr (ds, c)"
| "parse_digests algorithms (Suc n) ds c =
     bindR (cursor_u16 c) (\<lambda>(algorithm, c).
     bindR (ok_or (bt_get algorithms algorithm)
              (cursor_invalid c ''algorithm absent from SpecID'')) (\<lambda>sz.
     bindR (cursor_take sz c) (\<lambda>(digest, c).
     if bt_get ds algorithm \<noteq> None then Inl (cursor_invalid c ''duplicate event digest'')
     else parse_digests algorithms n (bt_insert algorithm digest ds) c)))"

definition parse_event ::
  "LogKind \<Rightarrow> ParseLimits \<Rightarrow> bool \<Rightarrow> (u16, nat) btmap \<Rightarrow> cursor \<Rightarrow> (Event \<times> cursor) boot" where
  "parse_event kind limits aael algorithms c0 =
     bindR (cursor_u32 c0) (\<lambda>(reg, c).
     if (kind = Tpm2 \<and> reg > 23) \<or> (kind = TdxCcel \<and> reg > (if aael then 4 else 3))
     then Inl (cursor_invalid c ''register outside supported platform profile'')
     else bindR (cursor_u32 c) (\<lambda>(event_type, c).
     bindR (cursor_u32 c) (\<lambda>(count, c).
     if count = 0 \<or> unat count > length algorithms
     then Inl (cursor_invalid c ''invalid event digest count'')
     else bindR (parse_digests algorithms (unat count) [] c) (\<lambda>(ds, c).
     bindR (cursor_u32 c) (\<lambda>(sz, c).
     if unat sz > max_event_bytes limits then Inl (Limit ''event bytes'')
     else bindR (cursor_take (unat sz) c) (\<lambda>(data, c).
     if kind = TdxCcel \<and> bt_get ds TPM_ALG_SHA384 = None
     then Inl (cursor_invalid c ''TDX event lacks SHA-384 digest'')
     else
       let e = \<lparr>ev_offset = cur_offset c0, register_index = reg, reported_event_type = event_type,
                digests = ds, untrusted_event_data = data\<rparr> in
       bindR (if kind = TdxCcel \<and> reg = 4 then bindR (parse_aael e) (\<lambda>_. Inr ()) else Inr ()) (\<lambda>_.
       Inr (e, c))))))))"

lemma parse_algorithms_reads:
  "parse_algorithms c n as s = Inr (bs, s') \<Longrightarrow> cur_offset s \<le> length (cur_bytes s) \<Longrightarrow>
   reads_within 0 s s'"
proof (induction c n as s rule: parse_algorithms.induct)
  case (2 c n as s)
  then obtain a s1 z s2 where s1: "cursor_u16 s = Inr (a, s1)" and s2: "cursor_u16 s1 = Inr (z, s2)"
    and r: "reads_within 0 s2 s'"
    by (fastforce simp: result_simps Let_def dest: u16_reader.rd_bound)
  show ?case
    using u16_reader.rd_then [OF s1 u16_reader.rd_then [OF s2 r]] by (rule reads_within_weaken) simp
qed (simp add: reads_within_def)

lemma parse_digests_reads:
  "parse_digests as n ds c = Inr (es, c') \<Longrightarrow> cur_offset c \<le> length (cur_bytes c) \<Longrightarrow>
   reads_within 0 c c'"
proof (induction as n ds c rule: parse_digests.induct)
  case (2 as n ds c)
  then obtain a c1 z d c2 where c1: "cursor_u16 c = Inr (a, c1)" and c2: "cursor_take z c1 = Inr (d, c2)"
    and r: "reads_within 0 c2 c'"
    by (fastforce simp: result_simps split: if_splits dest: take_reader.rd_bound)
  show ?case
    using u16_reader.rd_then [OF c1 take_reader.rd_then [OF c2 r]] by (rule reads_within_weaken) simp
qed (simp add: reads_within_def)

lemma parse_event_reads:
  assumes "parse_event kind limits aael as c = Inr (e, c')"
  shows "reads_within 16 c c'"
proof -
  obtain r c1 t c2 n c3 ds c4 z c5 d where
    c: "cursor_u32 c = Inr (r, c1)" "cursor_u32 c1 = Inr (t, c2)" "cursor_u32 c2 = Inr (n, c3)"
       "parse_digests as (unat n) [] c3 = Inr (ds, c4)" "cursor_u32 c4 = Inr (z, c5)"
       "cursor_take (unat z) c5 = Inr (d, c')"
    using assms by (auto simp: parse_event_def result_simps Let_def split: if_splits)
  have "reads_within 0 c3 c4"
    using c(4) u32_reader.rd_bound [OF c(3)] by (rule parse_digests_reads)
  then have "reads_within (0 + (4 + unat z)) c3 c'"
    using u32_reader.rd_then [OF c(5) take_reader.reads [OF c(6)]] by (rule reads_within_trans)
  then have "reads_within (4 + (4 + (4 + (0 + (4 + unat z))))) c c'"
    using c(1-3) by (blast intro: u32_reader.rd_then)
  then show ?thesis by (rule reads_within_weaken) simp
qed

interpretation event_reader: reader "parse_event kind limits aael as" 16 for kind limits aael as
  by unfold_locales (rule parse_event_reads)

text \<open>The test for the erased area, \<open>bytes[c.offset..].iter().all(..)\<close>, which only a CCEL evaluates.\<close>

definition at_erased :: "LogKind \<Rightarrow> cursor \<Rightarrow> bool boot" where
  "at_erased kind c =
     (if kind = TdxCcel
      then bindR (index_range (cur_bytes c) (cur_offset c) (length (cur_bytes c))) (\<lambda>rest.
             Inr (\<forall>b \<in> set rest. b = 0xff))
      else Inr False)"

lemma at_erased_eq:
  "cur_offset c < length (cur_bytes c) \<Longrightarrow>
   at_erased kind c = Inr (kind = TdxCcel \<and> (\<forall>b \<in> set (drop (cur_offset c) (cur_bytes c)). b = 0xff))"
  by (simp add: at_erased_def in_domain)

text \<open>The main loop. Each round consumes an event, so it ends with the buffer.\<close>

function parse_events ::
  "LogKind \<Rightarrow> ParseLimits \<Rightarrow> bool \<Rightarrow> (u16, nat) btmap \<Rightarrow> Event list \<Rightarrow> cursor \<Rightarrow> (Event list \<times> cursor) boot" where
  "parse_events kind limits aael algorithms events c =
     (if cur_offset c < length (cur_bytes c) then
        bindR (at_erased kind c) (\<lambda>erased.
        if erased then Inr (events, c)
        else if length events \<ge> max_events limits then Inl (Limit ''event count'')
        else bindR (parse_event kind limits aael algorithms c) (\<lambda>(e, c').
               parse_events kind limits aael algorithms (events @ [e]) c'))
      else Inr (events, c))"
  by auto
termination
proof (relation "measure (\<lambda>(_, _, _, _, _, c). length (cur_bytes c) - cur_offset c)", goal_cases)
  case (2 kind limits aael as events c b x e c')
  then show ?case
    using event_reader.rd_bytes event_reader.rd_progress by fastforce
qed simp

declare parse_events.simps [simp del]

text \<open>Inside the loop the range of the erased-area test is in bounds: the loop and its induction
  rule without the panicking step.\<close>

lemma parse_events_eq:
  "parse_events kind limits aael algorithms events c =
     (if cur_offset c < length (cur_bytes c) then
        if kind = TdxCcel \<and> (\<forall>b \<in> set (drop (cur_offset c) (cur_bytes c)). b = 0xff)
        then Inr (events, c)
        else if length events \<ge> max_events limits then Inl (Limit ''event count'')
        else bindR (parse_event kind limits aael algorithms c) (\<lambda>(e, c').
               parse_events kind limits aael algorithms (events @ [e]) c')
      else Inr (events, c))"
  by (subst parse_events.simps) (simp add: at_erased_eq)

lemma parse_events_induct:
  assumes "\<And>kind limits aael as es c.
    (\<And>x e c'. cur_offset c < length (cur_bytes c) \<Longrightarrow>
       \<not> (kind = TdxCcel \<and> (\<forall>b \<in> set (drop (cur_offset c) (cur_bytes c)). b = 0xff)) \<Longrightarrow>
       \<not> max_events limits \<le> length es \<Longrightarrow> parse_event kind limits aael as c = Inr x \<Longrightarrow> (e, c') = x \<Longrightarrow>
       Q kind limits aael as (es @ [e]) c') \<Longrightarrow> Q kind limits aael as es c"
  shows "Q kind limits aael as es c"
proof (induction kind limits aael as es c rule: parse_events.induct)
  case (1 kind limits aael as es c)
  show ?case
    by (rule assms) (use 1 at_erased_eq in blast)
qed

definition parse :: "bytes \<Rightarrow> LogKind \<Rightarrow> ParseLimits \<Rightarrow> bool \<Rightarrow> EventLog boot" where
  "parse bs kind limits aael =
     (if length bs > max_log_bytes limits then Inl (Limit ''log bytes'')
      else bindR (parse_spec kind limits \<lparr>cur_bytes = bs, cur_offset = 0\<rparr>) (\<lambda>(algorithms, c).
      bindR (parse_events kind limits aael algorithms [] c) (\<lambda>(events, c).
      if events = [] then Inl (cursor_invalid c ''empty measured event log'')
      else Inr \<lparr>log_kind = kind, log_algorithms = algorithms, log_events = events,
                consumed_bytes = cur_offset c\<rparr>)))"

definition parse_tcg2 :: "bytes \<Rightarrow> ParseLimits \<Rightarrow> EventLog boot" where
  "parse_tcg2 bs limits = parse bs Tpm2 limits False"

definition parse_tdx_ccel :: "bytes \<Rightarrow> ParseLimits \<Rightarrow> EventLog boot" where
  "parse_tdx_ccel bs limits = parse bs TdxCcel limits False"

definition parse_tdx_ccel_with_aael :: "bytes \<Rightarrow> ParseLimits \<Rightarrow> EventLog boot" where
  "parse_tdx_ccel_with_aael bs limits = parse bs TdxCcel limits True"

section \<open>What a parsed log is\<close>

definition algorithms_wf :: "(u16, nat) btmap \<Rightarrow> bool" where
  "algorithms_wf as \<longleftrightarrow> bt_invar as \<and>
     (\<forall>(a, n) \<in> set as. 0 < n \<and> n \<le> 128 \<and> known_digest_size a \<in> {None, Some n})"

definition event_wf :: "LogKind \<Rightarrow> ParseLimits \<Rightarrow> bool \<Rightarrow> (u16, nat) btmap \<Rightarrow> Event \<Rightarrow> bool" where
  "event_wf kind limits aael as e \<longleftrightarrow>
     unat (register_index e) \<le> (if kind = Tpm2 then 23 else if aael then 4 else 3) \<and>
     bt_invar (digests e) \<and> digests e \<noteq> [] \<and>
     (\<forall>(a, d) \<in> set (digests e). bt_get as a = Some (length d)) \<and>
     length (untrusted_event_data e) \<le> max_event_bytes limits \<and>
     (kind = TdxCcel \<longrightarrow> bt_get (digests e) TPM_ALG_SHA384 \<noteq> None) \<and>
     (kind = TdxCcel \<and> register_index e = 4 \<longrightarrow> is_ok (parse_aael e))"

definition log_wf :: "ParseLimits \<Rightarrow> bool \<Rightarrow> EventLog \<Rightarrow> bool" where
  "log_wf limits aael l \<longleftrightarrow>
     algorithms_wf (log_algorithms l) \<and>
     length (log_algorithms l) \<in> {1..max_algorithms limits} \<and>
     (log_kind l = TdxCcel \<longrightarrow> bt_get (log_algorithms l) TPM_ALG_SHA384 = Some 48) \<and>
     length (log_events l) \<in> {1..max_events limits} \<and>
     (\<forall>e \<in> set (log_events l). event_wf (log_kind l) limits aael (log_algorithms l) e) \<and>
     sorted_wrt (<) (map ev_offset (log_events l)) \<and>
     (\<forall>e \<in> set (log_events l). ev_offset e < consumed_bytes l) \<and>
     consumed_bytes l \<le> max_log_bytes limits"

lemma parse_algorithms_wf:
  "parse_algorithms c n as s = Inr (bs, s') \<Longrightarrow> algorithms_wf as \<Longrightarrow>
   algorithms_wf bs \<and> length bs = length as + n"
proof (induction c n as s rule: parse_algorithms.induct)
  case (2 c n as s)
  then obtain a s1 z s2 where rd: "cursor_u16 s = Inr (a, s1)" "cursor_u16 s1 = Inr (z, s2)"
    and bad: "\<not> (unat z = 0 \<or> 128 < unat z
       \<or> (case known_digest_size a of None \<Rightarrow> False | Some k \<Rightarrow> k \<noteq> unat z))"
    and new: "bt_get as a = None"
    and rest: "parse_algorithms c n (bt_insert a (unat z) as) s2 = Inr (bs, s')"
    by (clarsimp simp: result_simps Let_def)
  then have chk: "0 < unat z" "unat z \<le> 128" "known_digest_size a \<in> {None, Some (unat z)}"
    by (auto split: option.splits)
  have "algorithms_wf (bt_insert a (unat z) as)"
    using "2.prems"(2) chk set_bt_insert_subset [of a "unat z" as]
    by (fastforce simp: algorithms_wf_def)
  moreover have "length (bt_insert a (unat z) as) = Suc (length as)"
    using "2.prems"(2) new by (simp add: length_bt_insert_new algorithms_wf_def)
  ultimately show ?case
    using "2.IH" [OF rd(1) refl rd(2) refl refl bad] rest new by simp
qed simp

definition digests_wf :: "(u16, nat) btmap \<Rightarrow> (u16, bytes) btmap \<Rightarrow> bool" where
  "digests_wf as ds \<longleftrightarrow> bt_invar ds \<and> (\<forall>(a, d) \<in> set ds. bt_get as a = Some (length d))"

lemma parse_digests_wf:
  "parse_digests as n ds c = Inr (es, c') \<Longrightarrow> digests_wf as ds \<Longrightarrow>
   digests_wf as es \<and> length es = length ds + n"
proof (induction as n ds c rule: parse_digests.induct)
  case (2 as n ds c)
  then obtain a c1 z d c2 where rd: "cursor_u16 c = Inr (a, c1)" "bt_get as a = Some z"
      "cursor_take z c1 = Inr (d, c2)"
    and new: "bt_get ds a = None"
    and rest: "parse_digests as n (bt_insert a d ds) c2 = Inr (es, c')"
    by (auto simp: result_simps split: if_splits)
  have "digests_wf as (bt_insert a d ds)"
    using "2.prems"(2) rd(2) length_cursor_take [OF rd(3)] set_bt_insert_subset [of a d ds]
    by (fastforce simp: digests_wf_def)
  moreover have "length (bt_insert a d ds) = Suc (length ds)"
    using "2.prems"(2) new by (simp add: length_bt_insert_new digests_wf_def)
  ultimately show ?case
    using "2.IH" [OF rd(1) refl _ rd(3) refl] rd(2) rest new by (auto simp: ok_or_def)
qed simp

lemma parse_event_wf:
  assumes "parse_event kind limits aael as c = Inr (e, c')"
  shows "event_wf kind limits aael as e \<and> ev_offset e = cur_offset c"
proof -
  obtain r c1 t c2 n c3 ds c4 z c5 d c6 u where
    "cursor_u32 c = Inr (r, c1)"
    and r: "\<not> ((kind = Tpm2 \<and> 23 < r) \<or> (kind = TdxCcel \<and> (if aael then 4 else 3) < r))"
    and "cursor_u32 c1 = Inr (t, c2)" and "cursor_u32 c2 = Inr (n, c3)"
    and n: "\<not> (n = 0 \<or> length as < unat n)"
    and ds: "parse_digests as (unat n) [] c3 = Inr (ds, c4)"
    and "cursor_u32 c4 = Inr (z, c5)" and z: "\<not> max_event_bytes limits < unat z"
    and d: "cursor_take (unat z) c5 = Inr (d, c6)"
    and k: "\<not> (kind = TdxCcel \<and> bt_get ds TPM_ALG_SHA384 = None)"
    and e: "\<lparr>ev_offset = cur_offset c, register_index = r, reported_event_type = t,
                digests = ds, untrusted_event_data = d\<rparr> = e" "c6 = c'"
    and ael: "(if kind = TdxCcel \<and> r = 4 then bindR (parse_aael
      \<lparr>ev_offset = cur_offset c, register_index = r, reported_event_type = t,
       digests = ds, untrusted_event_data = d\<rparr>) (\<lambda>_. Inr ()) else Inr ()) = Inr u"
    using assms unfolding parse_event_def Let_def
    by - (elim result_elims, (rule that; assumption))
  have "digests_wf as ds" "length ds = unat n"
    using parse_digests_wf [OF ds] by (simp_all add: digests_wf_def)
  moreover have "kind = TdxCcel \<and> r = 4 \<longrightarrow> is_ok (parse_aael e)"
    using ael unfolding e(1) by (auto simp: is_ok_iff result_simps)
  moreover have "unat r \<le> (if kind = Tpm2 then 23 else if aael then 4 else 3)"
    using r by (cases kind) (auto simp: not_less word_le_nat_alt split: if_splits)
  moreover have "ds \<noteq> []"
    using n \<open>length ds = unat n\<close> by (auto simp: unat_eq_0)
  ultimately show ?thesis
    using z k length_cursor_take [OF d] by (auto simp: event_wf_def digests_wf_def simp flip: e(1))
qed

text \<open>The loop keeps the events well-formed, in the order of their offsets, and below the cursor.\<close>

definition events_wf ::
  "LogKind \<Rightarrow> ParseLimits \<Rightarrow> bool \<Rightarrow> (u16, nat) btmap \<Rightarrow> Event list \<Rightarrow> nat \<Rightarrow> bool" where
  "events_wf kind limits aael as es off \<longleftrightarrow>
     length es \<le> max_events limits \<and> (\<forall>e \<in> set es. event_wf kind limits aael as e) \<and>
     sorted_wrt (<) (map ev_offset es) \<and> (\<forall>e \<in> set es. ev_offset e < off)"

lemma events_wf_snoc:
  assumes "events_wf kind limits aael as es (cur_offset c)"
    and "parse_event kind limits aael as c = Inr (e, c')" and "length es < max_events limits"
  shows "events_wf kind limits aael as (es @ [e]) (cur_offset c')"
  using assms parse_event_wf [OF assms(2)] event_reader.rd_progress [OF assms(2)]
  by (auto simp: events_wf_def sorted_wrt_append)

lemma parse_events_wf:
  "parse_events kind limits aael as es c = Inr (fs, c') \<Longrightarrow>
   events_wf kind limits aael as es (cur_offset c) \<Longrightarrow> cur_offset c \<le> length (cur_bytes c) \<Longrightarrow>
   events_wf kind limits aael as fs (cur_offset c') \<and> reads_within 0 c c'"
proof (induction kind limits aael as es c rule: parse_events_induct)
  case (1 kind limits aael as es c)
  show ?case
  proof (cases "fs = es \<and> c' = c")
    case True
    with "1.prems" show ?thesis by (simp add: reads_within_def)
  next
    case False
    with "1.prems"(1) obtain e c1 where more: "cur_offset c < length (cur_bytes c)"
        "\<not> (kind = TdxCcel \<and> (\<forall>b \<in> set (drop (cur_offset c) (cur_bytes c)). b = 0xff))"
        "\<not> max_events limits \<le> length es"
      and e: "parse_event kind limits aael as c = Inr (e, c1)"
      and rest: "parse_events kind limits aael as (es @ [e]) c1 = Inr (fs, c')"
      by (subst (asm) parse_events_eq) (auto simp: result_simps split: if_splits)
    have wf: "events_wf kind limits aael as (es @ [e]) (cur_offset c1)"
      using "1.prems"(2) e more(3) by (intro events_wf_snoc) simp_all
    have "events_wf kind limits aael as fs (cur_offset c') \<and> reads_within 0 c1 c'"
      using "1.IH" [OF more e refl rest wf event_reader.rd_bound [OF e]] .
    then show ?thesis
      using event_reader.rd_then [OF e, of 0 c'] by (auto intro: reads_within_weaken)
  qed
qed

lemma parse_spec_wf:
  assumes "parse_spec kind limits c = Inr (as, c')"
  shows "algorithms_wf as \<and> length as \<in> {1..max_algorithms limits} \<and>
    (kind = TdxCcel \<longrightarrow> bt_get as TPM_ALG_SHA384 = Some 48) \<and> reads_within 32 c c'"
proof -
  obtain i c1 t c2 d c3 l c4 sp c5 s as' s2 and count :: u32 where
    c: "cursor_u32 c = Inr (i, c1)" "cursor_u32 c1 = Inr (t, c2)" "cursor_take 20 c2 = Inr (d, c3)"
       "cursor_u32 c3 = Inr (l, c4)" "cursor_take (unat l) c4 = Inr (sp, c5)"
    and n: "\<not> (count = 0 \<or> max_algorithms limits < unat count)"
    and as: "parse_algorithms c5 (unat count) [] s = Inr (as', s2)"
    and k: "\<not> (kind = TdxCcel \<and> bt_get as' TPM_ALG_SHA384 \<noteq> Some 48)"
    and eq: "as' = as" "c5 = c'"
    using assms unfolding parse_spec_def Let_def
    by - (elim result_elims, (rule that; assumption))
  have "reads_within (4 + (4 + (20 + (4 + unat l)))) c c'"
    using c unfolding eq by (blast intro: u32_reader.rd_then take_reader.rd_then take_reader.reads)
  then have "reads_within 32 c c'" by (rule reads_within_weaken) simp
  moreover have "algorithms_wf as \<and> length as = unat count"
    using parse_algorithms_wf [OF as] by (simp add: algorithms_wf_def eq)
  ultimately show ?thesis
    using n k by (auto simp: Suc_le_eq unat_gt_0 eq)
qed

lemma parse_log_wf:
  assumes "parse bs kind limits aael = Inr l"
  shows "log_kind l = kind \<and> log_wf limits aael l \<and> consumed_bytes l \<le> length bs"
proof -
  obtain as c es c' where len: "length bs \<le> max_log_bytes limits"
    and sp: "parse_spec kind limits \<lparr>cur_bytes = bs, cur_offset = 0\<rparr> = Inr (as, c)"
    and es: "parse_events kind limits aael as [] c = Inr (es, c')" "es \<noteq> []"
    and l: "l = \<lparr>log_kind = kind, log_algorithms = as, log_events = es, consumed_bytes = cur_offset c'\<rparr>"
    using assms by (auto simp: parse_def result_simps)
  have c: "cur_bytes c = bs" "cur_offset c \<le> length (cur_bytes c)"
    using parse_spec_wf [OF sp] by (simp_all add: reads_within_def)
  have "events_wf kind limits aael as es (cur_offset c') \<and> reads_within 0 c c'"
    using parse_events_wf [OF es(1) _ c(2)] by (simp add: events_wf_def)
  then show ?thesis
    using parse_spec_wf [OF sp] len es(2) c(1)
    by (auto simp: log_wf_def events_wf_def reads_within_def l Suc_le_eq)
qed

section \<open>Printing a log\<close>

text \<open>The wire form of a log, with the digests of an event in the order of their algorithm
  identifiers and an empty vendor field.\<close>

definition encode_algorithm :: "u16 \<times> nat \<Rightarrow> bytes" where
  "encode_algorithm = (\<lambda>(a, n). le_bytes 2 (unat a) @ le_bytes 2 n)"

definition encode_spec_body :: "(u16, nat) btmap \<Rightarrow> bytes" where
  "encode_spec_body as =
     (lit ''Spec ID Event03'' @ [0]) @ le_bytes 4 0 @ [0, 2, 0, 2] @ le_bytes 4 (length as) @
     concat (map encode_algorithm as) @ [0]"

definition encode_spec :: "(u16, nat) btmap \<Rightarrow> bytes" where
  "encode_spec as =
     le_bytes 4 0 @ le_bytes 4 3 @ replicate 20 0 @ le_bytes 4 (length (encode_spec_body as)) @
     encode_spec_body as"

definition encode_digest :: "u16 \<times> bytes \<Rightarrow> bytes" where
  "encode_digest = (\<lambda>(a, d). le_bytes 2 (unat a) @ d)"

definition encode_event :: "Event \<Rightarrow> bytes" where
  "encode_event e =
     le_bytes 4 (unat (register_index e)) @ le_bytes 4 (unat (reported_event_type e)) @
     le_bytes 4 (length (digests e)) @ concat (map encode_digest (digests e)) @
     le_bytes 4 (length (untrusted_event_data e)) @ untrusted_event_data e"

definition encode_log :: "EventLog \<Rightarrow> bytes" where
  "encode_log l = encode_spec (log_algorithms l) @ concat (map encode_event (log_events l))"

text \<open>The offsets a printed log has.\<close>

fun offsets_from :: "nat \<Rightarrow> Event list \<Rightarrow> bool" where
  "offsets_from n [] = True"
| "offsets_from n (e # es) = (ev_offset e = n \<and> offsets_from (n + length (encode_event e)) es)"

definition log_placed :: "EventLog \<Rightarrow> bool" where
  "log_placed l \<longleftrightarrow>
     offsets_from (length (encode_spec (log_algorithms l))) (log_events l) \<and>
     consumed_bytes l = length (encode_log l)"

lemma bt_invar_append_last:
  "bt_invar (m @ (k, v) # r) \<Longrightarrow> bt_get m k = None \<and> bt_insert k v m = m @ [(k, v)]"
proof -
  assume inv: "bt_invar (m @ (k, v) # r)"
  then have "bt_invar m" "\<forall>x \<in> set (bt_keys m). x < k"
    by (auto simp: bt_invar_def sorted_wrt_append)
  moreover from this have "bt_get m k = None"
    by (auto simp: map_of_eq_None_iff)
  ultimately show ?thesis by (simp add: bt_insert_last)
qed

lemma parse_algorithms_at:
  "bt_invar (as @ bs) \<Longrightarrow> (\<forall>(a, n) \<in> set bs. 0 < n \<and> n \<le> 128 \<and> known_digest_size a \<in> {None, Some n}) \<Longrightarrow>
   length (pre @ concat (map encode_algorithm bs)) < 2 ^ 64 \<Longrightarrow>
   parse_algorithms c (length bs) as (cursor_at pre (concat (map encode_algorithm bs) @ post)) =
     Inr (as @ bs, cursor_at (pre @ concat (map encode_algorithm bs)) post)"
proof (induction bs arbitrary: as pre)
  case (Cons b bs)
  obtain a n where b: "b = (a, n)" by (cases b)
  have n: "0 < n" "n \<le> 128" "known_digest_size a \<in> {None, Some n}"
    using Cons.prems(2) by (auto simp: b)
  have ins: "bt_get as a = None" "bt_insert a n as = as @ [(a, n)]"
    using bt_invar_append_last [of as a n bs] Cons.prems(1) by (simp_all add: b)
  have u: "unat (of_nat n :: u16) = n"
    using n by (simp add: unat_of_nat)
  then have "\<not> (case known_digest_size a of None \<Rightarrow> False | Some k \<Rightarrow> k \<noteq> unat (of_nat n :: u16))"
    using n(3) by (auto split: option.splits)
  moreover have "parse_algorithms c (length bs) (as @ [(a, n)])
      (cursor_at (pre @ encode_algorithm b) (concat (map encode_algorithm bs) @ post)) =
      Inr (as @ b # bs, cursor_at (pre @ encode_algorithm b @ concat (map encode_algorithm bs)) post)"
    using Cons.IH [of "as @ [(a, n)]" "pre @ encode_algorithm b"] Cons.prems by (simp add: b)
  moreover have "unat a < 2 ^ 16"
    using unat_bound [of a] by simp
  ultimately show ?case
    using n u ins Cons.prems(3)
    by (simp add: b encode_algorithm_def cursor_u16_at Let_def)
qed simp

lemma parse_digests_at:
  "bt_invar (ds @ es) \<Longrightarrow> (\<forall>(a, d) \<in> set es. bt_get as a = Some (length d)) \<Longrightarrow>
   length (pre @ concat (map encode_digest es)) < 2 ^ 64 \<Longrightarrow>
   parse_digests as (length es) ds (cursor_at pre (concat (map encode_digest es) @ post)) =
     Inr (ds @ es, cursor_at (pre @ concat (map encode_digest es)) post)"
proof (induction es arbitrary: ds pre)
  case (Cons e es)
  obtain a d where e: "e = (a, d)" by (cases e)
  have ins: "bt_get ds a = None" "bt_insert a d ds = ds @ [(a, d)]"
    using bt_invar_append_last [of ds a d es] Cons.prems(1) by (simp_all add: e)
  moreover have "parse_digests as (length es) (ds @ [(a, d)])
      (cursor_at (pre @ encode_digest e) (concat (map encode_digest es) @ post)) =
      Inr (ds @ e # es, cursor_at (pre @ encode_digest e @ concat (map encode_digest es)) post)"
    using Cons.IH [of "ds @ [(a, d)]" "pre @ encode_digest e"] Cons.prems by (simp add: e)
  moreover have "unat a < 2 ^ 16"
    using unat_bound [of a] by simp
  ultimately show ?case
    using Cons.prems(2,3)
    by (simp add: e encode_digest_def cursor_u16_at ok_or_def cursor_take_at)
qed simp

lemma event_wf_digest_count:
  assumes "event_wf kind limits aael as e"
  shows "length (digests e) \<le> length as"
proof -
  have "set (bt_keys (digests e)) \<subseteq> set (bt_keys as)"
    using assms by (force simp: event_wf_def dest: map_of_SomeD)
  then have "card (set (bt_keys (digests e))) \<le> card (set (bt_keys as))"
    by (intro card_mono) simp_all
  also have "\<dots> \<le> length as"
    using card_length [of "bt_keys as"] by simp
  finally show ?thesis
    using assms bt.keys_distinct [of "digests e"] distinct_card [of "bt_keys (digests e)"]
    by (simp add: event_wf_def)
qed

lemma parse_event_at:
  assumes wf: "event_wf kind limits aael as e"
    and len: "length as < 2 ^ 32" "length (untrusted_event_data e) < 2 ^ 32"
      "length (pre @ encode_event e) < 2 ^ 64"
    and off: "ev_offset e = length pre"
  shows "parse_event kind limits aael as (cursor_at pre (encode_event e @ post)) =
    Inr (e, cursor_at (pre @ encode_event e) post)"
proof -
  note n = event_wf_digest_count [OF wf]
  have u: "unat (of_nat (length (digests e)) :: u32) = length (digests e)"
      "unat (of_nat (length (untrusted_event_data e)) :: u32) = length (untrusted_event_data e)"
    using n len by (simp_all add: unat_of_nat)
  have nz: "(of_nat (length (digests e)) :: u32) \<noteq> 0"
    using u(1) wf by (auto simp: event_wf_def)
  have w: "unat (register_index e) < 2 ^ 32" "unat (reported_event_type e) < 2 ^ 32"
    using unat_bound [of "register_index e"] unat_bound [of "reported_event_type e"] by simp_all
  have reg: "\<not> ((kind = Tpm2 \<and> 23 < register_index e) \<or>
      (kind = TdxCcel \<and> (if aael then 4 else 3) < register_index e))"
    using wf by (cases kind) (auto simp: event_wf_def word_less_nat_alt split: if_splits)
  have ds: "parse_digests as (length (digests e)) [] (cursor_at q (concat (map encode_digest (digests e)) @ r)) =
      Inr (digests e, cursor_at (q @ concat (map encode_digest (digests e))) r)"
    if "length (q @ concat (map encode_digest (digests e))) < 2 ^ 64" for q r
    using parse_digests_at [of "[]" "digests e" as q r] wf that by (simp add: event_wf_def)
  have e: "\<lparr>ev_offset = length pre, register_index = register_index e,
      reported_event_type = reported_event_type e, digests = digests e,
      untrusted_event_data = untrusted_event_data e\<rparr> = e"
    using off by simp
  have ael: "(if kind = TdxCcel \<and> register_index e = 4 then bindR (parse_aael
      \<lparr>ev_offset = length pre, register_index = register_index e,
       reported_event_type = reported_event_type e, digests = digests e,
       untrusted_event_data = untrusted_event_data e\<rparr>) (\<lambda>_. Inr ()) else Inr ()) = Inr ()"
    unfolding e using wf by (auto simp: event_wf_def is_ok_iff)
  have bank: "\<not> (kind = TdxCcel \<and> bt_get (digests e) TPM_ALG_SHA384 = None)"
    using wf by (simp add: event_wf_def)
  have "length (untrusted_event_data e) \<le> max_event_bytes limits"
    using wf by (simp add: event_wf_def)
  then show ?thesis
    using len n w nz
    by (simp add: parse_event_def encode_event_def cursor_u32_at u ds cursor_take_at e Let_def reg ael bank
          split del: if_split)
qed

lemma parse_spec_at:
  assumes wf: "algorithms_wf as" "as \<noteq> []" "length as \<le> max_algorithms limits"
    and fits: "length (encode_spec_body as) < 2 ^ 32"
    and k: "kind = TdxCcel \<longrightarrow> bt_get as TPM_ALG_SHA384 = Some 48"
    and len: "length (encode_spec_body as) \<le> max_event_bytes limits"
  shows "parse_spec kind limits (cursor_at [] (encode_spec as @ post)) =
    Inr (as, cursor_at (encode_spec as) post)"
proof -
  have table: "length (concat (map encode_algorithm as)) = 4 * length as"
    by (simp add: encode_algorithm_def length_concat comp_def case_prod_beta sum_list_triv)
  then have body: "length (encode_spec_body as) = 29 + 4 * length as"
    by (simp add: encode_spec_body_def)
  have u: "unat (of_nat (length (encode_spec_body as)) :: u32) = length (encode_spec_body as)"
      "unat (of_nat (length as) :: u32) = length as"
    by (rule unat_of_nat_small, use fits body in simp)+
  then have u': "unat (29 + 4 * of_nat (length as) :: u32) = 29 + 4 * length as"
    by (simp add: body)
  have nz: "(of_nat (length as) :: u32) \<noteq> 0"
    using u(2) wf(2) by auto
  have as: "parse_algorithms c (length as) [] (cursor_at q (concat (map encode_algorithm as) @ r)) =
      Inr (as, cursor_at (q @ concat (map encode_algorithm as)) r)"
    if "length (q @ concat (map encode_algorithm as)) < 2 ^ 64" for c q r
    using parse_algorithms_at [of "[]" as q c r] wf(1) that by (simp add: algorithms_wf_def)
  have sig: "cursor_take 16 \<lparr>cur_bytes = encode_spec_body as, cur_offset = 0\<rparr> =
      Inr (lit ''Spec ID Event03'' @ [0], cursor_at (lit ''Spec ID Event03'' @ [0])
        (le_bytes 4 0 @ [0, 2, 0, 2] @ le_bytes 4 (length as) @ concat (map encode_algorithm as) @ [0]))"
    using cursor_take_at [of "[]" 16 "lit ''Spec ID Event03'' @ [0]"]
    by (simp add: cursor_at_def encode_spec_body_def)
  have end_take: "cursor_take 0 (cursor_at q []) = Inr ([], cursor_at q [])"
    if "length q < 2 ^ 64" for q
    using cursor_take_at [of q 0 "[]" "[]"] that by simp
  show ?thesis
    using len wf(3) fits k body
    by (simp add: parse_spec_def encode_spec_def cursor_u32_at cursor_u8_at cursor_take_at u u' sig nz as
          end_take table Let_def del: list.map map_append)
qed

definition erased_tail :: "LogKind \<Rightarrow> bytes \<Rightarrow> bool" where
  "erased_tail kind end_area \<longleftrightarrow> end_area = [] \<or> (kind = TdxCcel \<and> (\<forall>b \<in> set end_area. b = 0xff))"

text \<open>The first byte of an event is never the erased byte, so the loop does not stop early.\<close>

lemma encode_event_not_erased:
  assumes "event_wf kind limits aael as e"
  shows "\<exists>b \<in> set (encode_event e @ post). b \<noteq> 0xff"
proof -
  let ?b = "of_nat (unat (register_index e) mod 256) :: byte"
  have "unat (register_index e) \<le> 23"
    using assms by (auto simp: event_wf_def split: if_splits)
  moreover have "unat ?b = unat (register_index e) mod 256"
    by (rule unat_of_nat_small) simp
  ultimately have "unat ?b \<le> 23" by (simp del: unat_of_nat)
  then have "?b \<noteq> 0xff" by auto
  moreover have "le_bytes 4 v = of_nat (v mod 256) # le_bytes 3 (v div 256)" for v
  proof -
    have "(4 :: nat) = Suc 3" by simp
    then show ?thesis by (simp only: le_bytes.simps)
  qed
  ultimately show ?thesis by (simp add: encode_event_def del: of_nat_mod)
qed

lemma parse_events_at:
  "\<forall>e \<in> set es. event_wf kind limits aael as e \<and> length (untrusted_event_data e) < 2 ^ 32 \<Longrightarrow>
   length as < 2 ^ 32 \<Longrightarrow> length (ds @ es) \<le> max_events limits \<Longrightarrow>
   length (pre @ concat (map encode_event es)) < 2 ^ 64 \<Longrightarrow> offsets_from (length pre) es \<Longrightarrow>
   erased_tail kind end_area \<Longrightarrow>
   parse_events kind limits aael as ds (cursor_at pre (concat (map encode_event es) @ end_area)) =
     Inr (ds @ es, cursor_at (pre @ concat (map encode_event es)) end_area)"
proof (induction es arbitrary: ds pre)
  case Nil
  then show ?case
    by (subst parse_events_eq) (auto simp: erased_tail_def)
next
  case (Cons e es)
  let ?post = "concat (map encode_event es) @ end_area"
  have ne: "\<exists>b \<in> set (encode_event e @ ?post). b \<noteq> 0xff"
    using encode_event_not_erased Cons.prems(1) by (metis list.set_intros(1))
  then have pos: "0 < length (encode_event e @ ?post)" by auto
  have step: "parse_event kind limits aael as (cursor_at pre (encode_event e @ ?post)) =
      Inr (e, cursor_at (pre @ encode_event e) ?post)"
    using Cons.prems by (intro parse_event_at) auto
  have rest: "parse_events kind limits aael as (ds @ [e]) (cursor_at (pre @ encode_event e) ?post) =
      Inr ((ds @ [e]) @ es, cursor_at ((pre @ encode_event e) @ concat (map encode_event es)) end_area)"
    using Cons.prems by (intro Cons.IH) auto
  let ?c = "cursor_at pre (encode_event e @ ?post)"
  have lt: "cur_offset ?c < length (cur_bytes ?c)"
    using pos by simp
  have area: "\<not> (kind = TdxCcel \<and> (\<forall>b \<in> set (drop (cur_offset ?c) (cur_bytes ?c)). b = 0xff))"
    using ne by simp
  have room: "\<not> max_events limits \<le> length ds"
    using Cons.prems(3) by simp
  have "parse_events kind limits aael as ds ?c = Inr ((ds @ [e]) @ es, cursor_at ((pre @ encode_event e) @ concat (map encode_event es)) end_area)"
    by (subst parse_events_eq)
      (simp only: if_P [OF lt] if_not_P [OF area] if_not_P [OF room] step rest bindR.simps prod.case)
  then show ?case by simp
qed

text \<open>The parser reads back every well-formed log from its printed form, whatever erased tail
  follows it.\<close>

lemma parse_encode_log:
  assumes wf: "log_wf limits aael l" and placed: "log_placed l"
    and end_area: "erased_tail (log_kind l) end_area"
    and len: "length (encode_log l @ end_area) \<le> max_log_bytes limits" "max_log_bytes limits < 2 ^ 32"
      "length (encode_spec_body (log_algorithms l)) \<le> max_event_bytes limits"
  shows "parse (encode_log l @ end_area) (log_kind l) limits aael = Inr l"
proof -
  let ?as = "log_algorithms l"
  have data: "length (untrusted_event_data e) \<le> length (encode_log l)" if "e \<in> set (log_events l)" for e
  proof -
    have "length (encode_event e) \<le> length (concat (map encode_event (log_events l)))"
      using that by (auto simp: length_concat intro!: member_le_sum_list)
    then show ?thesis by (simp add: encode_log_def encode_event_def)
  qed
  have ne: "?as \<noteq> []"
    using wf by (auto simp: log_wf_def)
  have body: "length (encode_spec_body ?as) \<le> length (encode_log l)"
    by (simp add: encode_log_def encode_spec_def)
  have as: "length ?as \<le> length (encode_spec_body ?as)"
    by (simp add: encode_spec_body_def encode_algorithm_def length_concat comp_def case_prod_beta
          sum_list_triv)
  have spec: "parse_spec (log_kind l) limits \<lparr>cur_bytes = encode_log l @ end_area, cur_offset = 0\<rparr> =
      Inr (?as, cursor_at (encode_spec ?as) (concat (map encode_event (log_events l)) @ end_area))"
    using parse_spec_at [of ?as limits "log_kind l" "concat (map encode_event (log_events l)) @ end_area"]
      wf len body ne by (simp add: log_wf_def cursor_at_def encode_log_def)
  have "parse_events (log_kind l) limits aael ?as []
      (cursor_at (encode_spec ?as) (concat (map encode_event (log_events l)) @ end_area)) =
      Inr ([] @ log_events l, cursor_at (encode_spec ?as @ concat (map encode_event (log_events l))) end_area)"
  proof (rule parse_events_at)
    show "\<forall>e \<in> set (log_events l). event_wf (log_kind l) limits aael ?as e \<and>
        length (untrusted_event_data e) < 2 ^ 32"
      using wf data len(1,2) by (fastforce simp: log_wf_def)
    show "length ?as < 2 ^ 32"
      using as body len(1,2) by simp
    show "length (encode_spec ?as @ concat (map encode_event (log_events l))) < 2 ^ 64"
      using len(1,2) by (simp add: encode_log_def)
  qed (use wf placed end_area in \<open>simp_all add: log_wf_def log_placed_def\<close>)
  then show ?thesis
    using wf placed len spec by (auto simp: parse_def log_wf_def log_placed_def encode_log_def)
qed

section \<open>The parser does not panic\<close>

lemma panic_free_parse_algorithms [no_error_intros]: "panic_free (parse_algorithms c n as s)"
  by (induction n arbitrary: as s) (auto simp: Let_def intro!: no_error_intros)

lemma panic_free_parse_digests [no_error_intros]: "panic_free (parse_digests as n ds c)"
  by (induction n arbitrary: ds c) (auto intro!: no_error_intros)

lemma panic_free_parse_spec [no_error_intros]: "panic_free (parse_spec kind limits c)"
  unfolding parse_spec_def Let_def by (intro no_error_intros) simp_all

lemma panic_free_parse_event [no_error_intros]: "panic_free (parse_event kind limits aael as c)"
  unfolding parse_event_def Let_def by (intro no_error_intros) simp_all

lemma panic_free_parse_events [no_error_intros]: "panic_free (parse_events kind limits aael as es c)"
proof (induction kind limits aael as es c rule: parse_events_induct)
  case (1 kind limits aael as es c)
  show ?case
    by (subst parse_events_eq) (intro no_error_intros 1; simp)
qed

lemma panic_free_parse [no_error_intros]: "panic_free (parse bs kind limits aael)"
  unfolding parse_def by (intro no_error_intros) simp_all

section \<open>Properties\<close>

text \<open>A small log: one SHA-384 bank, one event extended into RTMR0.\<close>

definition demo_event :: Event where
  "demo_event = \<lparr>ev_offset = 65, register_index = 1, reported_event_type = 13,
     digests = [(TPM_ALG_SHA384, replicate 48 7)], untrusted_event_data = [107, 101, 114, 110]\<rparr>"

definition demo_log :: EventLog where
  "demo_log = \<lparr>log_kind = TdxCcel, log_algorithms = [(TPM_ALG_SHA384, 48)],
     log_events = [demo_event], consumed_bytes = 135\<rparr>"

lemma demo_log_wf: "log_wf default_limits False demo_log"
  by (simp add: log_wf_def demo_log_def demo_event_def default_limits_def algorithms_wf_def event_wf_def
        bt_invar_def known_digest_size_def)

lemma demo_log_placed: "log_placed demo_log"
  by (simp add: log_placed_def demo_log_def demo_event_def encode_log_def encode_spec_def
        encode_spec_body_def encode_event_def encode_algorithm_def encode_digest_def)

lemma demo_log_size:
  "length (encode_log demo_log @ [0xff, 0xff]) \<le> max_log_bytes default_limits"
  "length (encode_spec_body (log_algorithms demo_log)) \<le> max_event_bytes default_limits"
  by (simp_all add: demo_log_def demo_event_def encode_log_def encode_spec_def default_limits_def
        encode_spec_body_def encode_event_def encode_algorithm_def encode_digest_def)

lemma demo_log_parses: "parse (encode_log demo_log @ [0xff, 0xff]) TdxCcel default_limits False = Inr demo_log"
  using parse_encode_log [OF demo_log_wf demo_log_placed _ demo_log_size(1) _ demo_log_size(2)]
  by (simp add: erased_tail_def demo_log_def default_limits_def)

text \<open>C4. Every log the parser accepts is well-formed: it has the requested kind, one to
  \<open>max_algorithms\<close> algorithms with the digest sizes of the registry, one to \<open>max_events\<close> events at
  strictly ascending offsets below \<open>consumed_bytes\<close>, registers of the platform profile, a digest of
  the declared size for each listed algorithm (SHA-384 among them on TDX), and it never claims to
  have read past the input.\<close>

theorem parse_sound:
  assumes "parse bs kind limits aael = Inr l"
  shows "log_kind l = kind \<and> log_wf limits aael l \<and> consumed_bytes l \<le> length bs"
  using assms by (rule parse_log_wf)

theorem parse_sound_witness:
  "parse (encode_log demo_log @ [0xff, 0xff]) TdxCcel default_limits False = Inr demo_log \<and>
   log_wf default_limits False demo_log \<and>
   consumed_bytes demo_log \<le> length (encode_log demo_log @ [0xff, 0xff])"
  using demo_log_parses parse_sound [OF demo_log_parses] by blast

text \<open>C5. The parser accepts the canonical encoding of every well-formed log and gives back exactly
  that log, also when erased 0xff bytes of a CCEL area follow it.\<close>

theorem parse_complete:
  assumes "log_wf limits aael l" and "log_placed l" and "erased_tail (log_kind l) end_area"
    and "length (encode_log l @ end_area) \<le> max_log_bytes limits" and "max_log_bytes limits < 2 ^ 32"
    and "length (encode_spec_body (log_algorithms l)) \<le> max_event_bytes limits"
  shows "parse (encode_log l @ end_area) (log_kind l) limits aael = Inr l"
  using assms by (rule parse_encode_log)

theorem parse_complete_witness:
  "parse (encode_log demo_log @ [0xff, 0xff]) (log_kind demo_log) default_limits False = Inr demo_log"
proof (rule parse_complete)
  show "erased_tail (log_kind demo_log) [0xff, 0xff]"
    by (simp add: erased_tail_def demo_log_def)
  show "max_log_bytes default_limits < 2 ^ 32"
    by (simp add: default_limits_def)
qed (rule demo_log_wf demo_log_placed demo_log_size)+

end
