(* ===== verification/Boot_Replay.thy ===== *)
theory Boot_Replay
  imports Boot_Log
begin

text \<open>
  Replay of a parsed log and its comparison with authenticated registers (\<open>EventLog::replay\<close>,
  \<open>EventLog::verify\<close>, \<open>AuthenticatedRegisters\<close>, \<open>VerifiedBootLog\<close> of \<open>v2/src/boot.rs\<close>). The
  specification of a register is the hash chain over the digests extended into it; the lemmas show
  that the loop computes it, that no \<open>unwrap\<close> of the loop can panic on a parsed log, and that two
  logs that match the same register carry the same digests unless the hash collides.
\<close>

section \<open>The replay loop\<close>

record UnverifiedReplay =
  ur_kind :: LogKind
  ur_algorithm :: u16
  ur_registers :: "(u32, bytes) btmap"

record replay_state =
  rs_values :: "(u32, bytes) btmap"
  pcr0_extended :: bool
  locality_seen :: bool

definition startup_locality_tag :: bytes where
  "startup_locality_tag = lit ''StartupLocality'' @ [0]"

definition replay_locality :: "nat \<Rightarrow> replay_state \<Rightarrow> Event \<Rightarrow> replay_state boot" where
  "replay_locality sz st event =
     (let data = untrusted_event_data event in
      if register_index event \<noteq> 0 \<or> pcr0_extended st \<or> locality_seen st \<or> length data \<noteq> 17
      then Inl (Unsupported ''invalid or late TPM StartupLocality event'')
      else bindR (index_at data 16) (\<lambda>locality.
        if locality \<notin> {0, 3} \<or> (\<exists>(_, d) \<in> set (digests event). \<exists>b \<in> set d. b \<noteq> 0)
        then Inl (Unsupported ''invalid or late TPM StartupLocality event'')
        else bindR (ok_or (bt_get (rs_values st) 0) (Panic ''register absent'')) (\<lambda>value.
        if sz = 0 \<or> length value < sz then Inl (Panic ''index out of bounds'')
        else Inr (st\<lparr>locality_seen := True,
                     rs_values := bt_insert 0 (value[sz - 1 := locality]) (rs_values st)\<rparr>))))"

text \<open>The length is checked first, so the index is in bounds.\<close>

lemma replay_locality_eq:
  "replay_locality sz st event =
     (let data = untrusted_event_data event in
      if register_index event \<noteq> 0 \<or> pcr0_extended st \<or> locality_seen st \<or> length data \<noteq> 17
         \<or> data ! 16 \<notin> {0, 3} \<or> (\<exists>(_, d) \<in> set (digests event). \<exists>b \<in> set d. b \<noteq> 0)
      then Inl (Unsupported ''invalid or late TPM StartupLocality event'')
      else bindR (ok_or (bt_get (rs_values st) 0) (Panic ''register absent'')) (\<lambda>value.
        if sz = 0 \<or> length value < sz then Inl (Panic ''index out of bounds'')
        else Inr (st\<lparr>locality_seen := True,
                     rs_values := bt_insert 0 (value[sz - 1 := data ! 16]) (rs_values st)\<rparr>)))"
  by (cases "length (untrusted_event_data event) = 17") (simp_all add: replay_locality_def Let_def in_domain)

definition replay_step ::
  "prims \<Rightarrow> LogKind \<Rightarrow> u16 \<Rightarrow> nat \<Rightarrow> replay_state \<Rightarrow> Event \<Rightarrow> replay_state boot" where
  "replay_step P kind algorithm sz st event =
     (if reported_event_type event = EV_NO_ACTION then
        if kind = Tpm2 \<and> starts_with (untrusted_event_data event) startup_locality_tag
        then replay_locality sz st event
        else Inr st
      else if kind = TdxCcel \<and> register_index event = 0
      then Inl (Unsupported ''MRTD cannot be reconstructed by RTMR extension'')
      else if kind = Tpm2 \<and> register_index event > 15 then Inr st
      else
        let index = (if kind = TdxCcel then register_index event - 1 else register_index event);
            st = (if kind = Tpm2 \<and> register_index event = 0 then st\<lparr>pcr0_extended := True\<rparr> else st) in
        bindR (ok_or (bt_get (digests event) algorithm) (Unsupported ''event missing replay bank'')) (\<lambda>digest.
        bindR (ok_or (bt_get (rs_values st) index) (Panic ''register absent'')) (\<lambda>value.
        bindR (hash P algorithm (value @ digest)) (\<lambda>value'.
        Inr (st\<lparr>rs_values := bt_insert index value' (rs_values st)\<rparr>)))))"

definition register_count :: "LogKind \<Rightarrow> nat" where
  "register_count kind = (if kind = Tpm2 then 16 else 4)"

text \<open>\<open>(0..count).map(|i| (i, vec![0; size])).collect()\<close>: the keys come in ascending order.\<close>

definition initial_values :: "nat \<Rightarrow> nat \<Rightarrow> (u32, bytes) btmap" where
  "initial_values count sz = map (\<lambda>i. (of_nat i, replicate sz 0)) [0..<count]"

definition replay :: "prims \<Rightarrow> EventLog \<Rightarrow> u16 \<Rightarrow> UnverifiedReplay boot" where
  "replay P l algorithm =
     bindR (hash P algorithm []) (\<lambda>h.
     let sz = length h in
     if bt_get (log_algorithms l) algorithm \<noteq> Some sz then Inl (UnsupportedAlgorithm algorithm)
     else if log_kind l = TdxCcel \<and> algorithm \<noteq> TPM_ALG_SHA384
     then Inl (Unsupported ''TDX requires SHA-384'')
     else bindR (foldR (replay_step P (log_kind l) algorithm sz)
            \<lparr>rs_values = initial_values (register_count (log_kind l)) sz, pcr0_extended = False,
             locality_seen = False\<rparr> (log_events l)) (\<lambda>st.
     Inr \<lparr>ur_kind = log_kind l, ur_algorithm = algorithm, ur_registers = rs_values st\<rparr>))"

section \<open>Registers as hash chains\<close>

text \<open>The digests an event log extends into a register, in order.\<close>

definition extended_register :: "LogKind \<Rightarrow> Event \<Rightarrow> u32 option" where
  "extended_register kind e =
     (if reported_event_type e = EV_NO_ACTION then None
      else if kind = TdxCcel then (if register_index e = 0 then None else Some (register_index e - 1))
      else if register_index e > 15 then None else Some (register_index e))"

definition register_digests :: "LogKind \<Rightarrow> u16 \<Rightarrow> Event list \<Rightarrow> u32 \<Rightarrow> bytes list" where
  "register_digests kind algorithm es i =
     map (\<lambda>e. the (bt_get (digests e) algorithm))
       (filter (\<lambda>e. extended_register kind e = Some i) es)"

definition extend_chain :: "(bytes \<Rightarrow> bytes) \<Rightarrow> bytes \<Rightarrow> bytes list \<Rightarrow> bytes" where
  "extend_chain H v ds = foldl (\<lambda>a d. H (a @ d)) v ds"

text \<open>The start value of a register: zero, except that a StartupLocality event sets the last byte
  of PCR0.\<close>

definition startup_locality :: "LogKind \<Rightarrow> Event list \<Rightarrow> byte" where
  "startup_locality kind es =
     (case filter (\<lambda>e. kind = Tpm2 \<and> reported_event_type e = EV_NO_ACTION \<and>
              starts_with (untrusted_event_data e) startup_locality_tag) es of
        [] \<Rightarrow> 0
      | e # _ \<Rightarrow> untrusted_event_data e ! 16)"

definition register_start :: "LogKind \<Rightarrow> Event list \<Rightarrow> nat \<Rightarrow> u32 \<Rightarrow> bytes" where
  "register_start kind es sz i =
     (if i = 0 then (replicate sz 0)[sz - 1 := startup_locality kind es] else replicate sz 0)"

definition alg_hash :: "prims \<Rightarrow> u16 \<Rightarrow> bytes \<Rightarrow> bytes" where
  "alg_hash P a x = (case hash P a x of Inl _ \<Rightarrow> [] | Inr d \<Rightarrow> d)"

definition register_value :: "prims \<Rightarrow> LogKind \<Rightarrow> u16 \<Rightarrow> nat \<Rightarrow> Event list \<Rightarrow> u32 \<Rightarrow> bytes" where
  "register_value P kind algorithm sz es i =
     extend_chain (alg_hash P algorithm) (register_start kind es sz i)
       (register_digests kind algorithm es i)"

definition locality_event :: "LogKind \<Rightarrow> Event \<Rightarrow> bool" where
  "locality_event kind e \<longleftrightarrow> kind = Tpm2 \<and> reported_event_type e = EV_NO_ACTION \<and>
     starts_with (untrusted_event_data e) startup_locality_tag"

lemma startup_locality_alt:
  "startup_locality kind es =
     (case filter (locality_event kind) es of [] \<Rightarrow> 0 | e # _ \<Rightarrow> untrusted_event_data e ! 16)"
  by (simp add: startup_locality_def locality_event_def [abs_def])

lemma startup_locality_snoc:
  "startup_locality kind (es @ [e]) =
     (if locality_event kind e \<and> (\<forall>x \<in> set es. \<not> locality_event kind x)
      then untrusted_event_data e ! 16 else startup_locality kind es)"
  by (cases "filter (locality_event kind) es") (auto simp: startup_locality_alt filter_empty_conv)

lemma startup_locality_none:
  "\<forall>x \<in> set es. \<not> locality_event kind x \<Longrightarrow> startup_locality kind es = 0"
proof -
  assume "\<forall>x \<in> set es. \<not> locality_event kind x"
  then have "filter (locality_event kind) es = []" by simp
  then show ?thesis by (simp add: startup_locality_alt)
qed

lemma register_digests_snoc:
  "register_digests kind a (es @ [e]) i =
     register_digests kind a es i @
     (if extended_register kind e = Some i then [the (bt_get (digests e) a)] else [])"
  by (simp add: register_digests_def)

lemma register_start_other: "i \<noteq> 0 \<Longrightarrow> register_start kind es sz i = replicate sz 0"
  by (simp add: register_start_def)

lemma register_value_unchanged:
  assumes "extended_register kind e \<noteq> Some i" and "i = 0 \<longrightarrow> \<not> locality_event kind e"
  shows "register_value P kind a sz (es @ [e]) i = register_value P kind a sz es i"
  using assms
  by (simp add: register_value_def register_digests_snoc register_start_def startup_locality_snoc)

lemma locality_not_extended: "locality_event kind e \<Longrightarrow> extended_register kind e = None"
  by (simp add: locality_event_def extended_register_def)

lemma register_value_extend:
  assumes "extended_register kind e = Some i" and "bt_get (digests e) a = Some d"
  shows "register_value P kind a sz (es @ [e]) i =
    alg_hash P a (register_value P kind a sz es i @ d)"
  using assms locality_not_extended [of kind e]
  by (auto simp: register_value_def register_digests_snoc register_start_def startup_locality_snoc
        extend_chain_def)

lemma register_value_locality:
  assumes "locality_event kind e" and "\<forall>x \<in> set es. \<not> locality_event kind x"
    and "\<forall>x \<in> set es. extended_register kind x \<noteq> Some 0"
  shows "register_value P kind a sz (es @ [e]) 0 =
    (register_value P kind a sz es 0)[sz - 1 := untrusted_event_data e ! 16]"
proof -
  have "register_digests kind a es 0 = []"
    using assms(3) by (simp add: register_digests_def)
  then show ?thesis
    using assms locality_not_extended [OF assms(1)]
    by (simp add: register_value_def register_digests_snoc register_start_def startup_locality_snoc
          extend_chain_def startup_locality_none)
qed

definition replay_inv ::
  "prims \<Rightarrow> LogKind \<Rightarrow> u16 \<Rightarrow> nat \<Rightarrow> Event list \<Rightarrow> replay_state \<Rightarrow> bool" where
  "replay_inv P kind a sz es st \<longleftrightarrow>
     (\<forall>i. bt_get (rs_values st) i =
        (if unat i < register_count kind then Some (register_value P kind a sz es i) else None)) \<and>
     locality_seen st = (\<exists>e \<in> set es. locality_event kind e) \<and>
     (kind = Tpm2 \<longrightarrow> pcr0_extended st = (\<exists>e \<in> set es. extended_register kind e = Some 0))"

lemma bt_get_initial_values:
  assumes "n < 2 ^ 32"
  shows "bt_get (initial_values n sz) i = (if unat i < n then Some (replicate sz 0) else None)"
  using assms
proof (induction n)
  case (Suc n)
  have "bt_get (initial_values (Suc n) sz) i =
      (case bt_get (initial_values n sz) i of
         None \<Rightarrow> if i = of_nat n then Some (replicate sz 0) else None | Some v \<Rightarrow> Some v)"
    by (auto simp: initial_values_def map_add_def split: option.splits)
  moreover have "i = of_nat n \<longleftrightarrow> unat i = n"
    using Suc.prems unat_of_nat_small [of n, where 'n = 32] by (auto simp: word_unat_eq_iff)
  ultimately show ?case
    using Suc.IH Suc.prems by (simp add: less_Suc_eq)
qed (simp add: initial_values_def)

lemma replay_locality_inv:
  assumes inv: "replay_inv P kind a sz es st" and loc: "locality_event kind e"
    and step: "replay_locality sz st e = Inr st'"
  shows "replay_inv P kind a sz (es @ [e]) st'"
proof -
  have k: "kind = Tpm2"
    using loc by (simp add: locality_event_def)
  have first: "\<forall>x \<in> set es. \<not> locality_event kind x" "\<forall>x \<in> set es. extended_register kind x \<noteq> Some 0"
    using inv step k by (auto simp: replay_locality_eq replay_inv_def Let_def split: if_splits)
  have st': "st' = st\<lparr>locality_seen := True, rs_values := bt_insert 0
      ((register_value P kind a sz es 0)[sz - 1 := untrusted_event_data e ! 16]) (rs_values st)\<rparr>"
    using inv step k
    by (auto simp: replay_locality_eq replay_inv_def Let_def result_simps register_count_def split: if_splits)
  have ne: "extended_register kind e = None"
    using loc by (rule locality_not_extended)
  have "bt_get (rs_values st') i =
      (if unat i < register_count kind then Some (register_value P kind a sz (es @ [e]) i) else None)" for i
  proof (cases "i = 0")
    case True
    then show ?thesis
      using register_value_locality [OF loc first, of P a sz] k by (simp add: st' register_count_def)
  next
    case False
    then show ?thesis
      using inv ne by (simp add: st' replay_inv_def register_value_unchanged)
  qed
  then show ?thesis
    using inv loc ne by (auto simp: replay_inv_def st')
qed

lemma replay_extend_inv:
  assumes inv: "replay_inv P kind a sz es st" and i: "extended_register kind e = Some i"
    and st': "st' = (if kind = Tpm2 \<and> register_index e = 0 then st\<lparr>pcr0_extended := True\<rparr> else st)
        \<lparr>rs_values := bt_insert i (alg_hash P a (v @ d)) (rs_values st)\<rparr>"
    and v: "bt_get (rs_values st) i = Some v" and d: "bt_get (digests e) a = Some d"
  shows "replay_inv P kind a sz (es @ [e]) st'"
proof -
  have nl: "\<not> locality_event kind e"
    using i locality_not_extended [of kind e] by auto
  have v': "v = register_value P kind a sz es i" "unat i < register_count kind"
    using inv v by (auto simp: replay_inv_def split: if_splits)
  have reg: "kind = Tpm2 \<Longrightarrow> register_index e = 0 \<longleftrightarrow> i = 0"
    using i by (auto simp: extended_register_def split: if_splits)
  have "bt_get (rs_values st') j =
      (if unat j < register_count kind then Some (register_value P kind a sz (es @ [e]) j) else None)" for j
  proof (cases "j = i")
    case True
    then show ?thesis
      using register_value_extend [OF i d, of P sz es] v' by (simp add: st')
  next
    case False
    then show ?thesis
      using inv i nl by (simp add: st' replay_inv_def register_value_unchanged)
  qed
  then show ?thesis
    using inv i nl reg by (auto simp: replay_inv_def st')
qed

lemma replay_step_inv:
  assumes inv: "replay_inv P kind a sz es st" and step: "replay_step P kind a sz st e = Inr st'"
  shows "replay_inv P kind a sz (es @ [e]) st'"
proof -
  consider (locality) "locality_event kind e" "replay_locality sz st e = Inr st'"
    | (skip) "\<not> locality_event kind e" "extended_register kind e = None" "st' = st"
    | (extend) i d v where "extended_register kind e = Some i" "bt_get (rs_values st) i = Some v"
        "bt_get (digests e) a = Some d"
        "st' = (if kind = Tpm2 \<and> register_index e = 0 then st\<lparr>pcr0_extended := True\<rparr> else st)
           \<lparr>rs_values := bt_insert i (alg_hash P a (v @ d)) (rs_values st)\<rparr>"
    using step
    by (cases kind)
      (auto simp: replay_step_def locality_event_def extended_register_def Let_def result_simps
        alg_hash_def split: if_splits)
  then show ?thesis
  proof cases
    case locality
    with inv show ?thesis by (blast intro: replay_locality_inv)
  next
    case skip
    with inv show ?thesis
      by (auto simp: replay_inv_def register_value_unchanged)
  next
    case extend
    with inv show ?thesis by (blast intro: replay_extend_inv)
  qed
qed

lemma replay_inv_initial:
  "replay_inv P kind a sz [] \<lparr>rs_values = initial_values (register_count kind) sz,
     pcr0_extended = False, locality_seen = False\<rparr>"
proof -
  have v: "register_value P kind a sz [] i = replicate sz 0" for kind i
    by (simp add: register_value_def register_start_def register_digests_def extend_chain_def
          startup_locality_def)
  show ?thesis
    by (simp add: replay_inv_def v bt_get_initial_values register_count_def)
qed

text \<open>The registers of a replay are the hash chains of the specification.\<close>

lemma replay_registers:
  assumes "replay P l a = Inr r"
  shows "ur_kind r = log_kind l \<and> ur_algorithm r = a \<and>
    (\<exists>sz. bt_get (log_algorithms l) a = Some sz \<and> hash P a [] \<noteq> Inl (UnsupportedAlgorithm a) \<and>
      length (alg_hash P a []) = sz \<and>
      (\<forall>i. bt_get (ur_registers r) i =
         (if unat i < register_count (log_kind l)
          then Some (register_value P (log_kind l) a sz (log_events l) i) else None)))"
proof -
  obtain h st where h: "hash P a [] = Inr h" "bt_get (log_algorithms l) a = Some (length h)"
    and st: "foldR (replay_step P (log_kind l) a (length h))
      \<lparr>rs_values = initial_values (register_count (log_kind l)) (length h), pcr0_extended = False,
       locality_seen = False\<rparr> (log_events l) = Inr st"
    and r: "r = \<lparr>ur_kind = log_kind l, ur_algorithm = a, ur_registers = rs_values st\<rparr>"
    using assms by (auto simp: replay_def Let_def result_simps)
  have "replay_inv P (log_kind l) a (length h) (log_events l) st"
    using st replay_inv_initial by (rule foldR_prefix_invariant) (rule replay_step_inv)
  then show ?thesis
    using h by (auto simp: r replay_inv_def alg_hash_def)
qed

section \<open>Comparison with authenticated registers\<close>

record AuthenticatedRegisters =
  ar_kind :: LogKind
  ar_values :: "(u16 \<times> u32, bytes) btmap"

definition authenticated_tdx :: "bytes list \<Rightarrow> AuthenticatedRegisters" where
  "authenticated_tdx rtmrs =
     \<lparr>ar_kind = TdxCcel,
      ar_values = map (\<lambda>(index, digest). ((TPM_ALG_SHA384, of_nat index), digest)) (enumerate 0 rtmrs)\<rparr>"

definition authenticated_tpm :: "prims \<Rightarrow> (u16 \<times> u32, bytes) btmap \<Rightarrow> AuthenticatedRegisters boot" where
  "authenticated_tpm P values =
     (if values = [] \<or> (\<exists>(_, index) \<in> set (bt_keys values). index > 15)
      then Inl (InvalidRegisters ''only static PCRs 0..15 are supported'')
      else bindR (foldR (\<lambda>_ ((algorithm, _), digest).
          bindR (hash P algorithm []) (\<lambda>h.
          if length h \<noteq> length digest then Inl (InvalidRegisters ''digest length'') else Inr ()))
          () values) (\<lambda>_.
      Inr \<lparr>ar_kind = Tpm2, ar_values = values\<rparr>))"

record VerifiedBootLog =
  vb_log :: EventLog
  vb_covered :: "(u16 \<times> u32) list"

definition replay_banks ::
  "prims \<Rightarrow> EventLog \<Rightarrow> (u16 \<times> u32) list \<Rightarrow> (u16, UnverifiedReplay) btmap boot" where
  "replay_banks P l keys =
     foldR (\<lambda>replayed (algorithm, _).
       if bt_get replayed algorithm = None
       then bindR (replay P l algorithm) (\<lambda>r. Inr (bt_insert algorithm r replayed))
       else Inr replayed) [] keys"

definition check_register ::
  "(u16, UnverifiedReplay) btmap \<Rightarrow> (u16 \<times> u32) \<times> bytes \<Rightarrow> unit boot" where
  "check_register replayed = (\<lambda>((algorithm, index), wanted).
     bindR (ok_or (bt_get replayed algorithm) (Panic ''bank not replayed'')) (\<lambda>r.
     bindR (ok_or (bt_get (ur_registers r) index) (InvalidRegisters ''unsupported register index'')) (\<lambda>actual.
     if length wanted \<noteq> length actual then Inl (InvalidRegisters ''digest length'')
     else if actual \<noteq> wanted then Inl (RegisterMismatch algorithm index)
     else Inr ())))"

definition verify_log :: "prims \<Rightarrow> EventLog \<Rightarrow> AuthenticatedRegisters \<Rightarrow> VerifiedBootLog boot" where
  "verify_log P l expected =
     (if log_kind l \<noteq> ar_kind expected then Inl PlatformMismatch
      else if ar_values expected = [] then Inl (InvalidRegisters ''empty selection'')
      else bindR (replay_banks P l (bt_keys (ar_values expected))) (\<lambda>replayed.
      bindR (foldR (\<lambda>_. check_register replayed) () (ar_values expected)) (\<lambda>_.
      Inr \<lparr>vb_log = l, vb_covered = bt_keys (ar_values expected)\<rparr>)))"

lemma check_register_Inr_iff:
  "check_register m ((a, i), w) = Inr u \<longleftrightarrow>
     (\<exists>r. bt_get m a = Some r \<and> bt_get (ur_registers r) i = Some w)"
  by (auto simp: check_register_def result_simps)

lemma replay_banks_get:
  assumes "replay_banks P l keys = Inr m"
  shows "bt_get m a = Some r \<longleftrightarrow> a \<in> fst ` set keys \<and> replay P l a = Inr r"
proof -
  have "\<forall>a r. bt_get m a = Some r \<longleftrightarrow> a \<in> fst ` set keys \<and> replay P l a = Inr r"
    using assms unfolding replay_banks_def
  proof (rule foldR_prefix_invariant [where I = "\<lambda>ks m. \<forall>a r. bt_get m a = Some r \<longleftrightarrow>
      a \<in> fst ` set ks \<and> replay P l a = Inr r"], goal_cases)
    case (2 ys x m m')
    obtain a i where x: "x = (a, i)" by (cases x)
    show ?case
    proof (cases "bt_get m a")
      case None
      with 2(3) obtain r where "replay P l a = Inr r" "m' = bt_insert a r m"
        by (auto simp: x result_simps)
      with 2(2) show ?thesis by (auto simp: x)
    next
      case (Some r)
      then have "m' = m" using 2(3) by (simp add: x)
      moreover have "a \<in> fst ` set ys" using Some 2(2) by blast
      ultimately show ?thesis using 2(2) by (simp add: x insert_absorb)
    qed
  qed simp
  then show ?thesis by blast
qed

lemma replay_banks_dom:
  assumes "replay_banks P l keys = Inr m"
  shows "\<forall>k \<in> set keys. bt_get m (fst k) \<noteq> None"
  using assms unfolding replay_banks_def
  by (rule foldR_prefix_invariant [where I = "\<lambda>ks m. \<forall>k \<in> set ks. bt_get m (fst k) \<noteq> None"])
    (simp, fastforce simp: result_simps split: if_splits)

lemma replay_banks_total:
  assumes "\<forall>(a, i) \<in> set keys. is_ok (replay P l a)"
  shows "\<exists>m. replay_banks P l keys = Inr m"
proof (cases "replay_banks P l keys")
  case (Inl e)
  then obtain m x where x: "x \<in> set keys"
    "(case x of (a, _) \<Rightarrow> if bt_get m a = None
       then bindR (replay P l a) (\<lambda>r. Inr (bt_insert a r m)) else Inr m) = Inl e"
    using foldR_error [of _ "[]" keys e "\<lambda>_. True"] unfolding replay_banks_def by blast
  then show ?thesis
    using assms by (fastforce simp: is_ok_iff bindR_Inl_iff split: if_splits)
qed simp

lemma verify_log_Inr_iff:
  "verify_log P l A = Inr v \<longleftrightarrow>
     log_kind l = ar_kind A \<and> ar_values A \<noteq> [] \<and>
     (\<forall>((a, i), w) \<in> set (ar_values A).
        \<exists>r. replay P l a = Inr r \<and> bt_get (ur_registers r) i = Some w) \<and>
     v = \<lparr>vb_log = l, vb_covered = bt_keys (ar_values A)\<rparr>" (is "?L \<longleftrightarrow> ?R")
proof
  assume ?L
  then obtain m where m: "replay_banks P l (bt_keys (ar_values A)) = Inr m"
    and chk: "\<forall>x \<in> set (ar_values A). check_register m x = Inr ()"
    and rest: "log_kind l = ar_kind A" "ar_values A \<noteq> []"
      "v = \<lparr>vb_log = l, vb_covered = bt_keys (ar_values A)\<rparr>"
    by (auto simp: verify_log_def result_simps foldR_unit_Inr_iff)
  then show ?R
    by (fastforce simp: check_register_Inr_iff replay_banks_get)
next
  assume R: ?R
  then have ok: "\<forall>(a, i) \<in> set (bt_keys (ar_values A)). is_ok (replay P l a)"
    by (fastforce simp: is_ok_iff)
  then obtain m where m: "replay_banks P l (bt_keys (ar_values A)) = Inr m"
    using replay_banks_total by blast
  have "check_register m x = Inr ()" if x: "x \<in> set (ar_values A)" for x
  proof -
    obtain a i w where xi: "x = ((a, i), w)" by (metis prod.exhaust)
    then have "a \<in> fst ` set (bt_keys (ar_values A))" using x by force
    then show ?thesis
      using R x replay_banks_get [OF m, of a] by (fastforce simp: xi check_register_Inr_iff)
  qed
  then show ?L
    using R m by (simp add: verify_log_def result_simps foldR_unit_Inr_iff)
qed

section \<open>Reading a verified log\<close>

definition authenticated_digest :: "VerifiedBootLog \<Rightarrow> nat \<Rightarrow> u16 \<Rightarrow> bytes boot" where
  "authenticated_digest v event algorithm =
     (let log = vb_log v; unauth = UnauthenticatedEvent event in
      bindR (ok_or (if event < length (log_events log) then Some (log_events log ! event) else None) unauth) (\<lambda>e.
      if reported_event_type e = EV_NO_ACTION then Inl unauth
      else bindR (if log_kind log = TdxCcel
             then ok_or (if register_index e = 0 then None else Some (register_index e - 1)) unauth
             else Inr (register_index e)) (\<lambda>index.
      if (algorithm, index) \<notin> set (vb_covered v) then Inl unauth
      else ok_or (bt_get (digests e) algorithm) unauth)))"

definition verify_measured_bytes :: "prims \<Rightarrow> VerifiedBootLog \<Rightarrow> nat \<Rightarrow> u16 \<Rightarrow> bytes \<Rightarrow> unit boot" where
  "verify_measured_bytes P v event algorithm bs =
     bindR (authenticated_digest v event algorithm) (\<lambda>d.
     bindR (hash P algorithm bs) (\<lambda>h.
     if d \<noteq> h then Inl (ContentMismatch event) else Inr ()))"

definition verify_expected_digest :: "VerifiedBootLog \<Rightarrow> nat \<Rightarrow> u16 \<Rightarrow> bytes \<Rightarrow> unit boot" where
  "verify_expected_digest v event algorithm digest =
     bindR (authenticated_digest v event algorithm) (\<lambda>d.
     if d \<noteq> digest then Inl (ContentMismatch event) else Inr ())"

lemma authenticated_digest_Inr_iff:
  "authenticated_digest v n a = Inr d \<longleftrightarrow>
     (\<exists>e i. n < length (log_events (vb_log v)) \<and> e = log_events (vb_log v) ! n \<and>
        reported_event_type e \<noteq> EV_NO_ACTION \<and>
        (if log_kind (vb_log v) = TdxCcel then register_index e \<noteq> 0 \<and> i = register_index e - 1
         else i = register_index e) \<and>
        (a, i) \<in> set (vb_covered v) \<and> bt_get (digests e) a = Some d)"
  by (auto simp: authenticated_digest_def Let_def result_simps split: if_splits)

lemma verify_measured_bytes_Inr_iff:
  "verify_measured_bytes P v n a bs = Inr u \<longleftrightarrow>
     (\<exists>d. authenticated_digest v n a = Inr d \<and> hash P a bs = Inr d)"
  by (auto simp: verify_measured_bytes_def result_simps)

lemma verify_expected_digest_Inr_iff:
  "verify_expected_digest v n a d = Inr u \<longleftrightarrow> authenticated_digest v n a = Inr d"
  by (auto simp: verify_expected_digest_def result_simps)

text \<open>An authenticated digest is one of the digests chained into a covered register.\<close>

lemma authenticated_digest_extended:
  assumes v: "verify_log P l A = Inr v" and d: "authenticated_digest v n a = Inr d"
  shows "\<exists>i w. bt_get (ar_values A) (a, i) = Some w \<and>
    extended_register (log_kind l) (log_events l ! n) = Some i \<and> n < length (log_events l) \<and>
    d \<in> set (register_digests (log_kind l) a (log_events l) i)"
proof -
  have l: "vb_log v = l" "vb_covered v = bt_keys (ar_values A)"
    using v by (simp_all add: verify_log_Inr_iff)
  obtain e i where e: "n < length (log_events l)" "e = log_events l ! n" "reported_event_type e \<noteq> EV_NO_ACTION"
      "if log_kind l = TdxCcel then register_index e \<noteq> 0 \<and> i = register_index e - 1 else i = register_index e"
      "(a, i) \<in> set (bt_keys (ar_values A))" "bt_get (digests e) a = Some d"
    using d by (auto simp: authenticated_digest_Inr_iff l)
  then obtain w where w: "bt_get (ar_values A) (a, i) = Some w"
    by (metis map_of_eq_None_iff not_Some_eq set_map)
  have mem: "((a, i), w) \<in> set (ar_values A)"
    using w by (rule map_of_SomeD)
  obtain r where "replay P l a = Inr r" "bt_get (ur_registers r) i = Some w"
    using v mem by (auto simp: verify_log_Inr_iff)
  then have "unat i < register_count (log_kind l)"
    by (auto dest!: replay_registers split: if_splits)
  then have "extended_register (log_kind l) e = Some i"
    using e(3,4) by (cases "log_kind l")
      (auto simp: extended_register_def register_count_def word_less_nat_alt split: if_splits)
  moreover from this have "d \<in> set (register_digests (log_kind l) a (log_events l) i)"
    using e(1,2,6) by (force simp: register_digests_def)
  ultimately show ?thesis using w e(1,2) by blast
qed

section \<open>Chains determine their digests\<close>

fun chain_inputs :: "(bytes \<Rightarrow> bytes) \<Rightarrow> bytes \<Rightarrow> bytes list \<Rightarrow> bytes list" where
  "chain_inputs H v [] = []"
| "chain_inputs H v (d # ds) = (v @ d) # chain_inputs H (H (v @ d)) ds"

lemma chain_inputs_snoc:
  "chain_inputs H v (ds @ [d]) = chain_inputs H v ds @ [extend_chain H v ds @ d]"
  by (induction ds arbitrary: v) (auto simp: extend_chain_def)

lemma extend_chain_snoc: "extend_chain H v (ds @ [d]) = H (extend_chain H v ds @ d)"
  by (simp add: extend_chain_def)

lemma length_extend_chain:
  "(\<And>x. length (H x) = n) \<Longrightarrow> length v = n \<Longrightarrow> length (extend_chain H v ds) = n"
  by (induction ds rule: rev_induct) (auto simp: extend_chain_def)

lemma extend_chain_inject:
  assumes H: "\<And>x. length (H x) = n" and v: "length v = n" "length w = n"
    and inj: "inj_on H (set (chain_inputs H v ds) \<union> set (chain_inputs H w es))"
    and start: "v \<notin> H ` set (chain_inputs H w es)" "w \<notin> H ` set (chain_inputs H v ds)"
    and eq: "extend_chain H v ds = extend_chain H w es"
  shows "v = w \<and> ds = es"
  using inj start eq
proof (induction ds arbitrary: es rule: rev_induct)
  case Nil
  then show ?case
  proof (cases es rule: rev_cases)
    case (snoc es' e)
    with Nil.prems show ?thesis
      by (auto simp: chain_inputs_snoc extend_chain_snoc) (simp add: extend_chain_def)
  qed (simp add: extend_chain_def)
next
  case (snoc d ds)
  show ?case
  proof (cases es rule: rev_cases)
    case Nil
    with snoc.prems show ?thesis
      by (auto simp: chain_inputs_snoc extend_chain_snoc) (simp add: extend_chain_def)
  next
    case es: (snoc es' e)
    have "H (extend_chain H v ds @ d) = H (extend_chain H w es' @ e)"
      using snoc.prems(4) by (simp add: es extend_chain_snoc)
    then have "extend_chain H v ds @ d = extend_chain H w es' @ e"
      by (rule inj_onD [OF snoc.prems(1)]) (simp_all add: es chain_inputs_snoc)
    moreover have "length (extend_chain H v ds) = length (extend_chain H w es')"
      using H v by (simp add: length_extend_chain)
    ultimately have eqs: "extend_chain H v ds = extend_chain H w es'" "d = e"
      by simp_all
    have "v = w \<and> ds = es'"
      using snoc.prems(1-3) eqs(1)
      by (intro snoc.IH) (auto simp: es chain_inputs_snoc elim: inj_on_subset)
    with eqs(2) show ?thesis by (simp add: es)
  qed
qed

lemma alg_hash_length:
  assumes "digest_sizes P" and "hash P a x = Inr h"
  shows "length (alg_hash P a y) = length h"
proof -
  obtain e where "hash P a y = Inr e" using hash_total [OF assms(2)] by blast
  with hash_same_size [OF assms this] show ?thesis by (simp add: alg_hash_def)
qed

lemma length_register_start [simp]: "length (register_start kind es sz i) = sz"
  by (simp add: register_start_def)

lemma length_register_value:
  assumes "digest_sizes P" and "hash P a x = Inr h"
  shows "length (register_value P kind a (length h) es i) = length h"
  unfolding register_value_def
  by (rule length_extend_chain) (simp_all add: alg_hash_length [OF assms])

definition register_inputs :: "prims \<Rightarrow> EventLog \<Rightarrow> u16 \<Rightarrow> u32 \<Rightarrow> bytes set" where
  "register_inputs P l a i =
     set (chain_inputs (alg_hash P a)
       (register_start (log_kind l) (log_events l) (length (alg_hash P a [])) i)
       (register_digests (log_kind l) a (log_events l) i))"

text \<open>What is assumed of the hash for two given logs: it does not collide on the inputs the two
  replays feed it, and none of these inputs hashes to a start value.\<close>

definition collision_free :: "prims \<Rightarrow> EventLog \<Rightarrow> EventLog \<Rightarrow> u16 \<Rightarrow> u32 \<Rightarrow> bool" where
  "collision_free P l m a i \<longleftrightarrow>
     inj_on (alg_hash P a) (register_inputs P l a i \<union> register_inputs P m a i) \<and>
     (\<forall>x \<in> register_inputs P l a i \<union> register_inputs P m a i.
        alg_hash P a x \<noteq> register_start (log_kind l) (log_events l) (length (alg_hash P a [])) i \<and>
        alg_hash P a x \<noteq> register_start (log_kind m) (log_events m) (length (alg_hash P a [])) i)"

lemma verify_log_register:
  assumes "verify_log P l A = Inr v" and "((a, i), x) \<in> set (ar_values A)"
  shows "x = register_value P (log_kind l) a (length (alg_hash P a [])) (log_events l) i"
    and "\<exists>h. hash P a [] = Inr h \<and> length h = length (alg_hash P a [])"
proof -
  obtain r where r: "replay P l a = Inr r" "bt_get (ur_registers r) i = Some x"
    using assms by (auto simp: verify_log_Inr_iff)
  then show "x = register_value P (log_kind l) a (length (alg_hash P a [])) (log_events l) i"
    by (auto dest!: replay_registers split: if_splits)
  show "\<exists>h. hash P a [] = Inr h \<and> length h = length (alg_hash P a [])"
    using r(1) by (auto simp: replay_def alg_hash_def result_simps)
qed

lemma verified_registers_agree:
  assumes P: "digest_sizes P" and l: "verify_log P l A = Inr v" and m: "verify_log P m A = Inr w"
    and x: "((a, i), x) \<in> set (ar_values A)" and cf: "collision_free P l m a i"
  shows "register_digests (log_kind l) a (log_events l) i = register_digests (log_kind m) a (log_events m) i"
proof -
  let ?n = "length (alg_hash P a [])" and ?H = "alg_hash P a"
  let ?s = "\<lambda>k. register_start (log_kind k) (log_events k) ?n i"
  let ?d = "\<lambda>k. register_digests (log_kind k) a (log_events k) i"
  obtain h where h: "hash P a [] = Inr h" "length h = ?n"
    using verify_log_register(2) [OF l x] by blast
  have "?s l = ?s m \<and> ?d l = ?d m"
  proof (rule extend_chain_inject)
    show "length (?H y) = ?n" for y
      using alg_hash_length [OF P h(1)] by simp
    show "inj_on ?H (set (chain_inputs ?H (?s l) (?d l)) \<union> set (chain_inputs ?H (?s m) (?d m)))"
      using cf by (simp add: collision_free_def register_inputs_def)
    show "?s l \<notin> ?H ` set (chain_inputs ?H (?s m) (?d m))" "?s m \<notin> ?H ` set (chain_inputs ?H (?s l) (?d l))"
      using cf by (auto simp: collision_free_def register_inputs_def)
    show "extend_chain ?H (?s l) (?d l) = extend_chain ?H (?s m) (?d m)"
      using verify_log_register(1) [OF l x] verify_log_register(1) [OF m x]
      by (simp add: register_value_def)
  qed simp_all
  then show ?thesis by simp
qed

section \<open>No panic on a parsed log\<close>

lemma replay_locality_no_panic:
  assumes "bt_get (rs_values st) 0 = Some v" and "length v = sz" and "sz \<noteq> 0"
  shows "replay_locality sz st e \<noteq> Inl (Panic msg)"
  using assms by (simp add: replay_locality_eq Let_def ok_or_def)

lemma replay_step_no_panic:
  assumes P: "digest_sizes P" and h: "hash P a [] = Inr h"
    and inv: "replay_inv P kind a (length h) es st" and e: "event_wf kind limits aael as e"
  shows "replay_step P kind a (length h) st e \<noteq> Inl (Panic msg)"
proof
  assume panic: "replay_step P kind a (length h) st e = Inl (Panic msg)"
  have nz: "length h \<noteq> 0"
    using hash_size [OF P h] by (auto simp: known_digest_size_def split: if_splits)
  have get: "bt_get (rs_values st) i = (if unat i < register_count kind
      then Some (register_value P kind a (length h) es i) else None)" for i
    using inv by (simp add: replay_inv_def)
  have ok: "\<exists>x. hash P a y = Inr x" for y
    using hash_total [OF h] .
  have reg: "kind = TdxCcel \<Longrightarrow> register_index e \<noteq> 0 \<Longrightarrow> unat (register_index e - 1) < 4"
  proof -
    assume k: "kind = TdxCcel" and nz: "register_index e \<noteq> 0"
    have "unat (register_index e) \<le> 4"
      using e k by (auto simp: event_wf_def split: if_splits)
    moreover have "unat (register_index e - 1) = unat (register_index e) - 1"
      using nz by (simp add: unat_minus_one)
    ultimately show "unat (register_index e - 1) < 4"
      by linarith
  qed
  have pcr: "\<not> 15 < register_index e \<Longrightarrow> unat (register_index e) < 16"
    by (simp add: word_less_nat_alt not_less)
  have index: "\<exists>v. bt_get (rs_values st) (if kind = TdxCcel then register_index e - 1 else register_index e) = Some v"
    if "\<not> (kind = TdxCcel \<and> register_index e = 0)" "\<not> (kind = Tpm2 \<and> 15 < register_index e)"
    using that reg pcr by (cases kind) (simp_all add: get register_count_def)
  have loc: "replay_locality (length h) st e \<noteq> Inl (Panic msg)" if "kind = Tpm2"
    using get [of 0] that nz length_register_value [OF P h, of kind es 0]
    by (intro replay_locality_no_panic [where v = "register_value P kind a (length h) es 0"])
      (simp_all add: register_count_def)
  have rs: "rs_values (if c then st\<lparr>pcr0_extended := True\<rparr> else st) = rs_values st" for c
    by simp
  show False
  proof (cases "reported_event_type e = EV_NO_ACTION")
    case True
    then show ?thesis
      using panic loc by (simp add: replay_step_def split: if_splits)
  next
    case False
    have g: "\<not> (kind = TdxCcel \<and> register_index e = 0)" "\<not> (kind = Tpm2 \<and> 15 < register_index e)"
      using panic False by (simp_all add: replay_step_def split: if_splits)
    obtain v where v: "bt_get (rs_values st) (if kind = TdxCcel then register_index e - 1 else register_index e) = Some v"
      using index [OF g] by blast
    have nu: "ok_or o1 (Unsupported u) \<noteq> Inl (Panic msg)" for o1 u
      by (simp add: ok_or_def split: option.split)
    have nh: "hash P a y \<noteq> Inl (Panic msg)" for y
      by (simp add: hash_def)
    show ?thesis
      using panic v nu nh unfolding replay_step_def Let_def rs if_not_P [OF False] if_not_P [OF g(1)] if_not_P [OF g(2)]
      by (auto simp: bindR_Inl_iff ok_or_def)
  qed
qed

lemma replay_never_panics:
  assumes P: "digest_sizes P" and wf: "log_wf limits aael l"
  shows "replay P l a \<noteq> Inl (Panic msg)"
proof
  assume "replay P l a = Inl (Panic msg)"
  then obtain h where h: "hash P a [] = Inr h"
    and loop: "foldR (replay_step P (log_kind l) a (length h))
      \<lparr>rs_values = initial_values (register_count (log_kind l)) (length h), pcr0_extended = False,
       locality_seen = False\<rparr> (log_events l) = Inl (Panic msg)"
    by (auto simp: replay_def bindR_Inl_iff Let_def hash_def split: if_splits)
  have "\<exists>st e. e \<in> set (log_events l) \<and> (\<exists>es. replay_inv P (log_kind l) a (length h) es st) \<and>
      replay_step P (log_kind l) a (length h) st e = Inl (Panic msg)"
    using loop by (rule foldR_error) (blast intro: replay_inv_initial replay_step_inv)+
  then obtain st e es where "e \<in> set (log_events l)" "replay_inv P (log_kind l) a (length h) es st"
      "replay_step P (log_kind l) a (length h) st e = Inl (Panic msg)"
    by blast
  then show False
    using replay_step_no_panic [OF P h] wf by (auto simp: log_wf_def)
qed

lemma panic_free_replay: "digest_sizes P \<Longrightarrow> log_wf limits aael l \<Longrightarrow> panic_free (replay P l a)"
  using replay_never_panics [of P limits aael l a]
  by (auto simp: never_fails_def elim: is_panic.elims(2))

lemma panic_free_verify_log:
  assumes "digest_sizes P" and "log_wf limits aael l"
  shows "panic_free (verify_log P l A)"
proof -
  have rep: "panic_free (replay P l a)" for a
    using assms by (rule panic_free_replay)
  have banks: "panic_free (replay_banks P l keys)" for keys
    unfolding replay_banks_def by (rule never_fails_foldR) (auto intro!: no_error_intros rep)
  have "panic_free (check_register m x)"
    if m: "replay_banks P l (bt_keys (ar_values A)) = Inr m" and x: "x \<in> set (ar_values A)" for m x
  proof -
    obtain a i w where xi: "x = ((a, i), w)" by (metis prod.exhaust)
    then obtain r where "bt_get m a = Some r"
      using replay_banks_dom [OF m] x by force
    then show ?thesis
      by (auto simp: xi check_register_def intro!: no_error_intros)
  qed
  then show ?thesis
    unfolding verify_log_def
    by (auto intro!: no_error_intros banks never_fails_foldR)
qed

section \<open>Properties\<close>

definition demo_registers :: AuthenticatedRegisters where
  "demo_registers = authenticated_tdx
     [replicate 48 7, replicate 48 0, replicate 48 0, replicate 48 0]"

text \<open>The same measurements with another (unauthenticated) description.\<close>

definition demo_log' :: EventLog where
  "demo_log' = demo_log\<lparr>log_events := [demo_event\<lparr>untrusted_event_data := [120]\<rparr>]\<rparr>"

lemma demo_replay:
  "replay demo_prims demo_log TPM_ALG_SHA384 =
     Inr \<lparr>ur_kind = TdxCcel, ur_algorithm = TPM_ALG_SHA384,
          ur_registers = [(0, replicate 48 7), (1, replicate 48 0), (2, replicate 48 0), (3, replicate 48 0)]\<rparr>"
  by code_simp

lemma demo_verifies:
  "verify_log demo_prims demo_log demo_registers =
     Inr \<lparr>vb_log = demo_log, vb_covered = map (\<lambda>i. (TPM_ALG_SHA384, i)) [0, 1, 2, 3]\<rparr>"
  by code_simp

lemma demo_verifies':
  "verify_log demo_prims demo_log' demo_registers =
     Inr \<lparr>vb_log = demo_log', vb_covered = map (\<lambda>i. (TPM_ALG_SHA384, i)) [0, 1, 2, 3]\<rparr>"
  by code_simp

text \<open>C2. A successful replay computes, for every register of the platform, the hash chain over the
  digests extended into it, in log order, from its start value (zero, or the startup locality for
  PCR0); it has no other register.\<close>

theorem replay_refines_chain:
  assumes "replay P l a = Inr r"
  shows "bt_get (ur_registers r) i =
    (if unat i < register_count (log_kind l)
     then Some (register_value P (log_kind l) a (length (alg_hash P a [])) (log_events l) i) else None)"
  using replay_registers [OF assms] by auto

theorem replay_refines_chain_witness:
  "register_value demo_prims TdxCcel TPM_ALG_SHA384 48 [demo_event] 0 = replicate 48 7"
  using replay_refines_chain [OF demo_replay, of 0]
  by (simp add: demo_log_def register_count_def alg_hash_def demo_prims_def hash_def)

text \<open>C6. Neither parsing, nor replaying a log that came out of the parser, nor comparing it with any
  set of registers reaches one of the \<open>unwrap\<close>s, indexings or map look-ups that would panic.\<close>

theorem boot_log_panic_free:
  assumes "digest_sizes P" and "parse bs kind limits aael = Inr l"
  shows "panic_free (parse bs' kind' limits' aael') \<and> panic_free (replay P l a) \<and> panic_free (verify_log P l A)"
  using assms parse_log_wf [OF assms(2)] panic_free_parse panic_free_replay panic_free_verify_log by blast

theorem boot_log_panic_free_witness:
  "panic_free (replay demo_prims demo_log 0x000b) \<and> panic_free (verify_log demo_prims demo_log demo_registers)"
  using boot_log_panic_free [OF demo_digest_sizes demo_log_parses] by blast



text \<open>C1. Two logs that verify against the same authenticated registers extend the same digests in the
  same order into every covered register, unless the hash collides on their inputs: a log cannot be
  edited, reordered, extended or cut without being noticed.\<close>

theorem verified_logs_agree:
  assumes "digest_sizes P" and "verify_log P l A = Inr v" and "verify_log P m A = Inr w"
    and "((a, i), x) \<in> set (ar_values A)" and "collision_free P l m a i"
  shows "register_digests (log_kind l) a (log_events l) i = register_digests (log_kind m) a (log_events m) i"
  using assms by (rule verified_registers_agree)

lemma demo_collision_free: "collision_free demo_prims demo_log demo_log' TPM_ALG_SHA384 0"
proof -
  have "register_inputs demo_prims k TPM_ALG_SHA384 0 = {replicate 48 0 @ replicate 48 7}"
    if "k \<in> {demo_log, demo_log'}" for k
    using that by (auto simp: register_inputs_def demo_log_def demo_log'_def demo_event_def
      register_start_def register_digests_def startup_locality_def extended_register_def
      alg_hash_def hash_def demo_prims_def)
  then show ?thesis
    by (simp add: collision_free_def register_start_def startup_locality_def demo_log_def
      demo_log'_def demo_event_def alg_hash_def hash_def demo_prims_def demo_digest_def)
qed

theorem verified_logs_agree_witness:
  "demo_log \<noteq> demo_log' \<and>
   register_digests TdxCcel TPM_ALG_SHA384 (log_events demo_log) 0 =
   register_digests TdxCcel TPM_ALG_SHA384 (log_events demo_log') 0"
  using verified_logs_agree [OF demo_digest_sizes demo_verifies demo_verifies' _ demo_collision_free,
    of "replicate 48 7"]
  by (simp add: demo_registers_def authenticated_tdx_def demo_log_def demo_log'_def demo_event_def)

text \<open>C7. A digest is handed out only for an event that was extended into a covered register: it is
  one of the digests of that register's chain, and that register matched its authenticated value.\<close>

theorem authenticated_digest_sound:
  assumes "verify_log P l A = Inr v" and "authenticated_digest v n a = Inr d"
  shows "\<exists>i w. bt_get (ar_values A) (a, i) = Some w \<and>
    extended_register (log_kind l) (log_events l ! n) = Some i \<and> n < length (log_events l) \<and>
    d \<in> set (register_digests (log_kind l) a (log_events l) i) \<and>
    w = register_value P (log_kind l) a (length (alg_hash P a [])) (log_events l) i"
  using authenticated_digest_extended [OF assms] verify_log_register(1) [OF assms(1)] map_of_SomeD
  by metis

theorem authenticated_digest_sound_witness:
  "\<exists>i w. bt_get (ar_values demo_registers) (TPM_ALG_SHA384, i) = Some w \<and>
     replicate 48 7 \<in> set (register_digests TdxCcel TPM_ALG_SHA384 (log_events demo_log) i)"
proof -
  have "authenticated_digest \<lparr>vb_log = demo_log, vb_covered = map (\<lambda>i. (TPM_ALG_SHA384, i)) [0, 1, 2, 3]\<rparr>
      0 TPM_ALG_SHA384 = Inr (replicate 48 7)"
    by code_simp
  from authenticated_digest_sound [OF demo_verifies this] show ?thesis
    by (auto simp: demo_log_def)
qed

end
