(* ===== verification/Boot_Cmdline.thy ===== *)
theory Boot_Cmdline
  imports Boot_Replay
begin

text \<open>
  The kernel command line of a verified log and the dm-verity root it commits to
  (\<open>authenticated_command_line\<close>, \<open>verify_dm_verity\<close>, \<open>verified_dm_verity\<close>), the ACPI CCEL table and
  the bounded reads of \<open>v2/src/boot.rs\<close>. The lemmas say exactly which command lines are accepted
  and that the accepted text is the measured preimage.
\<close>

section \<open>The measured command line\<close>

datatype CommandLineProfile = Grub | SystemdLoadOptions | SystemdUkiEmbedded

record MeasuredCommandLine =
  mc_event_index :: nat
  mc_algorithm :: u16
  mc_profile :: CommandLineProfile
  mc_command_line :: str

definition expected_register :: "LogKind \<Rightarrow> CommandLineProfile \<Rightarrow> u32" where
  "expected_register kind profile =
     (case kind of TdxCcel \<Rightarrow> 3 | Tpm2 \<Rightarrow> (if profile = Grub then 8 else 12))"

definition grub_text :: "prims \<Rightarrow> VerifiedBootLog \<Rightarrow> nat \<Rightarrow> u16 \<Rightarrow> bytes \<Rightarrow> str boot" where
  "grub_text P v event algorithm data =
     bindR (ok_or (strip_suffix data [0]) (CommandLine ''missing GRUB terminator'')) (\<lambda>txt.
     bindR (ok_or (strip_prefix txt (lit ''kernel_cmdline: ''))
              (CommandLine ''missing GRUB kernel command line description'')) (\<lambda>measured.
     bindR (verify_measured_bytes P v event algorithm measured) (\<lambda>_.
     ok_or (from_utf8 measured) (CommandLine ''invalid UTF-8''))))"

definition load_options_text :: "prims \<Rightarrow> VerifiedBootLog \<Rightarrow> nat \<Rightarrow> u16 \<Rightarrow> bytes \<Rightarrow> str boot" where
  "load_options_text P v event algorithm data =
     bindR (verify_measured_bytes P v event algorithm data) (\<lambda>_.
     if length data < 2 \<or> length data mod 2 \<noteq> 0 then Inl (CommandLine ''invalid UTF-16 length'')
     else let words = le_words data in
     if last words \<noteq> 0 \<or> 0 \<in> set (butlast words) then Inl (CommandLine ''invalid UTF-16 termination'')
     else bindR (ok_or (utf16_decode (butlast words)) (CommandLine ''invalid UTF-16'')) (\<lambda>cs.
     Inr (utf8_encode cs)))"

definition authenticated_command_line ::
  "prims \<Rightarrow> VerifiedBootLog \<Rightarrow> nat \<Rightarrow> u16 \<Rightarrow> CommandLineProfile \<Rightarrow> MeasuredCommandLine boot" where
  "authenticated_command_line P v event algorithm profile =
     (if profile = SystemdUkiEmbedded
      then Inl (Unsupported ''UKI command line requires verified section-name/data pairs'')
      else
        let log = vb_log v in
        bindR (ok_or (if event < length (log_events log) then Some (log_events log ! event) else None)
                 (UnauthenticatedEvent event)) (\<lambda>e.
        if register_index e \<noteq> expected_register (log_kind log) profile \<or> reported_event_type e \<noteq> EV_IPL
        then Inl (CommandLine ''event is outside selected loader profile'')
        else bindR (if profile = Grub
               then grub_text P v event algorithm (untrusted_event_data e)
               else load_options_text P v event algorithm (untrusted_event_data e)) (\<lambda>command_line.
        if 0 \<in> set command_line then Inl (CommandLine ''embedded NUL'')
        else Inr \<lparr>mc_event_index = event, mc_algorithm = algorithm, mc_profile = profile,
                  mc_command_line = command_line\<rparr>)))"

section \<open>The dm-verity commitment\<close>

record DmVerityCommitment =
  dv_event_index :: nat
  measurement_algorithm :: u16
  root_digest_hex :: str
  dv_command_line :: str

definition verity_disabled_tokens :: "str list" where
  "verity_disabled_tokens =
     [lit ''systemd.verity=0'', lit ''systemd.verity=no'', lit ''systemd.verity=false'',
      lit ''systemd.verity=off'', lit ''rd.systemd.verity=0'', lit ''rd.systemd.verity=no'',
      lit ''rd.systemd.verity=false'', lit ''rd.systemd.verity=off'']"

fun roothash_tokens :: "prims \<Rightarrow> bytes option \<Rightarrow> str list \<Rightarrow> bytes option boot" where
  "roothash_tokens P root [] = Inr root"
| "roothash_tokens P root (token # ts) =
     (if token = lit ''--'' then Inr root
      else if token \<in> set verity_disabled_tokens then Inl (CommandLine ''dm-verity explicitly disabled'')
      else case strip_prefix token (lit ''roothash='') of
          Some encoded \<Rightarrow>
            if root \<noteq> None then Inl (CommandLine ''duplicate roothash argument'')
            else bindR (ok_or (hex_decode P encoded) (CommandLine ''invalid roothash hex'')) (\<lambda>digest.
                 roothash_tokens P (Some digest) ts)
        | None \<Rightarrow> roothash_tokens P root ts)"

definition unsupported_char :: "nat \<Rightarrow> bool" where
  "unsupported_char c \<longleftrightarrow> c \<in> {39, 34, 92} \<or> (is_control c \<and> c \<notin> {32, 9})"

definition verify_dm_verity :: "prims \<Rightarrow> MeasuredCommandLine \<Rightarrow> bytes \<Rightarrow> DmVerityCommitment boot" where
  "verify_dm_verity P m expected_root_digest =
     (if length expected_root_digest \<notin> {32, 48, 64}
      then Inl (CommandLine ''unsupported expected root digest length'')
      else if \<exists>c \<in> set (chars (mc_command_line m)). unsupported_char c
      then Inl (CommandLine ''quoted, escaped, or control-character syntax is unsupported'')
      else bindR (roothash_tokens P None (split_ascii_whitespace (mc_command_line m))) (\<lambda>root.
      bindR (ok_or root (CommandLine ''missing measured roothash'')) (\<lambda>root.
      if root \<noteq> expected_root_digest then Inl VerityRootMismatch
      else Inr \<lparr>dv_event_index = mc_event_index m, measurement_algorithm = mc_algorithm m,
                root_digest_hex = hex_encode P root, dv_command_line = mc_command_line m\<rparr>)))"

definition verified_dm_verity ::
  "prims \<Rightarrow> VerifiedBootLog \<Rightarrow> nat \<Rightarrow> u16 \<Rightarrow> CommandLineProfile \<Rightarrow> bytes \<Rightarrow> DmVerityCommitment boot" where
  "verified_dm_verity P v event algorithm profile expected_root_digest =
     bindR (authenticated_command_line P v event algorithm profile) (\<lambda>m.
     verify_dm_verity P m expected_root_digest)"

section \<open>The CCEL table and bounded reads\<close>

record CcelTable =
  log_area_minimum_length :: u64
  log_area_start_address :: u64

definition ccel_parse :: "bytes \<Rightarrow> ParseLimits \<Rightarrow> CcelTable boot" where
  "ccel_parse bs limits =
     (if length bs \<noteq> 56 \<or> slice bs 0 4 \<noteq> Some (lit ''CCEL'')
      then Inl (Malformed 0 ''invalid CCEL ACPI signature or size'')
      else if le_nat (take 4 (drop 4 bs)) \<noteq> 56 \<or> bs ! 8 \<noteq> 1 \<or> foldl (+) 0 bs \<noteq> 0
         \<or> take 4 (drop 36 bs) \<noteq> [2, 0, 0, 0]
      then Inl (Malformed 4 ''invalid CCEL ACPI length, revision, checksum or TDX type'')
      else
        let len = of_nat (le_nat (take 8 (drop 40 bs))) :: u64;
            start = of_nat (le_nat (take 8 (drop 48 bs))) :: u64 in
        if len = 0 \<or> unat len > max_log_bytes limits then Inl (Limit ''CCEL log area'')
        else bindR (ok_or (checked_add start len) (Limit ''CCEL physical address'')) (\<lambda>_.
        Inr \<lparr>log_area_minimum_length = len, log_area_start_address = start\<rparr>))"

text \<open>The file system is a parameter: the content of a path, or the I/O error of opening or reading it.\<close>

definition read_bounded :: "(string \<Rightarrow> bytes boot) \<Rightarrow> string \<Rightarrow> nat \<Rightarrow> bytes boot" where
  "read_bounded fs path mx =
     bindR (ok_or (usize_checked_add mx 1) (Limit ''file bytes'')) (\<lambda>limit.
     bindR (fs path) (\<lambda>content.
     let bs = take limit content in
     if length bs > mx then Inl (Limit ''file bytes'') else Inr bs))"

definition read_tpm_event_log :: "(string \<Rightarrow> bytes boot) \<Rightarrow> string \<Rightarrow> ParseLimits \<Rightarrow> EventLog boot" where
  "read_tpm_event_log fs path limits =
     bindR (read_bounded fs path (max_log_bytes limits)) (\<lambda>bs. parse_tcg2 bs limits)"

definition read_tdx_ccel ::
  "(string \<Rightarrow> bytes boot) \<Rightarrow> string \<Rightarrow> string \<Rightarrow> ParseLimits \<Rightarrow> EventLog boot" where
  "read_tdx_ccel fs table_path data_path limits =
     bindR (read_bounded fs table_path 56) (\<lambda>t.
     bindR (ccel_parse t limits) (\<lambda>table.
     bindR (read_bounded fs data_path (max_log_bytes limits)) (\<lambda>data.
     if length data < unat (log_area_minimum_length table)
     then Inl (Malformed (length data) ''CCEL data shorter than ACPI log area'')
     else parse_tdx_ccel data limits)))"

text \<open>The string literals of the code as bytes, for evaluation.\<close>

lemma cmdline_literals [code_unfold]:
  "lit ''systemd.verity=0'' = [115, 121, 115, 116, 101, 109, 100, 46, 118, 101, 114, 105, 116, 121, 61, 48]"
  "lit ''systemd.verity=no'' = [115, 121, 115, 116, 101, 109, 100, 46, 118, 101, 114, 105, 116, 121, 61, 110, 111]"
  "lit ''systemd.verity=false'' = [115, 121, 115, 116, 101, 109, 100, 46, 118, 101, 114, 105, 116, 121, 61, 102, 97, 108, 115, 101]"
  "lit ''systemd.verity=off'' = [115, 121, 115, 116, 101, 109, 100, 46, 118, 101, 114, 105, 116, 121, 61, 111, 102, 102]"
  "lit ''rd.systemd.verity=0'' = [114, 100, 46, 115, 121, 115, 116, 101, 109, 100, 46, 118, 101, 114, 105, 116, 121, 61, 48]"
  "lit ''rd.systemd.verity=no'' = [114, 100, 46, 115, 121, 115, 116, 101, 109, 100, 46, 118, 101, 114, 105, 116, 121, 61, 110, 111]"
  "lit ''rd.systemd.verity=false'' = [114, 100, 46, 115, 121, 115, 116, 101, 109, 100, 46, 118, 101, 114, 105, 116, 121, 61, 102, 97, 108, 115, 101]"
  "lit ''rd.systemd.verity=off'' = [114, 100, 46, 115, 121, 115, 116, 101, 109, 100, 46, 118, 101, 114, 105, 116, 121, 61, 111, 102, 102]"
  "lit ''roothash='' = [114, 111, 111, 116, 104, 97, 115, 104, 61]"
  "lit ''--'' = [45, 45]"
  "lit ''kernel_cmdline: '' = [107, 101, 114, 110, 101, 108, 95, 99, 109, 100, 108, 105, 110, 101, 58, 32]"
  by simp_all

section \<open>Which command lines are accepted\<close>

text \<open>The arguments the kernel sees, up to the first \<open>--\<close>.\<close>

definition kernel_arguments :: "str \<Rightarrow> str list" where
  "kernel_arguments s = takeWhile (\<lambda>t. t \<noteq> lit ''--'') (split_ascii_whitespace s)"

definition is_roothash :: "str \<Rightarrow> bool" where
  "is_roothash t \<longleftrightarrow> strip_prefix t (lit ''roothash='') \<noteq> None"

lemma roothash_tokens_Inr_iff:
  "roothash_tokens P root ts = Inr r \<longleftrightarrow>
     (let args = takeWhile (\<lambda>t. t \<noteq> lit ''--'') ts in
      (\<forall>t \<in> set args. t \<notin> set verity_disabled_tokens) \<and>
      ((filter is_roothash args = [] \<and> r = root) \<or>
       (\<exists>enc d. filter is_roothash args = [lit ''roothash='' @ enc] \<and> root = None \<and>
          hex_decode P enc = Some d \<and> r = Some d)))"
proof (induction P root ts rule: roothash_tokens.induct)
  case (2 P root t ts)
  show ?case
  proof (cases "strip_prefix t (lit ''roothash='')")
    case None
    with 2 show ?thesis by (auto simp: is_roothash_def Let_def)
  next
    case (Some enc)
    then have t: "t = lit ''roothash='' @ enc" and rt: "is_roothash t"
      by (simp_all add: strip_prefix_Some_iff is_roothash_def)
    have "t \<noteq> lit ''--''" using t by auto
    moreover have "t \<notin> set verity_disabled_tokens" using t by (auto simp: verity_disabled_tokens_def)
    ultimately show ?thesis
      using 2 Some rt t by (cases root) (auto simp: result_simps Let_def filter_empty_conv)
  qed
qed auto

lemma verify_dm_verity_Inr_iff:
  "verify_dm_verity P m root = Inr c \<longleftrightarrow>
     length root \<in> {32, 48, 64} \<and>
     (\<forall>x \<in> set (chars (mc_command_line m)). \<not> unsupported_char x) \<and>
     (\<forall>t \<in> set (kernel_arguments (mc_command_line m)). t \<notin> set verity_disabled_tokens) \<and>
     (\<exists>enc. filter is_roothash (kernel_arguments (mc_command_line m)) = [lit ''roothash='' @ enc] \<and>
        hex_decode P enc = Some root) \<and>
     c = \<lparr>dv_event_index = mc_event_index m, measurement_algorithm = mc_algorithm m,
          root_digest_hex = hex_encode P root, dv_command_line = mc_command_line m\<rparr>"
  by (auto simp: verify_dm_verity_def kernel_arguments_def result_simps roothash_tokens_Inr_iff Let_def
        simp del: list.map)

section \<open>The accepted text is the measured preimage\<close>

definition measured_form :: "CommandLineProfile \<Rightarrow> str \<Rightarrow> bytes" where
  "measured_form profile s =
     (if profile = SystemdLoadOptions then words_le (utf16_encode (chars s) @ [0]) else s)"

lemma load_options_text_measured:
  assumes "load_options_text P v n a data = Inr s"
  shows "measured_form SystemdLoadOptions s = data" and "verify_measured_bytes P v n a data = Inr ()"
proof -
  obtain cs where m: "verify_measured_bytes P v n a data = Inr ()"
    and len: "\<not> (length data < 2 \<or> length data mod 2 \<noteq> 0)"
    and last: "last (le_words data) = 0"
    and cs: "utf16_decode (butlast (le_words data)) = Some cs" "s = utf8_encode cs"
    using assms by (auto simp: load_options_text_def Let_def result_simps)
  have "le_words data \<noteq> []"
    using len by (cases data rule: le_words.cases) auto
  then have "butlast (le_words data) @ [0] = le_words data"
    using last by (metis append_butlast_last_id)
  moreover have "utf16_encode (chars s) = butlast (le_words data)"
    using utf16_decode_sound [OF cs(1)] by (simp add: cs(2))
  moreover have "words_le (le_words data) = data"
    using len by (intro words_le_le_words) presburger
  ultimately show "measured_form SystemdLoadOptions s = data"
    by (simp add: measured_form_def)
  show "verify_measured_bytes P v n a data = Inr ()" by (rule m)
qed

lemma grub_text_measured:
  assumes "grub_text P v n a data = Inr s"
  shows "data = lit ''kernel_cmdline: '' @ s @ [0]" and "verify_measured_bytes P v n a s = Inr ()"
  using assms
  by (auto simp: grub_text_def result_simps strip_suffix_Some_iff strip_prefix_Some_iff from_utf8_Some_iff)

lemma authenticated_command_line_measured:
  assumes "authenticated_command_line P v n a profile = Inr m"
  shows "mc_event_index m = n \<and> mc_algorithm m = a \<and> mc_profile m = profile \<and>
    0 \<notin> set (mc_command_line m) \<and>
    (\<exists>d. authenticated_digest v n a = Inr d \<and> hash P a (measured_form profile (mc_command_line m)) = Inr d)"
proof -
  obtain e :: Event and s where p: "profile \<noteq> SystemdUkiEmbedded"
    and s: "(if profile = Grub then grub_text P v n a (untrusted_event_data e)
        else load_options_text P v n a (untrusted_event_data e)) = Inr s" "0 \<notin> set s"
    and "Inr \<lparr>mc_event_index = n, mc_algorithm = a, mc_profile = profile, mc_command_line = s\<rparr> =
      (Inr m :: MeasuredCommandLine boot)"
    using assms unfolding authenticated_command_line_def Let_def
    by - (elim result_elims, (rule that; assumption))
  then have m: "m = \<lparr>mc_event_index = n, mc_algorithm = a, mc_profile = profile, mc_command_line = s\<rparr>"
    by simp
  have "verify_measured_bytes P v n a (measured_form profile s) = Inr ()"
  proof (cases profile)
    case Grub
    then show ?thesis using s(1) grub_text_measured(2) by (simp add: measured_form_def)
  next
    case SystemdLoadOptions
    then show ?thesis using s(1) load_options_text_measured by simp
  qed (use p in simp)
  then show ?thesis
    using s(2) by (simp add: m verify_measured_bytes_Inr_iff)
qed

section \<open>Reads and the ACPI table\<close>

text \<open>A bounded read gives the whole file or an error, never a truncated file.\<close>

lemma read_bounded_Inr_iff:
  "read_bounded fs path mx = Inr bs \<longleftrightarrow> mx + 1 < 2 ^ 64 \<and> fs path = Inr bs \<and> length bs \<le> mx"
  by (auto simp: read_bounded_def usize_checked_add_def ok_or_def Let_def result_simps min_def
        split: if_splits)

lemma foldl_plus: "foldl (+) a bs = a + sum_list bs" for a :: "'a::comm_monoid_add"
  by (induction bs arbitrary: a) (simp_all add: ac_simps)

lemma ccel_parse_bounds:
  assumes "ccel_parse bs limits = Inr t"
  shows "length bs = 56 \<and> 0 < unat (log_area_minimum_length t) \<and>
    unat (log_area_minimum_length t) \<le> max_log_bytes limits \<and>
    unat (log_area_start_address t) + unat (log_area_minimum_length t) < 2 ^ 64 \<and>
    sum_list bs = 0"
  using assms
  by (auto simp: ccel_parse_def Let_def result_simps checked_add_Some_iff unat_gt_0 foldl_plus
        simp del: list.map)

section \<open>Properties\<close>

definition demo_root :: bytes where
  "demo_root = replicate 32 7"

definition demo_cmdline :: str where
  "demo_cmdline = lit ''quiet roothash='' @ demo_hex_encode demo_root @ lit '' -- roothash=00''"

lemma demo_cmdline_code [code]:
  "demo_cmdline = [113, 117, 105, 101, 116, 32, 114, 111, 111, 116, 104, 97, 115, 104, 61, 48, 55, 48, 55, 48, 55, 48, 55, 48, 55, 48, 55, 48, 55, 48, 55, 48, 55, 48, 55, 48, 55, 48, 55, 48, 55, 48, 55, 48, 55, 48, 55, 48, 55, 48, 55, 48, 55, 48, 55, 48, 55, 48, 55, 48, 55, 48, 55, 48, 55, 48, 55, 48, 55, 48, 55, 48, 55, 48, 55, 48, 55, 48, 55, 32, 45, 45, 32, 114, 111, 111, 116, 104, 97, 115, 104, 61, 48, 48]"
  by code_simp

definition demo_boot :: VerifiedBootLog where
  "demo_boot = \<lparr>vb_log = \<lparr>log_kind = TdxCcel, log_algorithms = [(TPM_ALG_SHA384, 48)],
      log_events = [\<lparr>ev_offset = 65, register_index = 3, reported_event_type = EV_IPL,
        digests = [(TPM_ALG_SHA384, demo_digest 48 demo_cmdline)],
        untrusted_event_data = lit ''kernel_cmdline: '' @ demo_cmdline @ [0]\<rparr>],
      consumed_bytes = 300\<rparr>, vb_covered = [(TPM_ALG_SHA384, 2)]\<rparr>"

definition demo_commitment :: DmVerityCommitment where
  "demo_commitment = \<lparr>dv_event_index = 0, measurement_algorithm = TPM_ALG_SHA384,
     root_digest_hex = demo_hex_encode demo_root, dv_command_line = demo_cmdline\<rparr>"

lemma demo_dm_verity:
  "verify_dm_verity demo_prims \<lparr>mc_event_index = 0, mc_algorithm = TPM_ALG_SHA384, mc_profile = Grub,
     mc_command_line = demo_cmdline\<rparr> demo_root = Inr demo_commitment"
  by code_simp

lemma demo_verified_dm_verity:
  "verified_dm_verity demo_prims demo_boot 0 TPM_ALG_SHA384 Grub demo_root = Inr demo_commitment"
  by code_simp

text \<open>C8. A measured command line commits to a dm-verity root exactly when it has no quoting, escape
  or control character, no argument before \<open>--\<close> disables verity, and exactly one argument before
  \<open>--\<close> is a \<open>roothash=\<close>, whose hex value is the expected digest of 32, 48 or 64 bytes.\<close>

theorem dm_verity_exact:
  "verify_dm_verity P m root = Inr c \<longleftrightarrow>
     length root \<in> {32, 48, 64} \<and>
     (\<forall>x \<in> set (chars (mc_command_line m)). \<not> unsupported_char x) \<and>
     (\<forall>t \<in> set (kernel_arguments (mc_command_line m)). t \<notin> set verity_disabled_tokens) \<and>
     (\<exists>enc. filter is_roothash (kernel_arguments (mc_command_line m)) = [lit ''roothash='' @ enc] \<and>
        hex_decode P enc = Some root) \<and>
     c = \<lparr>dv_event_index = mc_event_index m, measurement_algorithm = mc_algorithm m,
          root_digest_hex = hex_encode P root, dv_command_line = mc_command_line m\<rparr>"
  by (rule verify_dm_verity_Inr_iff)

theorem dm_verity_exact_witness:
  "\<exists>enc. filter is_roothash (kernel_arguments demo_cmdline) = [lit ''roothash='' @ enc] \<and>
     demo_hex_decode enc = Some demo_root"
  using dm_verity_exact [THEN iffD1, OF demo_dm_verity] by (auto simp: demo_prims_def)

text \<open>C9. A dm-verity commitment read off a verified log is authenticated end to end: the bytes whose
  hash is the authenticated digest of the event are the command line it quotes (as UTF-8 for GRUB, as
  terminated UTF-16 for systemd-boot), and this command line has one root hash, the expected one.\<close>

theorem verified_dm_verity_sound:
  assumes "verified_dm_verity P v n a profile root = Inr c"
  shows "(\<exists>d. authenticated_digest v n a = Inr d \<and>
       hash P a (measured_form profile (dv_command_line c)) = Inr d) \<and>
    (\<exists>enc. filter is_roothash (kernel_arguments (dv_command_line c)) = [lit ''roothash='' @ enc] \<and>
       hex_decode P enc = Some root) \<and>
    dv_event_index c = n \<and> measurement_algorithm c = a \<and> root_digest_hex c = hex_encode P root"
proof -
  obtain m where m: "authenticated_command_line P v n a profile = Inr m"
    and c: "verify_dm_verity P m root = Inr c"
    using assms by (auto simp: verified_dm_verity_def result_simps)
  show ?thesis
    using authenticated_command_line_measured [OF m] c
    by (auto simp: verify_dm_verity_Inr_iff simp del: list.map)
qed

theorem verified_dm_verity_sound_witness:
  "\<exists>d. authenticated_digest demo_boot 0 TPM_ALG_SHA384 = Inr d \<and>
     hash demo_prims TPM_ALG_SHA384 (measured_form Grub demo_cmdline) = Inr d"
  using verified_dm_verity_sound [OF demo_verified_dm_verity] by (simp add: demo_commitment_def)

end
