(* ===== verification/Boot_Runtime.thy ===== *)
theory Boot_Runtime
  imports Boot_Replay
begin

text \<open>
  Application events measured into RTMR3 (\<open>v2/src/boot/runtime.rs\<close>): the policy of expected events,
  their verification against the four authenticated RTMRs, and the collector's concatenation of a
  firmware log with an application log.
\<close>

datatype RuntimeProfile = CocoAaelTcg2

record RuntimePolicy =
  rp_profile :: RuntimeProfile
  expected_events :: "RuntimeEvent list"

definition runtime_policy_validate :: "RuntimePolicy \<Rightarrow> unit boot" where
  "runtime_policy_validate policy =
     (if length (expected_events policy) > max_events default_limits
      then Inl (Limit ''runtime policy event count'')
      else bindR (foldR (\<lambda>bs event. bindR (runtime_event_validate event) (\<lambda>_.
             Inr (runtime_event_bytes bs event))) 0 (expected_events policy)) (\<lambda>bs.
      if bs > max_log_bytes default_limits then Inl (Limit ''runtime policy bytes'') else Inr ()))"

record VerifiedRuntimeLog =
  vr_profile :: RuntimeProfile
  vr_events :: "RuntimeEvent list"
  vr_event_indices :: "nat list"
  vr_rtmr3_hex :: str

definition runtime_step ::
  "prims \<Rightarrow> VerifiedBootLog \<Rightarrow> RuntimeEvent list \<times> nat list \<Rightarrow> nat \<times> Event \<Rightarrow> (RuntimeEvent list \<times> nat list) boot" where
  "runtime_step P verified = (\<lambda>(records, indices) (index, event).
     if register_index event \<noteq> 4 then Inr (records, indices)
     else bindR (parse_aael event) (\<lambda>rec.
     bindR (authenticated_digest verified index TPM_ALG_SHA384) (\<lambda>d.
     bindR (hash P TPM_ALG_SHA384 (untrusted_event_data event)) (\<lambda>h.
     if d \<noteq> h then Inl (ContentMismatch index)
     else Inr (records @ [rec], indices @ [index])))))"

definition verify_tdx_runtime ::
  "prims \<Rightarrow> EventLog \<Rightarrow> AuthenticatedRegisters \<Rightarrow> RuntimePolicy \<Rightarrow> (VerifiedBootLog \<times> VerifiedRuntimeLog) boot" where
  "verify_tdx_runtime P l expected policy =
     bindR (runtime_policy_validate policy) (\<lambda>_.
     if log_kind l \<noteq> TdxCcel \<or> ar_kind expected \<noteq> TdxCcel then Inl PlatformMismatch
     else if length (ar_values expected) \<noteq> 4
        \<or> (\<exists>i \<in> set [0, 1, 2, 3]. case bt_get (ar_values expected) (TPM_ALG_SHA384, i) of
              None \<Rightarrow> True | Some d \<Rightarrow> length d \<noteq> 48)
     then Inl (InvalidRegisters ''runtime appraisal requires all four authenticated RTMRs'')
     else bindR (verify_log P l expected) (\<lambda>verified.
     bindR (foldR (runtime_step P verified) ([], []) (enumerate 0 (log_events l))) (\<lambda>(records, indices).
     if records \<noteq> expected_events policy
     then Inl (Runtime ''runtime events differ from exact ordered policy'')
     else bindR (ok_or (bt_get (ar_values expected) (TPM_ALG_SHA384, 3)) (Panic ''index'')) (\<lambda>rtmr3.
     Inr (verified, \<lparr>vr_profile = rp_profile policy, vr_events = records, vr_event_indices = indices,
                     vr_rtmr3_hex = hex_encode P rtmr3\<rparr>)))))"

definition append_coco_aael :: "bytes \<Rightarrow> bytes \<Rightarrow> ParseLimits \<Rightarrow> bytes boot" where
  "append_coco_aael ccel aael limits =
     bindR (parse_tdx_ccel ccel limits) (\<lambda>firmware.
     bindR (ok_or (usize_checked_add (consumed_bytes firmware) (length aael))
              (Limit ''combined log bytes'')) (\<lambda>len.
     if len > max_log_bytes limits then Inl (Limit ''combined log bytes'')
     else bindR (index_range ccel 0 (consumed_bytes firmware)) (\<lambda>kept.
       let combined = kept @ aael in
       bindR (parse_tdx_ccel_with_aael combined limits) (\<lambda>parsed.
       if consumed_bytes parsed \<noteq> length combined
       then Inl (Runtime ''standalone AAEL must contain only complete MRIndex4 records'')
       else bindR (index_range (log_events parsed) (length (log_events firmware)) (length (log_events parsed))) (\<lambda>new.
       if \<exists>e \<in> set new. register_index e \<noteq> 4
       then Inl (Runtime ''standalone AAEL must contain only complete MRIndex4 records'')
       else Inr combined)))))"

section \<open>The encoding of an application event\<close>

definition runtime_event_ok :: "RuntimeEvent \<Rightarrow> bool" where
  "runtime_event_ok r \<longleftrightarrow>
     domain_of r \<noteq> [] \<and> operation_of r \<noteq> [] \<and> content_of r \<noteq> [] \<and>
     (\<forall>c \<in> set (chars (domain_of r)). \<not> is_whitespace c \<and> \<not> is_control c) \<and>
     (\<forall>c \<in> set (chars (operation_of r)). \<not> is_whitespace c \<and> \<not> is_control c) \<and>
     (\<forall>c \<in> set (chars (content_of r)). \<not> is_control c) \<and>
     length (domain_of r) + length (operation_of r) + length (content_of r) + 10 \<le> MAX_RUNTIME_EVENT_BYTES"

lemma saturating_add_gt_iff: "n < 2 ^ 64 - 1 \<Longrightarrow> saturating_add a b > n \<longleftrightarrow> a + b > n"
  by (auto simp: saturating_add_def)

lemma runtime_event_bytes_eq:
  "runtime_event_bytes 0 e =
     min (length (domain_of e) + length (operation_of e) + length (content_of e) + 10) (2 ^ 64 - 1)"
  by (simp add: runtime_event_bytes_def saturating_add_def min_def)

lemma runtime_event_validate_iff: "runtime_event_validate r = Inr u \<longleftrightarrow> runtime_event_ok r"
  by (auto simp: runtime_event_validate_def runtime_event_ok_def runtime_event_bytes_eq)

definition aael_text :: "RuntimeEvent \<Rightarrow> str" where
  "aael_text r = domain_of r @ 32 # operation_of r @ 32 # content_of r"

lemma aael_data_eq: "aael_data r = le_bytes 4 AAEL_TAG @ le_bytes 4 (length (aael_text r)) @ aael_text r"
  by (simp add: aael_data_def aael_text_def Let_def)

definition aael_header :: "Event \<Rightarrow> bool" where
  "aael_header e \<longleftrightarrow>
     register_index e = 4 \<and> reported_event_type e = EV_EVENT_TAG \<and> length (digests e) = 1 \<and>
     (\<exists>d. bt_get (digests e) TPM_ALG_SHA384 = Some d \<and> length d = 48)"

lemma tagged_bytes_iff:
  assumes "length data < 2 ^ 32" and "8 \<le> length data" and "tag < 2 ^ 32"
  shows "le_nat (take 4 data) = tag \<and> le_nat (take 4 (drop 4 data)) = length data - 8 \<longleftrightarrow>
    data = le_bytes 4 tag @ le_bytes 4 (length data - 8) @ drop 8 data" (is "?L \<longleftrightarrow> data = ?R")
proof
  assume ?L
  then have "take 4 data = le_bytes 4 tag" "take 4 (drop 4 data) = le_bytes 4 (length data - 8)"
    using assms(2) le_bytes_le_nat [of "take 4 data" 4] le_bytes_le_nat [of "take 4 (drop 4 data)" 4]
    by simp_all
  moreover have "data = take 4 data @ take 4 (drop 4 data) @ drop 8 data"
    by (metis append_take_drop_id drop_drop numeral_Bit0)
  ultimately show "data = ?R" by simp
next
  assume d: "data = ?R"
  have "take 4 data = le_bytes 4 tag"
    by (subst d) simp
  moreover have "take 4 (drop 4 data) = le_bytes 4 (length data - 8)"
    by (subst d) simp
  ultimately show ?L
    using assms by (simp add: le_nat_le_bytes)
qed

lemma splitn3_three:
  assumes "a \<noteq> []" and "b \<noteq> []" and "d \<noteq> []"
    and "a = (let p = splitn3 c xs in if 0 < length p then p ! 0 else [])"
    and "b = (let p = splitn3 c xs in if 1 < length p then p ! 1 else [])"
    and "d = (let p = splitn3 c xs in if 2 < length p then p ! 2 else [])"
  shows "xs = a @ c # b @ c # d \<and> c \<notin> set a \<and> c \<notin> set b"
proof (cases "split_once c xs")
  case None
  then show ?thesis using assms by (simp add: splitn3_def)
next
  case (Some p)
  obtain u r where p: "p = (u, r)" by (cases p)
  show ?thesis
  proof (cases "split_once c r")
    case None
    then show ?thesis using assms Some by (simp add: splitn3_def p)
  next
    case r: (Some q)
    obtain v w where q: "q = (v, w)" by (cases q)
    have "a = u" "b = v" "d = w"
      using assms Some r by (simp_all add: splitn3_def p q)
    then show ?thesis
      using split_once_SomeD [of c xs u r] split_once_SomeD [of c r v w] Some r by (simp add: p q)
  qed
qed

lemma parse_aael_Inr_iff:
  "parse_aael e = Inr r \<longleftrightarrow>
     aael_header e \<and> untrusted_event_data e = aael_data r \<and>
     length (untrusted_event_data e) \<le> MAX_RUNTIME_EVENT_BYTES \<and>
     utf8_decode (aael_text r) \<noteq> None \<and> 32 \<notin> set (domain_of r) \<and> 32 \<notin> set (operation_of r) \<and>
     runtime_event_ok r" (is "_ \<longleftrightarrow> ?R")
proof
  let ?data = "untrusted_event_data e" and ?n = "\<lambda>i. let p = splitn3 32 (drop 8 (untrusted_event_data e))
    in if i < length p then p ! i else []"
  assume ok: "parse_aael e = Inr r"
  then have hdr: "aael_header e" and len: "8 \<le> length ?data" "length ?data \<le> MAX_RUNTIME_EVENT_BYTES"
    and tag: "le_nat (take 4 ?data) = AAEL_TAG \<and> le_nat (take 4 (drop 4 ?data)) = length ?data - 8"
    and utf: "utf8_decode (drop 8 ?data) \<noteq> None"
    and r: "r = \<lparr>domain_of = ?n 0, operation_of = ?n 1, content_of = ?n 2\<rparr>"
    and val: "runtime_event_validate r = Inr ()"
    by (auto simp: parse_aael_eq aael_header_def Let_def result_simps from_utf8_Some_iff
        split: option.splits if_splits)
  have okr: "runtime_event_ok r"
    using val by (simp add: runtime_event_validate_iff)
  have "drop 8 ?data = domain_of r @ 32 # operation_of r @ 32 # content_of r \<and>
      32 \<notin> set (domain_of r) \<and> 32 \<notin> set (operation_of r)"
    by (rule splitn3_three) (use okr r in \<open>auto simp: runtime_event_ok_def\<close>)
  moreover have "?data = le_bytes 4 AAEL_TAG @ le_bytes 4 (length ?data - 8) @ drop 8 ?data"
    using tag len tagged_bytes_iff [of ?data AAEL_TAG] by simp
  moreover have "length ?data - 8 = length (drop 8 ?data)" by simp
  ultimately show ?R
    using hdr len(2) utf okr by (metis aael_data_eq aael_text_def)
next
  assume R: ?R
  let ?t = "aael_text r"
  have d: "untrusted_event_data e = le_bytes 4 AAEL_TAG @ le_bytes 4 (length ?t) @ ?t"
    using R by (simp add: aael_data_eq)
  have len: "length ?t + 8 \<le> MAX_RUNTIME_EVENT_BYTES"
    using R d by simp
  have "splitn3 32 ?t = [domain_of r, operation_of r, content_of r]"
    using R unfolding aael_text_def by (intro splitn3_join) auto
  moreover have "from_utf8 ?t = Some ?t"
    using R by (simp add: from_utf8_Some_iff)
  moreover have "runtime_event_validate r = Inr ()"
    using R by (simp add: runtime_event_validate_iff)
  moreover have "aael_header e"
    using R by simp
  moreover have eta: "\<lparr>domain_of = domain_of r, operation_of = operation_of r, content_of = content_of r\<rparr> = r"
    by simp
  ultimately show "parse_aael e = Inr r"
    using len by (auto simp: parse_aael_eq aael_header_def d le_nat_le_bytes ok_or_def Let_def eta)
qed

section \<open>Exact ordered events\<close>

text \<open>What \<open>RuntimePolicy::validate\<close> demands, without the loop and its saturating sums.\<close>

definition runtime_event_size :: "RuntimeEvent \<Rightarrow> nat" where
  "runtime_event_size e = length (domain_of e) + length (operation_of e) + length (content_of e) + 10"

definition runtime_policy_ok :: "RuntimePolicy \<Rightarrow> bool" where
  "runtime_policy_ok policy \<longleftrightarrow>
     length (expected_events policy) \<le> max_events default_limits \<and>
     (\<forall>e \<in> set (expected_events policy). runtime_event_ok e) \<and>
     sum_list (map runtime_event_size (expected_events policy)) \<le> max_log_bytes default_limits"

lemma runtime_event_bytes_min:
  "runtime_event_bytes (min n (2 ^ 64 - 1)) e = min (n + runtime_event_size e) (2 ^ 64 - 1)"
  by (simp add: runtime_event_bytes_def runtime_event_size_def saturating_add_def min_def)

lemma runtime_policy_loop:
  "foldR (\<lambda>bs event. bindR (runtime_event_validate event) (\<lambda>_. Inr (runtime_event_bytes bs event)))
     (min n (2 ^ 64 - 1)) es = Inr m \<longleftrightarrow>
   (\<forall>e \<in> set es. runtime_event_ok e) \<and> m = min (n + sum_list (map runtime_event_size es)) (2 ^ 64 - 1)"
proof (induction es arbitrary: n)
  case (Cons e es)
  show ?case
    using Cons.IH [of "n + runtime_event_size e"] runtime_event_bytes_min [of n e]
    by (simp add: result_simps runtime_event_validate_iff add.assoc)
qed auto

lemma runtime_policy_validate_iff: "runtime_policy_validate policy = Inr u \<longleftrightarrow> runtime_policy_ok policy"
  using runtime_policy_loop [of 0 "expected_events policy"]
  by (auto simp: runtime_policy_validate_def runtime_policy_ok_def result_simps default_limits_def)

lemma runtime_step_Inr_iff:
  "runtime_step P v (rs, is) (n, e) = Inr st \<longleftrightarrow>
     (if register_index e = 4
      then \<exists>r. parse_aael e = Inr r \<and>
        authenticated_digest v n TPM_ALG_SHA384 = Inr (sha384 P (untrusted_event_data e)) \<and>
        st = (rs @ [r], is @ [n])
      else st = (rs, is))"
  by (auto simp: runtime_step_def result_simps)

lemma runtime_steps:
  "foldR (runtime_step P v) (rs, is) ies = Inr (rs', is') \<longleftrightarrow>
     is' = is @ map fst (filter (\<lambda>(_, e). register_index e = 4) ies) \<and>
     (\<exists>new. rs' = rs @ new \<and> list_all2 (\<lambda>r (n, e). parse_aael e = Inr r \<and>
        authenticated_digest v n TPM_ALG_SHA384 = Inr (sha384 P (untrusted_event_data e)))
      new (filter (\<lambda>(_, e). register_index e = 4) ies))"
proof (induction ies arbitrary: rs "is")
  case (Cons x ies)
  show ?case
    by (cases x) (auto simp: Cons.IH result_simps runtime_step_Inr_iff list_all2_Cons2 split: if_splits)
qed auto

lemma list_all2_functional:
  "list_all2 (\<lambda>r x. f x = Inr r \<and> Q x) rs xs \<longleftrightarrow> map f xs = map Inr rs \<and> (\<forall>x \<in> set xs. Q x)"
proof (induction xs arbitrary: rs)
  case (Cons x xs)
  show ?case by (cases rs) (auto simp: Cons.IH)
qed auto

text \<open>The loop over the numbered events, stated over the log.\<close>

lemma runtime_loop:
  "foldR (runtime_step P v) ([], []) (enumerate 0 es) = Inr (rs, is) \<longleftrightarrow>
     is = filter (\<lambda>n. register_index (es ! n) = 4) [0..<length es] \<and>
     map parse_aael (filter (\<lambda>e. register_index e = 4) es) = map Inr rs \<and>
     (\<forall>n < length es. register_index (es ! n) = 4 \<longrightarrow>
        authenticated_digest v n TPM_ALG_SHA384 = Inr (sha384 P (untrusted_event_data (es ! n))))"
proof -
  let ?F = "filter (\<lambda>x. register_index (snd x) = 4) (enumerate 0 es)"
  have num: "enumerate 0 es = map (\<lambda>n. (n, es ! n)) [0..<length es]"
    by (rule nth_equalityI) (simp_all add: nth_enumerate_eq)
  have ix: "map fst ?F = filter (\<lambda>n. register_index (es ! n) = 4) [0..<length es]"
    by (simp add: num filter_map comp_def)
  have ev: "map snd ?F = filter (\<lambda>e. register_index e = 4) es"
    using filter_map [of "\<lambda>e. register_index e = 4" snd "enumerate 0 es"] by (simp add: comp_def)
  have "map (\<lambda>x. parse_aael (snd x)) ?F = map parse_aael (map snd ?F)"
    by simp
  also note ev
  finally have pe: "map (\<lambda>x. parse_aael (snd x)) ?F = map parse_aael (filter (\<lambda>e. register_index e = 4) es)" .
  have au: "(\<forall>x \<in> set ?F. authenticated_digest v (fst x) TPM_ALG_SHA384 = Inr (sha384 P (untrusted_event_data (snd x)))) \<longleftrightarrow>
     (\<forall>n < length es. register_index (es ! n) = 4 \<longrightarrow>
        authenticated_digest v n TPM_ALG_SHA384 = Inr (sha384 P (untrusted_event_data (es ! n))))"
    by (auto simp: num)
  show ?thesis
    using ix pe au by (simp add: runtime_steps case_prod_unfold list_all2_functional)
qed

definition four_rtmrs :: "AuthenticatedRegisters \<Rightarrow> bool" where
  "four_rtmrs A \<longleftrightarrow> ar_kind A = TdxCcel \<and> length (ar_values A) = 4 \<and>
     (\<forall>i \<in> {0, 1, 2, 3}. \<exists>d. bt_get (ar_values A) (TPM_ALG_SHA384, i) = Some d \<and> length d = 48)"

lemma verify_tdx_runtime_Inr_iff:
  "verify_tdx_runtime P l A policy = Inr (v, r) \<longleftrightarrow>
     runtime_policy_ok policy \<and> log_kind l = TdxCcel \<and> four_rtmrs A \<and> verify_log P l A = Inr v \<and>
     map parse_aael (filter (\<lambda>e. register_index e = 4) (log_events l)) = map Inr (expected_events policy) \<and>
     (\<forall>n < length (log_events l). register_index (log_events l ! n) = 4 \<longrightarrow>
       authenticated_digest v n TPM_ALG_SHA384 = Inr (sha384 P (untrusted_event_data (log_events l ! n)))) \<and>
     vr_profile r = rp_profile policy \<and> vr_events r = expected_events policy \<and>
     vr_event_indices r = filter (\<lambda>n. register_index (log_events l ! n) = 4) [0..<length (log_events l)] \<and>
     vr_rtmr3_hex r = hex_encode P (the (bt_get (ar_values A) (TPM_ALG_SHA384, 3)))"
proof -
  have guard: "\<not> (length (ar_values A) \<noteq> 4
        \<or> (\<exists>i \<in> set [0, 1, 2, 3]. case bt_get (ar_values A) (TPM_ALG_SHA384, i) of
              None \<Rightarrow> True | Some d \<Rightarrow> length d \<noteq> 48)) \<and> ar_kind A = TdxCcel \<longleftrightarrow> four_rtmrs A"
    by (auto simp: four_rtmrs_def split: option.splits)
  obtain p es ix h where r: "r = \<lparr>vr_profile = p, vr_events = es, vr_event_indices = ix, vr_rtmr3_hex = h\<rparr>"
    by (cases r)
  show ?thesis
    unfolding verify_tdx_runtime_def bindR_Inr_iff if_Inl_eq_Inr_iff ok_or_Inr_iff runtime_policy_validate_iff
      split_paired_Ex prod.case runtime_loop
    using guard by (auto simp: r four_rtmrs_def)
qed

section \<open>Appending application events\<close>

text \<open>A reader is local when it depends only on the bytes up to where it stops.\<close>

locale local_reader = reader +
  assumes reads_local: "rd c = Inr (x, c') \<Longrightarrow> take (cur_offset c') b = take (cur_offset c') (cur_bytes c) \<Longrightarrow>
    rd (c\<lparr>cur_bytes := b\<rparr>) = Inr (x, c'\<lparr>cur_bytes := b\<rparr>)"
begin

lemma reads_local_upto:
  assumes "rd c = Inr (x, c')" and "cur_offset c' \<le> n" and "take n b = take n (cur_bytes c)"
  shows "rd (c\<lparr>cur_bytes := b\<rparr>) = Inr (x, c'\<lparr>cur_bytes := b\<rparr>)"
proof -
  have "take (cur_offset c') b = take (cur_offset c') (cur_bytes c)"
    using assms(2,3) by (metis min.absorb1 take_take)
  with assms(1) show ?thesis by (rule reads_local)
qed

end

lemma cursor_take_local:
  assumes "cursor_take n c = Inr (v, c')" and "take (cur_offset c') b = take (cur_offset c') (cur_bytes c)"
  shows "cursor_take n (c\<lparr>cur_bytes := b\<rparr>) = Inr (v, c'\<lparr>cur_bytes := b\<rparr>)"
proof -
  have c': "c' = c\<lparr>cur_offset := cur_offset c + n\<rparr>" and v: "v = take n (drop (cur_offset c) (cur_bytes c))"
    and len: "cur_offset c + n < 2 ^ 64" "cur_offset c + n \<le> length (cur_bytes c)"
    using assms(1) by (simp_all add: cursor_take_Inr_iff)
  have t: "take (cur_offset c + n) b = take (cur_offset c + n) (cur_bytes c)"
    using assms(2) by (simp add: c')
  then have "min (length b) (cur_offset c + n) = cur_offset c + n"
    using len(2) by (metis length_take min.absorb2 min.commute)
  moreover have "take n (drop (cur_offset c) b) = v"
    using t unfolding v by (metis take_drop add.commute)
  ultimately show ?thesis
    using len by (simp add: cursor_take_Inr_iff c')
qed

interpretation take_local: local_reader "cursor_take n" n for n
  by unfold_locales (rule cursor_take_local)

interpretation u16_local: local_reader cursor_u16 2
  by unfold_locales (auto simp: cursor_u16_eq result_simps dest: cursor_take_local)

interpretation u32_local: local_reader cursor_u32 4
  by unfold_locales (auto simp: cursor_u32_eq result_simps dest: cursor_take_local)

interpretation u8_local: local_reader cursor_u8 1
  by unfold_locales (auto simp: cursor_u8_eq result_simps dest: cursor_take_local)

lemma parse_digests_local:
  "parse_digests as n ds c = Inr (es, c') \<Longrightarrow> cur_offset c \<le> length (cur_bytes c) \<Longrightarrow>
   take m b = take m (cur_bytes c) \<Longrightarrow> cur_offset c' \<le> m \<Longrightarrow>
   parse_digests as n ds (c\<lparr>cur_bytes := b\<rparr>) = Inr (es, c'\<lparr>cur_bytes := b\<rparr>)"
proof (induction as n ds c rule: parse_digests.induct)
  case (2 as n ds c)
  then obtain a c1 z d c2 where rd: "cursor_u16 c = Inr (a, c1)" "bt_get as a = Some z"
      "cursor_take z c1 = Inr (d, c2)" and new: "bt_get ds a = None"
    and rest: "parse_digests as n (bt_insert a d ds) c2 = Inr (es, c')"
    by (auto simp: result_simps split: if_splits)
  have r: "reads_within 0 c2 c'"
    using rest take_reader.rd_bound [OF rd(3)] by (rule parse_digests_reads)
  have le: "cur_offset c2 \<le> m" "cur_offset c1 \<le> m"
    using r take_reader.rd_progress [OF rd(3)] "2.prems"(4) by (simp_all add: reads_within_def)
  have b: "cur_bytes c1 = cur_bytes c" "cur_bytes c2 = cur_bytes c"
    using u16_reader.rd_bytes [OF rd(1)] take_reader.rd_bytes [OF rd(3)] by simp_all
  have "cursor_u16 (c\<lparr>cur_bytes := b\<rparr>) = Inr (a, c1\<lparr>cur_bytes := b\<rparr>)"
    using rd(1) le(2) "2.prems"(3) by (rule u16_local.reads_local_upto)
  moreover have "cursor_take z (c1\<lparr>cur_bytes := b\<rparr>) = Inr (d, c2\<lparr>cur_bytes := b\<rparr>)"
    using rd(3) le(1) "2.prems"(3) unfolding b(1) [symmetric] by (rule take_local.reads_local_upto)
  moreover have "parse_digests as n (bt_insert a d ds) (c2\<lparr>cur_bytes := b\<rparr>) = Inr (es, c'\<lparr>cur_bytes := b\<rparr>)"
    using "2.IH" [OF rd(1) refl _ rd(3) refl] rd(2) new rest take_reader.rd_bound [OF rd(3)] "2.prems"(3,4)
    by (simp add: ok_or_def b)
  ultimately show ?case
    using rd(2) new by (simp add: ok_or_def)
qed simp

lemma parse_event_local:
  assumes "parse_event kind limits False as c = Inr (e, c')"
    and m: "take m b = take m (cur_bytes c)" "cur_offset c' \<le> m" and kind: "kind = TdxCcel"
  shows "parse_event kind limits True as (c\<lparr>cur_bytes := b\<rparr>) = Inr (e, c'\<lparr>cur_bytes := b\<rparr>)"
proof -
  obtain r c1 t c2 n c3 ds c4 z c5 d c6 u where
    1: "cursor_u32 c = Inr (r, c1)"
    and r: "\<not> ((kind = Tpm2 \<and> 23 < r) \<or> (kind = TdxCcel \<and> (if False then 4 else 3) < r))"
    and 2: "cursor_u32 c1 = Inr (t, c2)" and 3: "cursor_u32 c2 = Inr (n, c3)"
    and n: "\<not> (n = 0 \<or> length as < unat n)"
    and 4: "parse_digests as (unat n) [] c3 = Inr (ds, c4)"
    and 5: "cursor_u32 c4 = Inr (z, c5)" and z: "\<not> max_event_bytes limits < unat z"
    and 6: "cursor_take (unat z) c5 = Inr (d, c6)"
    and k: "\<not> (kind = TdxCcel \<and> bt_get ds TPM_ALG_SHA384 = None)"
    and e: "\<lparr>ev_offset = cur_offset c, register_index = r, reported_event_type = t,
                digests = ds, untrusted_event_data = d\<rparr> = e" "c6 = c'"
    and ael: "(if kind = TdxCcel \<and> r = 4 then bindR (parse_aael
      \<lparr>ev_offset = cur_offset c, register_index = r, reported_event_type = t,
       digests = ds, untrusted_event_data = d\<rparr>) (\<lambda>_. Inr ()) else Inr ()) = Inr u"
    using assms(1) unfolding parse_event_def Let_def
    by - (elim result_elims, (rule that; assumption))
  have dg: "reads_within 0 c3 c4"
    using 4 u32_reader.rd_bound [OF 3] by (rule parse_digests_reads)
  have bs: "cur_bytes c1 = cur_bytes c" "cur_bytes c2 = cur_bytes c" "cur_bytes c3 = cur_bytes c"
      "cur_bytes c4 = cur_bytes c" "cur_bytes c5 = cur_bytes c"
    using u32_reader.rd_bytes [OF 1] u32_reader.rd_bytes [OF 2] u32_reader.rd_bytes [OF 3]
      u32_reader.rd_bytes [OF 5] dg by (simp_all add: reads_within_def)
  have le: "cur_offset c6 \<le> m" "cur_offset c5 \<le> m" "cur_offset c4 \<le> m" "cur_offset c3 \<le> m"
      "cur_offset c2 \<le> m" "cur_offset c1 \<le> m"
    using u32_reader.rd_progress [OF 2] u32_reader.rd_progress [OF 3] u32_reader.rd_progress [OF 5]
      take_reader.rd_progress [OF 6] dg m(2) e(2) by (simp_all add: reads_within_def)
  have dgl: "parse_digests as (unat n) [] (c3\<lparr>cur_bytes := b\<rparr>) = Inr (ds, c4\<lparr>cur_bytes := b\<rparr>)"
    using 4 u32_reader.rd_bound [OF 3] m(1) le(3) by (intro parse_digests_local) (simp_all add: bs)
  note located = u32_local.reads_local_upto [OF 1 le(6)] u32_local.reads_local_upto [OF 2 le(5)]
    u32_local.reads_local_upto [OF 3 le(4)] u32_local.reads_local_upto [OF 5 le(2)]
    take_local.reads_local_upto [OF 6 le(1)]
  have r4: "\<not> (4 < r)" "r \<noteq> 4"
    using r kind by (auto simp: word_less_nat_alt)
  show ?thesis
    using n z k e m(1) kind r4 by (auto simp: parse_event_def located bs dgl Let_def)
qed

lemma parse_algorithms_any_outer:
  "parse_algorithms c n as s = Inr r \<Longrightarrow> parse_algorithms c1 n as s = Inr r"
  by (induction c n as s rule: parse_algorithms.induct) (auto simp: result_simps Let_def)

lemma parse_spec_local:
  assumes "parse_spec kind limits c = Inr (as, c')"
    and m: "take m b = take m (cur_bytes c)" "cur_offset c' \<le> m"
  shows "parse_spec kind limits (c\<lparr>cur_bytes := b\<rparr>) = Inr (as, c'\<lparr>cur_bytes := b\<rparr>)"
proof -
  obtain i c1 t c2 dg c3 l c4 sp c5 sig s1 pc s2 minor s3 major s4 er s5 uintn s6 count s7 as' s8 vl s9 vd s10 where
    1: "cursor_u32 c = Inr (i, c1)"
    and i: "\<not> (kind = Tpm2 \<and> i \<noteq> 0 \<or> kind = TdxCcel \<and> 1 < i)"
    and 2: "cursor_u32 c1 = Inr (t, c2)" and t: "\<not> t \<noteq> EV_NO_ACTION"
    and 3: "cursor_take 20 c2 = Inr (dg, c3)" and dg: "\<not> (\<exists>b \<in> set dg. b \<noteq> 0)"
    and 4: "cursor_u32 c3 = Inr (l, c4)" and l: "\<not> max_event_bytes limits < unat l"
    and 5: "cursor_take (unat l) c4 = Inr (sp, c5)"
    and s: "cursor_take 16 \<lparr>cur_bytes = sp, cur_offset = 0\<rparr> = Inr (sig, s1)"
      "\<not> sig \<noteq> lit ''Spec ID Event03'' @ [0]"
      "cursor_u32 s1 = Inr (pc, s2)" "cursor_u8 s2 = Inr (minor, s3)" "cursor_u8 s3 = Inr (major, s4)"
      "cursor_u8 s4 = Inr (er, s5)" "cursor_u8 s5 = Inr (uintn, s6)"
      "\<not> (major \<noteq> 2 \<or> minor \<noteq> 0 \<or> uintn \<notin> {1, 2})"
      "cursor_u32 s6 = Inr (count, s7)"
      "\<not> (count = 0 \<or> max_algorithms limits < unat count)"
    and as: "parse_algorithms c5 (unat count) [] s7 = Inr (as', s8)"
    and v: "cursor_u8 s8 = Inr (vl, s9)" "cursor_take (unat vl) s9 = Inr (vd, s10)"
      "\<not> cur_offset s10 \<noteq> length sp"
      "\<not> (kind = TdxCcel \<and> bt_get as' TPM_ALG_SHA384 \<noteq> Some 48)" "as' = as" "c5 = c'"
    using assms(1) unfolding parse_spec_def Let_def
    by - (elim result_elims, (rule that; assumption))
  have bs: "cur_bytes c1 = cur_bytes c" "cur_bytes c2 = cur_bytes c" "cur_bytes c3 = cur_bytes c"
      "cur_bytes c4 = cur_bytes c"
    using u32_reader.rd_bytes [OF 1] u32_reader.rd_bytes [OF 2] take_reader.rd_bytes [OF 3]
      u32_reader.rd_bytes [OF 4] by simp_all
  have le: "cur_offset c5 \<le> m" "cur_offset c4 \<le> m" "cur_offset c3 \<le> m" "cur_offset c2 \<le> m"
      "cur_offset c1 \<le> m"
    using u32_reader.rd_progress [OF 2] take_reader.rd_progress [OF 3] u32_reader.rd_progress [OF 4]
      take_reader.rd_progress [OF 5] m(2) v(6) by simp_all
  note located = u32_local.reads_local_upto [OF 1 le(5)] u32_local.reads_local_upto [OF 2 le(4)]
    take_local.reads_local_upto [OF 3 le(3)] u32_local.reads_local_upto [OF 4 le(2)]
    take_local.reads_local_upto [OF 5 le(1)]
  show ?thesis
    unfolding parse_spec_def Let_def
    by (simp only: located bs m(1) if_not_P [OF i] if_not_P [OF t] if_not_P [OF dg] if_not_P [OF l]
        s(1,3-7,9) if_not_P [OF s(2)] if_not_P [OF s(8)] if_not_P [OF s(10)]
        parse_algorithms_any_outer [OF as] v(1,2) if_not_P [OF v(3)] if_not_P [OF v(4)] bindR.simps prod.case)
      (simp add: v(5,6))
qed

text \<open>An event that parses does not start with erased bytes.\<close>

lemma parse_event_not_erased:
  assumes "parse_event kind limits aael as c = Inr (e, c')"
  shows "\<exists>x \<in> set (take 4 (drop (cur_offset c) (cur_bytes c))). x \<noteq> 0xff"
proof (rule ccontr)
  let ?v = "take 4 (drop (cur_offset c) (cur_bytes c))"
  obtain r c1 t ds d where r1: "cursor_u32 c = Inr (r, c1)"
    and e: "\<lparr>ev_offset = cur_offset c, register_index = r, reported_event_type = t,
                digests = ds, untrusted_event_data = d\<rparr> = e"
    using assms unfolding parse_event_def Let_def
    by - (elim result_elims, (rule that; assumption))
  have r: "cursor_u32 c = Inr (r, c1)" "register_index e = r"
    using r1 e by auto
  then have v: "r = of_nat (le_nat ?v)" "length ?v = 4"
    by (auto simp: cursor_u32_eq result_simps cursor_take_Inr_iff)
  assume "\<not> ?thesis"
  then have "?v = replicate 4 0xff"
    using v(2) by (metis replicate_length_same)
  then have "r = of_nat (le_nat (replicate 4 0xff))"
    using v(1) by simp
  moreover have "replicate 4 (0xff :: byte) = [0xff, 0xff, 0xff, 0xff]"
    by (simp add: eval_nat_numeral)
  ultimately have "unat r = 0xffffffff" by simp
  moreover have "unat r \<le> 23"
    using parse_event_wf [OF assms] r(2) by (auto simp: event_wf_def split: if_splits)
  ultimately show False by simp
qed

lemma parse_events_reads:
  "parse_events kind limits aael as es c = Inr (fs, c') \<Longrightarrow> cur_offset c \<le> length (cur_bytes c) \<Longrightarrow>
   reads_within 0 c c' \<and> (\<exists>gs. fs = es @ gs)"
proof (induction kind limits aael as es c rule: parse_events_induct)
  case (1 kind limits aael as es c)
  show ?case
  proof (cases "fs = es \<and> c' = c")
    case True
    with "1.prems" show ?thesis by (simp add: reads_within_def)
  next
    case False
    with "1.prems"(1) obtain e c1 where more: "cur_offset c < length (cur_bytes c)"
        "\<not> (kind = TdxCcel \<and> (\<forall>b \<in> set (drop (cur_offset c) (cur_bytes c)). b = 0xff))"
        "\<not> max_events limits \<le> length es"
      and e: "parse_event kind limits aael as c = Inr (e, c1)"
      and rest: "parse_events kind limits aael as (es @ [e]) c1 = Inr (fs, c')"
      by (subst (asm) parse_events_eq) (auto simp: result_simps split: if_splits)
    have "reads_within 0 c1 c' \<and> (\<exists>gs. fs = (es @ [e]) @ gs)"
      using "1.IH" [OF more e refl rest event_reader.rd_bound [OF e]] .
    then show ?thesis
      using event_reader.rd_then [OF e, of 0 c'] by (auto intro: reads_within_weaken)
  qed
qed

lemma parse_events_prefix:
  "parse_events TdxCcel limits False as es c = Inr (fs, c') \<Longrightarrow> cur_offset c \<le> length (cur_bytes c) \<Longrightarrow>
   take (cur_offset c') b = take (cur_offset c') (cur_bytes c) \<Longrightarrow>
   parse_events TdxCcel limits True as es (c\<lparr>cur_bytes := b\<rparr>) =
     parse_events TdxCcel limits True as fs (c'\<lparr>cur_bytes := b\<rparr>)"
proof (induction "TdxCcel" limits "False" as es c rule: parse_events_induct)
  case (1 limits as es c)
  show ?case
  proof (cases "fs = es \<and> c' = c")
    case False
    with "1.prems"(1) obtain e c1 where more: "cur_offset c < length (cur_bytes c)"
        "\<not> (TdxCcel = TdxCcel \<and> (\<forall>b \<in> set (drop (cur_offset c) (cur_bytes c)). b = 0xff))"
        "\<not> max_events limits \<le> length es"
      and e: "parse_event TdxCcel limits False as c = Inr (e, c1)"
      and rest: "parse_events TdxCcel limits False as (es @ [e]) c1 = Inr (fs, c')"
      by (subst (asm) parse_events_eq) (auto simp: result_simps split: if_splits)
    let ?m = "cur_offset c'" and ?cb = "c\<lparr>cur_bytes := b\<rparr>"
    have r: "reads_within 0 c1 c'"
      using parse_events_reads [OF rest event_reader.rd_bound [OF e]] by blast
    have c1: "cur_offset c + 16 \<le> cur_offset c1" "cur_bytes c1 = cur_bytes c"
      using event_reader.rd_progress [OF e] event_reader.rd_bytes [OF e] by simp_all
    have m: "cur_offset c1 \<le> ?m" "?m \<le> length (cur_bytes c)"
      using r c1(2) by (simp_all add: reads_within_def)
    have "length (take ?m b) = ?m"
      unfolding "1.prems"(3) using m(2) by simp
    then have lb: "?m \<le> length b" by simp
    have step: "parse_event TdxCcel limits True as ?cb = Inr (e, c1\<lparr>cur_bytes := b\<rparr>)"
      using e "1.prems"(3) m(1) refl by (rule parse_event_local)
    have lt: "cur_offset ?cb < length (cur_bytes ?cb)"
      using c1(1) m(1) lb by simp
    have area: "\<not> (TdxCcel = TdxCcel \<and> (\<forall>x \<in> set (drop (cur_offset ?cb) (cur_bytes ?cb)). x = 0xff))"
      using parse_event_not_erased [OF step] by (auto dest: in_set_takeD)
    have "parse_events TdxCcel limits True as es ?cb = parse_events TdxCcel limits True as (es @ [e]) (c1\<lparr>cur_bytes := b\<rparr>)"
      by (subst parse_events_eq)
        (simp only: if_P [OF lt] if_not_P [OF area] if_not_P [OF more(3)] step bindR.simps prod.case)
    also have "\<dots> = parse_events TdxCcel limits True as fs (c'\<lparr>cur_bytes := b\<rparr>)"
      using "1.hyps" [OF more e refl rest event_reader.rd_bound [OF e]] "1.prems"(3) c1(2) by simp
    finally show ?thesis .
  qed simp
qed

text \<open>An application event has one digest, so its bytes are determined by what was read: every
  field is printed back as it stood. \<open>read_bytes c c' x\<close> says that a read consumed exactly \<open>x\<close>.\<close>

definition read_bytes :: "cursor \<Rightarrow> cursor \<Rightarrow> bytes \<Rightarrow> bool" where
  "read_bytes c c' x \<longleftrightarrow>
     take (length x) (drop (cur_offset c) (cur_bytes c)) = x \<and> c' = c\<lparr>cur_offset := cur_offset c + length x\<rparr>"

lemma read_bytes_trans: "read_bytes c c1 x \<Longrightarrow> read_bytes c1 c2 y \<Longrightarrow> read_bytes c c2 (x @ y)"
  using take_add [of "length x" "length y" "drop (cur_offset c) (cur_bytes c)"]
  by (auto simp: read_bytes_def add.assoc add.commute)

lemma read_bytes_take: "cursor_take n c = Inr (v, c') \<Longrightarrow> read_bytes c c' v"
  by (auto simp: read_bytes_def cursor_take_Inr_iff)

lemma read_bytes_u32: "cursor_u32 c = Inr (r, c') \<Longrightarrow> read_bytes c c' (le_bytes 4 (unat r))"
proof -
  assume "cursor_u32 c = Inr (r, c')"
  then obtain v where v: "cursor_take 4 c = Inr (v, c')" "r = of_nat (le_nat v)"
    by (auto simp: cursor_u32_eq result_simps)
  have n: "length v = 4" using length_cursor_take [OF v(1)] .
  then have "unat r = le_nat v"
    using le_nat_less [of v] v(2) by (simp add: unat_of_nat_small del: unat_of_nat)
  then show ?thesis
    using read_bytes_take [OF v(1)] le_bytes_le_nat [OF n] by simp
qed

lemma read_bytes_u16: "cursor_u16 c = Inr (r, c') \<Longrightarrow> read_bytes c c' (le_bytes 2 (unat r))"
proof -
  assume "cursor_u16 c = Inr (r, c')"
  then obtain v where v: "cursor_take 2 c = Inr (v, c')" "r = of_nat (le_nat v)"
    by (auto simp: cursor_u16_eq result_simps)
  have n: "length v = 2" using length_cursor_take [OF v(1)] .
  then have "unat r = le_nat v"
    using le_nat_less [of v] v(2) by (simp add: unat_of_nat_small del: unat_of_nat)
  then show ?thesis
    using read_bytes_take [OF v(1)] le_bytes_le_nat [OF n] by simp
qed

lemma read_bytes_one_digest:
  assumes "parse_digests as 1 [] c = Inr (ds, c')"
  shows "read_bytes c c' (concat (map encode_digest ds))"
proof -
  obtain a c1 z d c2 where "cursor_u16 c = Inr (a, c1)" "cursor_take z c1 = Inr (d, c2)"
      "ds = bt_insert a d []" "c' = c2"
    using assms by (auto simp: One_nat_def result_simps simp del: One_nat_def [symmetric])
  then show ?thesis
    using read_bytes_trans [OF read_bytes_u16 read_bytes_take] by (simp add: encode_digest_def)
qed

lemma read_bytes_aael:
  assumes ok: "parse_event TdxCcel limits aael as c = Inr (e, c')" and four: "register_index e = 4"
  shows "read_bytes c c' (encode_event e)"
proof -
  obtain r c1 t c2 n c3 ds c4 z c5 d c6 where
    1: "cursor_u32 c = Inr (r, c1)" and 2: "cursor_u32 c1 = Inr (t, c2)" and 3: "cursor_u32 c2 = Inr (n, c3)"
    and 4: "parse_digests as (unat n) [] c3 = Inr (ds, c4)"
    and 5: "cursor_u32 c4 = Inr (z, c5)" and 6: "cursor_take (unat z) c5 = Inr (d, c6)"
    and e: "\<lparr>ev_offset = cur_offset c, register_index = r, reported_event_type = t,
                digests = ds, untrusted_event_data = d\<rparr> = e" "c6 = c'"
    using ok unfolding parse_event_def Let_def
    by - (elim result_elims, (rule that; assumption))
  have n: "unat n = length ds"
    using parse_digests_wf [OF 4] by (simp add: digests_wf_def)
  have "is_ok (parse_aael e)"
    using parse_event_wf [OF ok] four by (simp add: event_wf_def)
  then have "length ds = 1"
    by (auto simp: is_ok_iff parse_aael_Inr_iff aael_header_def simp flip: e(1))
  then have "read_bytes c3 c4 (concat (map encode_digest ds))"
    using 4 n by (intro read_bytes_one_digest) simp
  note rest = read_bytes_trans [OF this read_bytes_trans [OF read_bytes_u32 [OF 5] read_bytes_take [OF 6]]]
  note all = read_bytes_trans [OF read_bytes_u32 [OF 1] read_bytes_trans [OF read_bytes_u32 [OF 2]
      read_bytes_trans [OF read_bytes_u32 [OF 3] rest]]]
  then show ?thesis
    using n length_cursor_take [OF 6] e(2) by (simp add: encode_event_def flip: e(1))
qed

lemma read_bytes_events:
  "parse_events kind limits aael as es c = Inr (es @ gs, c') \<Longrightarrow> kind = TdxCcel \<Longrightarrow>
   \<forall>e \<in> set gs. register_index e = 4 \<Longrightarrow>
   read_bytes c c' (concat (map encode_event gs)) \<and> offsets_from (cur_offset c) gs"
proof (induction kind limits aael as es c arbitrary: gs rule: parse_events_induct)
  case (1 kind limits aael as es c)
  show ?case
  proof (cases "gs = [] \<and> c' = c")
    case False
    with "1.prems"(1) obtain e c1 where more: "cur_offset c < length (cur_bytes c)"
        "\<not> (kind = TdxCcel \<and> (\<forall>b \<in> set (drop (cur_offset c) (cur_bytes c)). b = 0xff))"
        "\<not> max_events limits \<le> length es"
      and e: "parse_event kind limits aael as c = Inr (e, c1)"
      and rest: "parse_events kind limits aael as (es @ [e]) c1 = Inr (es @ gs, c')"
      by (subst (asm) parse_events_eq) (auto simp: result_simps split: if_splits)
    obtain hs where hs: "gs = e # hs"
      using parse_events_reads [OF rest event_reader.rd_bound [OF e]] by auto
    have "read_bytes c1 c' (concat (map encode_event hs)) \<and> offsets_from (cur_offset c1) hs"
      using "1.IH" [OF more e refl] rest "1.prems"(2,3) by (simp add: hs)
    moreover have rd: "read_bytes c c1 (encode_event e)"
      using read_bytes_aael e "1.prems"(2,3) by (simp add: hs)
    ultimately show ?thesis
      using read_bytes_trans [OF rd] parse_event_wf [OF e] by (auto simp: hs read_bytes_def)
  qed (simp add: read_bytes_def)
qed

lemma algorithms_wf_length: "algorithms_wf as \<Longrightarrow> length as < 2 ^ 32"
proof -
  assume "algorithms_wf as"
  then have "length as = card (set (bt_keys as))"
    using bt.keys_distinct [of as] distinct_card [of "bt_keys as"] by (simp add: algorithms_wf_def)
  also have "\<dots> \<le> CARD(16 word)"
    by (rule card_mono) simp_all
  finally show ?thesis by (simp add: card_word)
qed

text \<open>The records an AAEL area may hold after a firmware log.\<close>

definition aael_records :: "ParseLimits \<Rightarrow> EventLog \<Rightarrow> Event list \<Rightarrow> bool" where
  "aael_records limits fw es \<longleftrightarrow>
     offsets_from (consumed_bytes fw) es \<and> length (log_events fw) + length es \<le> max_events limits \<and>
     (\<forall>e \<in> set es. register_index e = 4 \<and> event_wf TdxCcel limits True (log_algorithms fw) e)"

lemma append_coco_aael_parsed:
  assumes fw: "parse_tdx_ccel ccel limits = Inr fw" and fits: "consumed_bytes fw + length aael \<le> max_log_bytes limits"
  shows "consumed_bytes fw \<le> length ccel \<and> log_kind fw = TdxCcel \<and> log_wf limits False fw \<and>
    parse_tdx_ccel_with_aael (take (consumed_bytes fw) ccel @ aael) limits =
      bindR (parse_events TdxCcel limits True (log_algorithms fw) (log_events fw)
               (cursor_at (take (consumed_bytes fw) ccel) aael)) (\<lambda>(events, c).
      Inr (fw\<lparr>log_events := events, consumed_bytes := cur_offset c\<rparr>))"
proof -
  let ?k = "consumed_bytes fw" and ?b = "take (consumed_bytes fw) ccel @ aael"
  obtain as c fs c' where sp: "parse_spec TdxCcel limits \<lparr>cur_bytes = ccel, cur_offset = 0\<rparr> = Inr (as, c)"
    and fs: "parse_events TdxCcel limits False as [] c = Inr (fs, c')" "fs \<noteq> []"
    and f: "fw = \<lparr>log_kind = TdxCcel, log_algorithms = as, log_events = fs, consumed_bytes = cur_offset c'\<rparr>"
    using fw by (auto simp: parse_tdx_ccel_def parse_def result_simps)
  have c: "cur_bytes c = ccel" "cur_offset c \<le> length (cur_bytes c)"
    using parse_spec_wf [OF sp] by (simp_all add: reads_within_def)
  have r: "cur_offset c \<le> ?k" "?k \<le> length ccel"
    using parse_events_reads [OF fs(1) c(2)] c(1) by (auto simp: f reads_within_def)
  have agree: "take ?k ?b = take ?k ccel" using r(2) by simp
  have sp': "parse_spec TdxCcel limits \<lparr>cur_bytes = ?b, cur_offset = 0\<rparr> = Inr (as, c\<lparr>cur_bytes := ?b\<rparr>)"
    using parse_spec_local [OF sp, of ?k ?b] agree r(1) by simp
  have at: "c'\<lparr>cur_bytes := ?b\<rparr> = cursor_at (take ?k ccel) aael"
    using r(2) by (simp add: cursor_at_def f)
  have ev: "parse_events TdxCcel limits True as [] (c\<lparr>cur_bytes := ?b\<rparr>) =
      parse_events TdxCcel limits True as fs (cursor_at (take ?k ccel) aael)"
    unfolding at [symmetric] using fs(1) c(2) agree by (intro parse_events_prefix) (simp_all add: f c(1))
  have ne: "events \<noteq> []" if "parse_events TdxCcel limits True as fs (cursor_at (take ?k ccel) aael) = Inr (events, c2)" for events c2
    using parse_events_reads [OF that] fs(2) by auto
  have "parse_tdx_ccel_with_aael ?b limits =
      bindR (parse_events TdxCcel limits True as fs (cursor_at (take ?k ccel) aael)) (\<lambda>(events, c).
      if events = [] then Inl (cursor_invalid c ''empty measured event log'')
      else Inr \<lparr>log_kind = TdxCcel, log_algorithms = as, log_events = events, consumed_bytes = cur_offset c\<rparr>)"
    using fits r(2) by (simp add: parse_tdx_ccel_with_aael_def parse_def sp' ev)
  also have "\<dots> = bindR (parse_events TdxCcel limits True as fs (cursor_at (take ?k ccel) aael)) (\<lambda>(events, c).
      Inr (fw\<lparr>log_events := events, consumed_bytes := cur_offset c\<rparr>))"
    using ne by (intro bindR_cong) (auto simp: f)
  finally show ?thesis
    using r(2) parse_log_wf [of ccel TdxCcel limits False fw] fw by (simp add: parse_tdx_ccel_def f)
qed

lemma aael_read_back:
  assumes fw: "parse_tdx_ccel ccel limits = Inr fw" and es: "aael_records limits fw es"
    and fits: "consumed_bytes fw + length (concat (map encode_event es)) \<le> max_log_bytes limits"
      "consumed_bytes fw + length (concat (map encode_event es)) < 2 ^ 64"
  shows "parse_tdx_ccel_with_aael (take (consumed_bytes fw) ccel @ concat (map encode_event es)) limits =
    Inr (fw\<lparr>log_events := log_events fw @ es,
            consumed_bytes := consumed_bytes fw + length (concat (map encode_event es))\<rparr>)"
proof -
  note p = append_coco_aael_parsed [OF fw fits(1)]
  have len: "length (take (consumed_bytes fw) ccel) = consumed_bytes fw"
    using p by simp
  have "parse_events TdxCcel limits True (log_algorithms fw) (log_events fw)
      (cursor_at (take (consumed_bytes fw) ccel) (concat (map encode_event es) @ [])) =
      Inr (log_events fw @ es, cursor_at (take (consumed_bytes fw) ccel @ concat (map encode_event es)) [])"
  proof (rule parse_events_at)
    have "length (untrusted_event_data e) < 2 ^ 32" if "e \<in> set es" for e
    proof -
      have "is_ok (parse_aael e)"
        using es that by (simp add: aael_records_def event_wf_def)
      then show ?thesis by (auto simp: is_ok_iff parse_aael_Inr_iff)
    qed
    then show "\<forall>e \<in> set es. event_wf TdxCcel limits True (log_algorithms fw) e \<and>
        length (untrusted_event_data e) < 2 ^ 32"
      using es by (simp add: aael_records_def)
    show "length (log_algorithms fw) < 2 ^ 32"
      using p algorithms_wf_length by (simp add: log_wf_def)
  qed (use es fits(2) len in \<open>simp_all add: aael_records_def erased_tail_def\<close>)
  then show ?thesis
    using p len by simp
qed

lemma append_coco_aael_Inr_iff:
  assumes fw: "parse_tdx_ccel ccel limits = Inr fw"
  shows "append_coco_aael ccel aael limits = Inr combined \<longleftrightarrow>
    combined = take (consumed_bytes fw) ccel @ aael \<and>
    consumed_bytes fw + length aael \<le> max_log_bytes limits \<and> consumed_bytes fw + length aael < 2 ^ 64 \<and>
    (\<exists>es. aael = concat (map encode_event es) \<and> aael_records limits fw es)" (is "?L \<longleftrightarrow> ?R")
proof
  let ?k = "consumed_bytes fw"
  assume ?L
  then obtain kept pa new where fits: "?k + length aael < 2 ^ 64" "?k + length aael \<le> max_log_bytes limits"
    and kept: "index_range ccel 0 ?k = Inr kept" and c: "combined = kept @ aael"
    and pa: "parse_tdx_ccel_with_aael combined limits = Inr pa" "consumed_bytes pa = length combined"
    and new: "index_range (log_events pa) (length (log_events fw)) (length (log_events pa)) = Inr new"
      "\<forall>e \<in> set new. register_index e = 4"
    by (auto simp: append_coco_aael_def fw result_simps Let_def usize_checked_add_def split: if_splits)
  note p = append_coco_aael_parsed [OF fw fits(2)]
  have k: "kept = take ?k ccel" "length (take ?k ccel) = ?k"
    using kept conjunct1 [OF p] by (auto simp: index_range_eq)
  obtain c2 where ev: "parse_events TdxCcel limits True (log_algorithms fw) (log_events fw)
      (cursor_at (take ?k ccel) aael) = Inr (log_events pa, c2)" and c2: "cur_offset c2 = consumed_bytes pa"
    and as: "log_algorithms pa = log_algorithms fw"
    using p pa(1) by (auto simp: c k(1) result_simps)
  obtain es where es: "log_events pa = log_events fw @ es"
    using parse_events_reads [OF ev] by auto
  have four: "\<forall>e \<in> set es. register_index e = 4"
    using new by (simp add: es index_range_eq)
  have rd: "read_bytes (cursor_at (take ?k ccel) aael) c2 (concat (map encode_event es))" "offsets_from ?k es"
    using read_bytes_events [OF ev [unfolded es] refl four] k(2) by simp_all
  have "aael = concat (map encode_event es)"
    using rd(1) c2 pa(2) k by (auto simp: read_bytes_def c)
  moreover have "log_wf limits True pa" "log_kind pa = TdxCcel"
    using parse_log_wf [of combined TdxCcel limits True pa] pa(1)
    by (simp_all add: parse_tdx_ccel_with_aael_def)
  then have "aael_records limits fw es"
    using rd(2) four as by (auto simp: aael_records_def log_wf_def es)
  ultimately show ?R
    using fits c k(1) by blast
next
  let ?k = "consumed_bytes fw"
  assume R: ?R
  then obtain es where es: "aael = concat (map encode_event es)" "aael_records limits fw es"
    by blast
  have k: "?k \<le> length ccel"
    using append_coco_aael_parsed [OF fw, of aael] R by blast
  show ?L
    using R aael_read_back [OF fw es(2)] k es
    by (simp add: append_coco_aael_def fw ok_or_def usize_checked_add_def in_domain Let_def aael_records_def)
qed

lemma panic_free_append_coco_aael: "panic_free (append_coco_aael ccel aael limits)"
proof -
  have "panic_free (index_range ccel 0 (consumed_bytes fw))"
    if "parse_tdx_ccel ccel limits = Inr fw" for fw
    using parse_log_wf [of ccel TdxCcel limits False fw] that
    by (auto simp: parse_tdx_ccel_def in_domain intro: no_error_intros)
  moreover have "panic_free (index_range (log_events pa) (length (log_events fw)) (length (log_events pa)))"
    if fw: "parse_tdx_ccel ccel limits = Inr fw" and "consumed_bytes fw + length aael \<le> max_log_bytes limits"
      and kept: "index_range ccel 0 (consumed_bytes fw) = Inr kept"
      and pa: "parse_tdx_ccel_with_aael (kept @ aael) limits = Inr pa" for fw kept pa
  proof -
    note p = append_coco_aael_parsed [OF that(1,2)]
    have "kept = take (consumed_bytes fw) ccel"
      using kept conjunct1 [OF p] by (simp add: index_range_eq)
    then obtain c where "parse_events TdxCcel limits True (log_algorithms fw) (log_events fw)
        (cursor_at (take (consumed_bytes fw) ccel) aael) = Inr (log_events pa, c)"
      using p pa by (auto simp: result_simps)
    then have "length (log_events fw) \<le> length (log_events pa)"
      using parse_events_reads by fastforce
    then show ?thesis by (simp add: in_domain never_fails_Inr)
  qed
  moreover have "panic_free (parse_tdx_ccel ccel limits)" "panic_free (parse_tdx_ccel_with_aael b limits)" for b
    by (simp_all add: parse_tdx_ccel_def parse_tdx_ccel_with_aael_def panic_free_parse)
  ultimately show ?thesis
    unfolding append_coco_aael_def Let_def
    by (intro no_error_intros) (auto simp: result_simps usize_checked_add_def split: if_splits)
qed

section \<open>Properties\<close>

definition demo_record :: RuntimeEvent where
  "demo_record = \<lparr>domain_of = [103], operation_of = [112], content_of = [105]\<rparr>"

definition demo_aael :: Event where
  "demo_aael = \<lparr>ev_offset = 135, register_index = 4, reported_event_type = EV_EVENT_TAG,
     digests = [(TPM_ALG_SHA384, demo_digest 48 (aael_data demo_record))],
     untrusted_event_data = aael_data demo_record\<rparr>"

definition demo_full_log :: EventLog where
  "demo_full_log = \<lparr>log_kind = TdxCcel, log_algorithms = [(TPM_ALG_SHA384, 48)],
     log_events = [demo_event, demo_aael], consumed_bytes = 135 + length (encode_event demo_aael)\<rparr>"

definition demo_full_registers :: AuthenticatedRegisters where
  "demo_full_registers = authenticated_tdx
     [replicate 48 7, replicate 48 0, replicate 48 0, demo_digest 48 (replicate 48 0 @ demo_digest 48 (aael_data demo_record))]"

lemma demo_parse_aael: "parse_aael demo_aael = Inr demo_record"
  by code_simp

definition demo_runtime_log :: VerifiedRuntimeLog where
  "demo_runtime_log = \<lparr>vr_profile = CocoAaelTcg2, vr_events = [demo_record], vr_event_indices = [1],
     vr_rtmr3_hex = demo_hex_encode (demo_digest 48 (replicate 48 0 @ demo_digest 48 (aael_data demo_record)))\<rparr>"

lemma demo_runtime:
  "verify_tdx_runtime demo_prims demo_full_log demo_full_registers
     \<lparr>rp_profile = CocoAaelTcg2, expected_events = [demo_record]\<rparr> =
     Inr (\<lparr>vb_log = demo_full_log, vb_covered = map (\<lambda>i. (TPM_ALG_SHA384, i)) [0, 1, 2, 3]\<rparr>, demo_runtime_log)"
  by code_simp

lemma length_demo_aael: "length (encode_event demo_aael) = 79"
  by code_simp

lemma demo_full_log_wf: "log_wf default_limits True demo_full_log"
proof -
  have "event_wf TdxCcel default_limits True [(TPM_ALG_SHA384, 48)] demo_aael"
    using demo_parse_aael
    by (simp add: event_wf_def is_ok_def) (simp add: demo_aael_def bt_invar_def default_limits_def aael_data_def demo_record_def)
  moreover have "event_wf TdxCcel default_limits True [(TPM_ALG_SHA384, 48)] demo_event"
    by (simp add: event_wf_def demo_event_def bt_invar_def default_limits_def)
  ultimately show ?thesis
    by (simp add: log_wf_def demo_full_log_def default_limits_def algorithms_wf_def bt_invar_def
        known_digest_size_def length_demo_aael) (simp add: demo_aael_def demo_event_def)
qed

lemma length_demo_spec:
  "length (encode_spec [(TPM_ALG_SHA384, 48)]) = 65" "length (encode_spec_body [(TPM_ALG_SHA384, 48)]) = 33"
  "length (encode_event demo_event) = 70"
  by (simp_all add: encode_spec_def encode_spec_body_def encode_algorithm_def encode_event_def
      encode_digest_def demo_event_def)

lemma demo_full_log_parses: "parse (encode_log demo_full_log) TdxCcel default_limits True = Inr demo_full_log"
proof -
  have "log_placed demo_full_log"
    by (simp add: log_placed_def demo_full_log_def encode_log_def length_demo_spec length_demo_aael)
      (simp add: demo_event_def demo_aael_def)
  then have "parse (encode_log demo_full_log @ []) (log_kind demo_full_log) default_limits True = Inr demo_full_log"
    by (intro parse_encode_log demo_full_log_wf)
      (simp_all add: erased_tail_def demo_full_log_def encode_log_def length_demo_spec length_demo_aael default_limits_def)
  then show ?thesis by (simp add: demo_full_log_def)
qed

lemma demo_aael_records: "aael_records default_limits demo_log [demo_aael]"
  using demo_full_log_wf
  by (simp add: aael_records_def log_wf_def demo_full_log_def demo_log_def default_limits_def)
    (simp add: demo_aael_def)

text \<open>C10. An application event parses to a record exactly when it is an AAEL event whose data is the
  tagged encoding of that record: the tag, the byte length and the three fields joined by single
  spaces, valid UTF-8, non-empty, without control characters and inside the size limit. Printing and
  parsing therefore invert each other.\<close>

theorem parse_aael_exact:
  "parse_aael e = Inr r \<longleftrightarrow>
     aael_header e \<and> untrusted_event_data e = aael_data r \<and>
     length (untrusted_event_data e) \<le> MAX_RUNTIME_EVENT_BYTES \<and>
     utf8_decode (aael_text r) \<noteq> None \<and> 32 \<notin> set (domain_of r) \<and> 32 \<notin> set (operation_of r) \<and>
     runtime_event_ok r"
  by (rule parse_aael_Inr_iff)

text \<open>C11. Runtime verification succeeds exactly when the policy is well-formed, log and registers are of
  a TDX platform with all four 48-byte RTMRs and nothing else, the log verifies against them, the
  MRIndex 4 events of the log parse, in order, to the expected events, no more and no fewer, and the
  SHA-384 of each such event's whole data is its authenticated digest. The result then lists the
  policy's events, the positions of the MRIndex 4 events and RTMR3 in hexadecimal.\<close>

theorem verify_tdx_runtime_exact:
  "verify_tdx_runtime P l A policy = Inr (v, r) \<longleftrightarrow>
     runtime_policy_ok policy \<and> log_kind l = TdxCcel \<and> four_rtmrs A \<and> verify_log P l A = Inr v \<and>
     map parse_aael (filter (\<lambda>e. register_index e = 4) (log_events l)) = map Inr (expected_events policy) \<and>
     (\<forall>n < length (log_events l). register_index (log_events l ! n) = 4 \<longrightarrow>
       authenticated_digest v n TPM_ALG_SHA384 = Inr (sha384 P (untrusted_event_data (log_events l ! n)))) \<and>
     vr_profile r = rp_profile policy \<and> vr_events r = expected_events policy \<and>
     vr_event_indices r = filter (\<lambda>n. register_index (log_events l ! n) = 4) [0..<length (log_events l)] \<and>
     vr_rtmr3_hex r = hex_encode P (the (bt_get (ar_values A) (TPM_ALG_SHA384, 3)))"
  by (rule verify_tdx_runtime_Inr_iff)

theorem verify_tdx_runtime_exact_witness:
  "four_rtmrs demo_full_registers \<and>
   runtime_policy_ok \<lparr>rp_profile = CocoAaelTcg2, expected_events = [demo_record]\<rparr> \<and>
   map parse_aael (filter (\<lambda>e. register_index e = 4) (log_events demo_full_log)) = [Inr demo_record]"
  using verify_tdx_runtime_exact [THEN iffD1, OF demo_runtime] by simp

text \<open>C12. Let \<open>ccel\<close> parse as a firmware log. Appending \<open>aael\<close> succeeds exactly when \<open>aael\<close> is the
  encoding of a sequence of well-formed MRIndex 4 application events placed behind the bytes the
  firmware log consumed and the whole stays inside the limits; the result is those bytes followed
  by \<open>aael\<close>. Reading it back gives the firmware log with exactly the appended events behind its own.
  No slice of the function panics, whatever its input.\<close>

theorem append_coco_aael_exact:
  assumes "parse_tdx_ccel ccel limits = Inr fw"
  shows "(append_coco_aael ccel aael limits = Inr combined \<longleftrightarrow>
      combined = take (consumed_bytes fw) ccel @ aael \<and>
      consumed_bytes fw + length aael \<le> max_log_bytes limits \<and> consumed_bytes fw + length aael < 2 ^ 64 \<and>
      (\<exists>es. aael = concat (map encode_event es) \<and> aael_records limits fw es)) \<and>
    (append_coco_aael ccel aael limits = Inr combined \<and>
       aael = concat (map encode_event es) \<and> aael_records limits fw es \<longrightarrow>
     parse_tdx_ccel_with_aael combined limits =
       Inr (fw\<lparr>log_events := log_events fw @ es, consumed_bytes := consumed_bytes fw + length aael\<rparr>)) \<and>
    panic_free (append_coco_aael ccel' aael' limits')"
proof (intro conjI impI)
  assume ok: "append_coco_aael ccel aael limits = Inr combined \<and>
      aael = concat (map encode_event es) \<and> aael_records limits fw es"
  then have "combined = take (consumed_bytes fw) ccel @ aael" "consumed_bytes fw + length aael \<le> max_log_bytes limits"
      "consumed_bytes fw + length aael < 2 ^ 64"
    using append_coco_aael_Inr_iff [OF assms] by blast+
  then show "parse_tdx_ccel_with_aael combined limits =
      Inr (fw\<lparr>log_events := log_events fw @ es, consumed_bytes := consumed_bytes fw + length aael\<rparr>)"
    using ok aael_read_back [OF assms, of es] by simp
qed (rule append_coco_aael_Inr_iff [OF assms] panic_free_append_coco_aael)+

theorem append_coco_aael_exact_witness:
  "append_coco_aael (encode_log demo_log @ [0xff, 0xff]) (encode_event demo_aael) default_limits =
     Inr (encode_log demo_full_log) \<and>
   parse_tdx_ccel_with_aael (encode_log demo_full_log) default_limits = Inr demo_full_log"
proof -
  have fw: "parse_tdx_ccel (encode_log demo_log @ [0xff, 0xff]) default_limits = Inr demo_log"
    using demo_log_parses by (simp add: parse_tdx_ccel_def)
  have len: "length (encode_log demo_log) = 135"
    using demo_log_placed by (simp add: log_placed_def demo_log_def)
  then have bytes: "take (consumed_bytes demo_log) (encode_log demo_log @ [0xff, 0xff]) @ encode_event demo_aael =
      encode_log demo_full_log"
    by (simp add: encode_log_def demo_log_def demo_full_log_def)
  have fits: "consumed_bytes demo_log + length (encode_event demo_aael) \<le> max_log_bytes default_limits"
      "consumed_bytes demo_log + length (encode_event demo_aael) < 2 ^ 64"
    by (simp_all add: length_demo_aael demo_log_def default_limits_def)
  have es: "encode_event demo_aael = concat (map encode_event [demo_aael])" by simp
  have ok: "append_coco_aael (encode_log demo_log @ [0xff, 0xff]) (encode_event demo_aael) default_limits =
      Inr (encode_log demo_full_log)"
    by (rule append_coco_aael_exact [THEN conjunct1, THEN iffD2, OF fw])
      (intro conjI bytes [symmetric] fits exI [of _ "[demo_aael]"] es demo_aael_records)
  have "demo_log\<lparr>log_events := log_events demo_log @ [demo_aael],
      consumed_bytes := consumed_bytes demo_log + length (encode_event demo_aael)\<rparr> = demo_full_log"
    by (simp add: demo_log_def demo_full_log_def)
  then show ?thesis
    using append_coco_aael_exact [THEN conjunct2, THEN conjunct1, THEN mp, OF fw] ok es demo_aael_records by metis
qed

end
