(* ===== verification/Boot_Verity.thy ===== *)
theory Boot_Verity
  imports Boot_Cmdline
begin

unbundle bit_operations_syntax

text \<open>
  Observation of an active dm-verity root (\<open>v2/src/boot/verity.rs\<close>): the parsers of
  \<open>/proc/self/mountinfo\<close>, of the verity table and status lines and of the device-mapper response,
  the option rules, the policy check, and the collection with its before/after snapshots. Parsed
  numbers are naturals below the width of the Rust type the code parses them into; the kernel's
  answers are parameters.
\<close>

section \<open>Observed state and policy\<close>

abbreviation MAX_MOUNTINFO :: nat where "MAX_MOUNTINFO \<equiv> 4 * 1024 * 1024"
abbreviation MAX_DM_BYTES :: nat where "MAX_DM_BYTES \<equiv> 1024 * 1024"
abbreviation DM_HEADER :: nat where "DM_HEADER \<equiv> 312"

record UnverifiedRootMount =
  mount_id :: nat
  rm_major :: nat
  rm_minor :: nat
  rm_filesystem :: str
  rm_read_only :: bool

record UnverifiedVerityTable =
  format_version :: nat
  data_device :: str
  hash_device :: str
  data_block_size :: nat
  hash_block_size :: nat
  data_blocks :: nat
  hash_start_block :: nat
  hash_algorithm :: str
  vt_root_digest_hex :: str
  salt_hex :: str
  optional_parameters :: "str list"

record UnverifiedMountedVerity =
  mv_root :: UnverifiedRootMount
  mv_table :: UnverifiedVerityTable
  mapper_name :: str
  mapper_uuid :: str
  mapper_event_number :: nat
  mapper_read_only :: bool
  corruption_detected :: bool
  fec_corrected_blocks :: "nat option"
  mv_sectors :: nat

record MountedVerityPolicy =
  expected_root_digest_hex :: str
  expected_hash_algorithm :: str
  expected_salt_hex :: str
  expected_data_blocks :: nat
  expected_data_block_size :: nat
  expected_hash_block_size :: nat
  expected_hash_start_block :: nat
  expected_format_version :: nat
  expected_filesystem :: str
  expected_optional_parameters :: "str list"

definition check_observed_policy :: "UnverifiedMountedVerity \<Rightarrow> MountedVerityPolicy \<Rightarrow> unit boot" where
  "check_observed_policy m policy =
     (let t = mv_table m in
      if \<not> rm_read_only (mv_root m) \<or> \<not> mapper_read_only m \<or> corruption_detected m
        \<or> vt_root_digest_hex t \<noteq> to_ascii_lowercase (expected_root_digest_hex policy)
        \<or> hash_algorithm t \<noteq> expected_hash_algorithm policy
        \<or> salt_hex t \<noteq> to_ascii_lowercase (expected_salt_hex policy)
        \<or> data_blocks t \<noteq> expected_data_blocks policy
        \<or> data_block_size t \<noteq> expected_data_block_size policy
        \<or> hash_block_size t \<noteq> expected_hash_block_size policy
        \<or> hash_start_block t \<noteq> expected_hash_start_block policy
        \<or> format_version t \<noteq> expected_format_version policy
        \<or> rm_filesystem (mv_root m) \<noteq> expected_filesystem policy
        \<or> optional_parameters t \<noteq> expected_optional_parameters policy
        \<or> (\<exists>p \<in> set (optional_parameters t). p \<in> {lit ''ignore_corruption'', lit ''check_at_most_once''})
      then Inl (VerityState ''observed mount/table differs from strict policy'')
      else Inr ())"

section \<open>Numbers, devices and the mount table\<close>

text \<open>\<open>number::<T>\<close>, with the exclusive upper bound of \<open>T\<close>.\<close>

definition number :: "nat \<Rightarrow> str \<Rightarrow> nat boot" where
  "number bound s =
     (if s = [] \<or> \<not> list_all is_ascii_digit s then Inl (VerityState ''invalid decimal field'')
      else ok_or (parse_below bound s) (VerityState ''numeric field overflow''))"

definition device :: "str \<Rightarrow> (nat \<times> nat) boot" where
  "device s =
     bindR (ok_or (split_once 58 s) (VerityState ''invalid device number'')) (\<lambda>(major, minor).
     bindR (number (2 ^ 32) major) (\<lambda>a.
     bindR (number (2 ^ 32) minor) (\<lambda>b. Inr (a, b))))"

definition mountinfo_line :: "UnverifiedRootMount option \<Rightarrow> str \<Rightarrow> UnverifiedRootMount option boot" where
  "mountinfo_line root line =
     (let fields = split_on 32 line in
      bindR (ok_or (position (\<lambda>s. s = lit ''-'') fields) (VerityState ''mountinfo separator missing'')) (\<lambda>separator.
      if separator < 6 \<or> length fields \<noteq> separator + 4 \<or> (\<exists>s \<in> set fields. s = [])
      then Inl (VerityState ''malformed mountinfo record'')
      else bindR (index_at fields 4) (\<lambda>mount_point.
      if mount_point \<noteq> lit ''/'' then Inr root
      else bindR (index_at fields 3) (\<lambda>subtree.
      if subtree \<noteq> lit ''/'' \<or> root \<noteq> None
      then Inl (VerityState ''ambiguous or subtree root mount'')
      else bindR (index_at fields 2) (\<lambda>dev.
      bindR (device dev) (\<lambda>(major, minor).
      bindR (index_at fields 5) (\<lambda>mount_options.
      bindR (index_at fields (separator + 3)) (\<lambda>fs_options.
      let mount = split_on 44 mount_options; fs = split_on 44 fs_options in
      if (lit ''ro'' \<in> set mount) = (lit ''rw'' \<in> set mount) \<or> (lit ''ro'' \<in> set fs) = (lit ''rw'' \<in> set fs)
      then Inl (VerityState ''ambiguous mount read-only flags'')
      else bindR (index_at fields 0) (\<lambda>id.
      bindR (number (2 ^ 64) id) (\<lambda>i.
      bindR (index_at fields (separator + 1)) (\<lambda>filesystem.
      Inr (Some \<lparr>mount_id = i, rm_major = major, rm_minor = minor, rm_filesystem = filesystem,
                 rm_read_only = (lit ''ro'' \<in> set mount \<and> lit ''ro'' \<in> set fs)\<rparr>))))))))))))"

text \<open>The record has at least ten fields once its shape is checked, so no index is out of bounds.\<close>

lemma mountinfo_line_eq:
  "mountinfo_line root line =
     (let fields = split_on 32 line in
      bindR (ok_or (position (\<lambda>s. s = lit ''-'') fields) (VerityState ''mountinfo separator missing'')) (\<lambda>separator.
      if separator < 6 \<or> length fields \<noteq> separator + 4 \<or> (\<exists>s \<in> set fields. s = [])
      then Inl (VerityState ''malformed mountinfo record'')
      else if fields ! 4 \<noteq> lit ''/'' then Inr root
      else if fields ! 3 \<noteq> lit ''/'' \<or> root \<noteq> None
      then Inl (VerityState ''ambiguous or subtree root mount'')
      else bindR (device (fields ! 2)) (\<lambda>(major, minor).
      let mount = split_on 44 (fields ! 5); fs = split_on 44 (fields ! (separator + 3)) in
      if (lit ''ro'' \<in> set mount) = (lit ''rw'' \<in> set mount) \<or> (lit ''ro'' \<in> set fs) = (lit ''rw'' \<in> set fs)
      then Inl (VerityState ''ambiguous mount read-only flags'')
      else bindR (number (2 ^ 64) (fields ! 0)) (\<lambda>i.
      Inr (Some \<lparr>mount_id = i, rm_major = major, rm_minor = minor,
                 rm_filesystem = fields ! (separator + 1),
                 rm_read_only = (lit ''ro'' \<in> set mount \<and> lit ''ro'' \<in> set fs)\<rparr>)))))"
proof (cases "position (\<lambda>s. s = lit ''-'') (split_on 32 line)")
  case (Some separator)
  show ?thesis
  proof (cases "separator < 6 \<or> length (split_on 32 line) \<noteq> separator + 4")
    case False
    then have "0 < length (split_on 32 line)" "separator + 1 < length (split_on 32 line)" by linarith+
    then have "index_at (split_on 32 line) 0 = Inr (split_on 32 line ! 0)"
        "index_at (split_on 32 line) (separator + 1) = Inr (split_on 32 line ! (separator + 1))"
      by (blast intro: index_at_eq)+
    with False show ?thesis
      by (simp add: mountinfo_line_def Some ok_or_def Let_def in_domain del: list.map cong: if_cong)
  qed (auto simp: mountinfo_line_def Some ok_or_def Let_def simp del: list.map)
qed (simp add: mountinfo_line_def ok_or_def Let_def del: list.map)

definition parse_root_mountinfo :: "bytes \<Rightarrow> UnverifiedRootMount boot" where
  "parse_root_mountinfo bs =
     (if length bs > MAX_MOUNTINFO then Inl (Limit ''mountinfo bytes'')
      else bindR (ok_or (from_utf8 bs) (VerityState ''invalid mountinfo UTF8'')) (\<lambda>txt.
      bindR (foldR mountinfo_line None (lines_of txt)) (\<lambda>root.
      ok_or root (VerityState ''root mount absent''))))"

section \<open>The verity table\<close>

definition verity_flag_options :: "str list" where
  "verity_flag_options =
     [lit ''ignore_corruption'', lit ''restart_on_corruption'', lit ''panic_on_corruption'',
      lit ''restart_on_error'', lit ''panic_on_error'', lit ''ignore_zero_blocks'',
      lit ''check_at_most_once'', lit ''try_verify_in_tasklet'']"

definition fec_options :: "str list" where
  "fec_options = [lit ''use_fec_from_device'', lit ''fec_roots'', lit ''fec_blocks'', lit ''fec_start'']"

definition corruption_modes :: "str list" where
  "corruption_modes = [lit ''ignore_corruption'', lit ''restart_on_corruption'', lit ''panic_on_corruption'']"

definition check_option_value :: "str \<Rightarrow> str \<Rightarrow> unit boot" where
  "check_option_value key val =
     (if key = lit ''use_fec_from_device'' then bindR (device val) (\<lambda>_. Inr ())
      else if key = lit ''fec_roots'' then
        bindR (number (2 ^ 64) val) (\<lambda>n.
        if \<not> (2 \<le> n \<and> n \<le> 24) then Inl (VerityState ''invalid FEC roots'') else Inr ())
      else if key = lit ''fec_blocks'' \<or> key = lit ''fec_start'' then
        bindR (number (2 ^ 64) val) (\<lambda>_. Inr ())
      else Inr ())"

fun option_keys :: "str list \<Rightarrow> str list \<Rightarrow> str list boot" where
  "option_keys seen [] = Inr seen"
| "option_keys seen (key # rest) =
     (if key \<in> set seen then Inl (VerityState ''duplicate verity option'')
      else if key \<in> set verity_flag_options then option_keys (key # seen) rest
      else if key \<in> set fec_options \<or> key = lit ''root_hash_sig_key_desc'' then
        (case rest of
           [] \<Rightarrow> Inl (VerityState ''missing verity option value'')
         | val # rest' \<Rightarrow> bindR (check_option_value key val) (\<lambda>_. option_keys (key # seen) rest'))
      else Inl (VerityState ''unknown verity option''))"

definition validate_options :: "str list \<Rightarrow> nat \<Rightarrow> nat \<Rightarrow> unit boot" where
  "validate_options options data_block hash_block =
     bindR (option_keys [] options) (\<lambda>seen.
     let fec = length (filter (\<lambda>s. s \<in> set seen) fec_options) in
     if (fec > 0 \<and> (fec \<noteq> 4 \<or> data_block \<noteq> hash_block))
        \<or> length (filter (\<lambda>s. s \<in> set seen) corruption_modes) > 1
        \<or> (lit ''restart_on_error'' \<in> set seen \<and> lit ''panic_on_error'' \<in> set seen)
     then Inl (VerityState ''inconsistent verity options'')
     else Inr ())"

definition verity_digest_size :: "str \<Rightarrow> nat boot" where
  "verity_digest_size alg =
     (if alg = lit ''sha256'' then Inr 32 else if alg = lit ''sha384'' then Inr 48
      else if alg = lit ''sha512'' then Inr 64
      else Inl (VerityState ''unsupported verity hash algorithm''))"

definition parse_verity_parameters :: "str \<Rightarrow> UnverifiedVerityTable boot" where
  "parse_verity_parameters txt =
     (if length txt > 64 * 1024 \<or> (\<exists>c \<in> set txt. 128 \<le> unat c) \<or> (\<exists>c \<in> set txt. unat c < 0x20 \<or> c = 0x7f)
      then Inl (VerityState ''invalid verity table parameter bytes'')
      else let f = split_ascii_whitespace txt in
      if length f < 10 then Inl (VerityState ''incomplete verity table'')
      else bindR (index_at f 0) (\<lambda>f0.
      bindR (number (2 ^ 32) f0) (\<lambda>ver.
      if ver > 1 then Inl (VerityState ''unsupported verity format'')
      else bindR (index_at f 1) (\<lambda>f1.
      bindR (device f1) (\<lambda>_.
      bindR (index_at f 2) (\<lambda>f2.
      bindR (device f2) (\<lambda>_.
      bindR (index_at f 3) (\<lambda>f3.
      bindR (number (2 ^ 64) f3) (\<lambda>dbs.
      bindR (index_at f 4) (\<lambda>f4.
      bindR (number (2 ^ 64) f4) (\<lambda>hbs.
      if \<not> is_power_of_two dbs \<or> \<not> is_power_of_two hbs
         \<or> \<not> (512 \<le> dbs \<and> dbs \<le> 65536) \<or> \<not> (512 \<le> hbs \<and> hbs \<le> 65536)
      then Inl (VerityState ''invalid verity block geometry'')
      else bindR (index_at f 5) (\<lambda>f5.
      bindR (number (2 ^ 64) f5) (\<lambda>blocks.
      bindR (index_at f 6) (\<lambda>f6.
      bindR (number (2 ^ 64) f6) (\<lambda>start.
      if blocks = 0 \<or> blocks * dbs \<ge> 2 ^ 64 \<or> start * hbs \<ge> 2 ^ 64
      then Inl (VerityState ''invalid verity block extent'')
      else bindR (index_at f 7) (\<lambda>f7.
      bindR (verity_digest_size f7) (\<lambda>sz.
      bindR (index_at f 8) (\<lambda>f8.
      if length f8 \<noteq> sz * 2 \<or> \<not> list_all is_ascii_hexdigit f8
      then Inl (VerityState ''invalid verity root digest'')
      else bindR (index_at f 9) (\<lambda>f9.
      let salt = (if f9 = lit ''-'' then [] else f9) in
      if length salt > 512 \<or> length salt mod 2 \<noteq> 0 \<or> \<not> list_all is_ascii_hexdigit salt
      then Inl (VerityState ''invalid verity salt'')
      else bindR (if length f = 10 then index_range f 10 (length f)
             else bindR (index_at f 10) (\<lambda>f10.
               bindR (number (2 ^ 64) f10) (\<lambda>n.
               bindR (usize_sub (length f) 11) (\<lambda>rest.
               if n \<noteq> rest then Inl (VerityState ''verity option count mismatch'')
               else index_range f 11 (length f))))) (\<lambda>options.
      bindR (validate_options options dbs hbs) (\<lambda>_.
      Inr \<lparr>format_version = ver, data_device = f1, hash_device = f2, data_block_size = dbs,
           hash_block_size = hbs, data_blocks = blocks, hash_start_block = start,
           hash_algorithm = f7, vt_root_digest_hex = to_ascii_lowercase f8,
           salt_hex = to_ascii_lowercase salt, optional_parameters = options\<rparr>)))))))))))))))))))))"

text \<open>The code has checked the number of fields before each index and range.\<close>

lemma parse_verity_parameters_eq:
  "parse_verity_parameters txt =
     (if length txt > 64 * 1024 \<or> (\<exists>c \<in> set txt. 128 \<le> unat c) \<or> (\<exists>c \<in> set txt. unat c < 0x20 \<or> c = 0x7f)
      then Inl (VerityState ''invalid verity table parameter bytes'')
      else let f = split_ascii_whitespace txt in
      if length f < 10 then Inl (VerityState ''incomplete verity table'')
      else bindR (number (2 ^ 32) (f ! 0)) (\<lambda>ver.
      if ver > 1 then Inl (VerityState ''unsupported verity format'')
      else bindR (device (f ! 1)) (\<lambda>_.
      bindR (device (f ! 2)) (\<lambda>_.
      bindR (number (2 ^ 64) (f ! 3)) (\<lambda>dbs.
      bindR (number (2 ^ 64) (f ! 4)) (\<lambda>hbs.
      if \<not> is_power_of_two dbs \<or> \<not> is_power_of_two hbs
         \<or> \<not> (512 \<le> dbs \<and> dbs \<le> 65536) \<or> \<not> (512 \<le> hbs \<and> hbs \<le> 65536)
      then Inl (VerityState ''invalid verity block geometry'')
      else bindR (number (2 ^ 64) (f ! 5)) (\<lambda>blocks.
      bindR (number (2 ^ 64) (f ! 6)) (\<lambda>start.
      if blocks = 0 \<or> blocks * dbs \<ge> 2 ^ 64 \<or> start * hbs \<ge> 2 ^ 64
      then Inl (VerityState ''invalid verity block extent'')
      else bindR (verity_digest_size (f ! 7)) (\<lambda>sz.
      if length (f ! 8) \<noteq> sz * 2 \<or> \<not> list_all is_ascii_hexdigit (f ! 8)
      then Inl (VerityState ''invalid verity root digest'')
      else let salt = (if f ! 9 = lit ''-'' then [] else f ! 9) in
      if length salt > 512 \<or> length salt mod 2 \<noteq> 0 \<or> \<not> list_all is_ascii_hexdigit salt
      then Inl (VerityState ''invalid verity salt'')
      else bindR (if length f = 10 then Inr []
             else bindR (number (2 ^ 64) (f ! 10)) (\<lambda>n.
               if n \<noteq> length f - 11 then Inl (VerityState ''verity option count mismatch'')
               else Inr (drop 11 f))) (\<lambda>options.
      bindR (validate_options options dbs hbs) (\<lambda>_.
      Inr \<lparr>format_version = ver, data_device = f ! 1, hash_device = f ! 2, data_block_size = dbs,
           hash_block_size = hbs, data_blocks = blocks, hash_start_block = start,
           hash_algorithm = f ! 7, vt_root_digest_hex = to_ascii_lowercase (f ! 8),
           salt_hex = to_ascii_lowercase salt, optional_parameters = options\<rparr>)))))))))))"
proof (cases "length (split_ascii_whitespace txt) < 10")
  case False
  then have ne: "0 < length (split_ascii_whitespace txt)" by linarith
  consider "length (split_ascii_whitespace txt) = 10" | "11 \<le> length (split_ascii_whitespace txt)"
    using False by linarith
  then show ?thesis
    by cases (simp_all add: parse_verity_parameters_def Let_def index_at_eq [OF ne] in_domain
        del: list.map length_greater_0_conv cong: if_cong)
qed (simp add: parse_verity_parameters_def Let_def)

definition parse_verity_status :: "str \<Rightarrow> (bool \<times> nat option) boot" where
  "parse_verity_status txt =
     (let parts = split_on 32 txt in
      bindR (if hd parts = lit ''V'' then Inr False else if hd parts = lit ''C'' then Inr True
             else Inl (VerityState ''unknown verity runtime status'')) (\<lambda>failed.
      bindR (case parts of
          [_] \<Rightarrow> Inr None
        | [_, val] \<Rightarrow> (if val = lit ''-'' then Inr None else bindR (number (2 ^ 64) val) (\<lambda>n. Inr (Some n)))
        | _ \<Rightarrow> Inl (VerityState ''malformed verity runtime status'')) (\<lambda>corrected.
      Inr (failed, corrected))))"

section \<open>The device-mapper response\<close>

text \<open>\<open>from_ne_bytes\<close> on the two supported targets, both little-endian.\<close>

definition u32_field :: "bytes \<Rightarrow> nat \<Rightarrow> u32 boot" where
  "u32_field bs at =
     bindR (ok_or (slice bs at (at + 4)) (VerityState ''truncated ioctl field'')) (\<lambda>v.
     bindR (into_array 4 v) (\<lambda>a. Inr (of_nat (le_nat a))))"

lemma u32_field_eq:
  "u32_field bs at =
     bindR (ok_or (slice bs at (at + 4)) (VerityState ''truncated ioctl field'')) (\<lambda>v. Inr (of_nat (le_nat v)))"
  by (cases "slice bs at (at + 4)") (auto simp: u32_field_def ok_or_def in_domain dest: length_slice)

definition u64_field :: "bytes \<Rightarrow> nat \<Rightarrow> u64 boot" where
  "u64_field bs at =
     bindR (ok_or (slice bs at (at + 8)) (VerityState ''truncated ioctl field'')) (\<lambda>v.
     bindR (into_array 8 v) (\<lambda>a. Inr (of_nat (le_nat a))))"

lemma u64_field_eq:
  "u64_field bs at =
     bindR (ok_or (slice bs at (at + 8)) (VerityState ''truncated ioctl field'')) (\<lambda>v. Inr (of_nat (le_nat v)))"
  by (cases "slice bs at (at + 8)") (auto simp: u64_field_def ok_or_def in_domain dest: length_slice)

definition cstr :: "bytes \<Rightarrow> str boot" where
  "cstr bs =
     bindR (ok_or (position (\<lambda>c. c = 0) bs) (VerityState ''unterminated ioctl string'')) (\<lambda>n.
     bindR (index_range bs 0 n) (\<lambda>s.
     ok_or (from_utf8 s) (VerityState ''invalid ioctl string'')))"

lemma cstr_eq:
  "cstr bs =
     bindR (ok_or (position (\<lambda>c. c = 0) bs) (VerityState ''unterminated ioctl string'')) (\<lambda>n.
     ok_or (from_utf8 (take n bs)) (VerityState ''invalid ioctl string''))"
proof (cases "position (\<lambda>c. c = 0) bs")
  case (Some n)
  then have "n \<le> length bs" by (simp add: position_Some_iff)
  with Some show ?thesis by (simp add: cstr_def in_domain ok_or_def)
qed (simp add: cstr_def ok_or_def)

record DmResponse =
  dm_name :: str
  dm_uuid :: str
  dm_event :: nat
  dm_read_only :: bool
  dm_sectors :: nat
  dm_parameters :: str

definition parse_dm_response :: "bytes \<Rightarrow> u64 \<Rightarrow> DmResponse boot" where
  "parse_dm_response bs encoded_device =
     (let bad = VerityState ''invalid DM ioctl version/bounds'';
          bad2 = VerityState ''invalid, suspended, incomplete, inactive, or multi-target DM table'';
          bad3 = VerityState ''root device is not one successful verity target'' in
      if length bs < DM_HEADER \<or> length bs > MAX_DM_BYTES then Inl bad
      else bindR (u32_field bs 0) (\<lambda>version.
      if version \<noteq> 4 then Inl bad
      else bindR (u32_field bs 12) (\<lambda>sz32.
      bindR (u32_field bs 16) (\<lambda>start32.
      bindR (u32_field bs 28) (\<lambda>flags.
      let sz = unat sz32; start = unat start32 in
      if sz > length bs \<or> start < DM_HEADER \<or> start mod 8 \<noteq> 0 \<or> start > sz then Inl bad2
      else bindR (u32_field bs 20) (\<lambda>targets.
      if targets \<noteq> 1 then Inl bad2
      else bindR (u64_field bs 40) (\<lambda>dev.
      if dev \<noteq> encoded_device \<or> flags AND push_bit 5 1 = 0
         \<or> flags AND (push_bit 1 1 OR push_bit 8 1 OR push_bit 12 1 OR push_bit 17 1 OR push_bit 18 1) \<noteq> 0
      then Inl bad2
      else bindR (ok_or (slice bs start sz) (VerityState ''DM target outside output'')) (\<lambda>target.
      if length target < 41 then Inl bad3
      else bindR (u64_field target 0) (\<lambda>sector_start.
      if sector_start \<noteq> 0 then Inl bad3
      else bindR (u32_field target 16) (\<lambda>status.
      if status \<noteq> 0 then Inl bad3
      else bindR (bindR (index_range target 24 40) cstr) (\<lambda>kind.
      if kind \<noteq> lit ''verity'' then Inl bad3
      else bindR (u32_field target 20) (\<lambda>next.
      if unat next \<noteq> (length target + 7) div 8 * 8 then Inl (VerityState ''invalid final DM target offset'')
      else bindR (u64_field target 8) (\<lambda>sectors.
      if sectors = 0 then Inl (VerityState ''empty verity device'')
      else bindR (bindR (index_range bs 48 176) cstr) (\<lambda>name.
      bindR (bindR (index_range bs 176 305) cstr) (\<lambda>uuid.
      bindR (u32_field bs 32) (\<lambda>event.
      bindR (bindR (index_range target 40 (length target)) cstr) (\<lambda>parameters.
      Inr \<lparr>dm_name = name, dm_uuid = uuid, dm_event = unat event, dm_read_only = (flags AND 1 \<noteq> 0),
           dm_sectors = unat sectors, dm_parameters = parameters\<rparr>)))))))))))))))))"

lemma parse_dm_response_eq:
  "parse_dm_response bs encoded_device =
     (let bad = VerityState ''invalid DM ioctl version/bounds'';
          bad2 = VerityState ''invalid, suspended, incomplete, inactive, or multi-target DM table'';
          bad3 = VerityState ''root device is not one successful verity target'' in
      if length bs < DM_HEADER \<or> length bs > MAX_DM_BYTES then Inl bad
      else bindR (u32_field bs 0) (\<lambda>version.
      if version \<noteq> 4 then Inl bad
      else bindR (u32_field bs 12) (\<lambda>sz32.
      bindR (u32_field bs 16) (\<lambda>start32.
      bindR (u32_field bs 28) (\<lambda>flags.
      let sz = unat sz32; start = unat start32 in
      if sz > length bs \<or> start < DM_HEADER \<or> start mod 8 \<noteq> 0 \<or> start > sz then Inl bad2
      else bindR (u32_field bs 20) (\<lambda>targets.
      if targets \<noteq> 1 then Inl bad2
      else bindR (u64_field bs 40) (\<lambda>dev.
      if dev \<noteq> encoded_device \<or> flags AND push_bit 5 1 = 0
         \<or> flags AND (push_bit 1 1 OR push_bit 8 1 OR push_bit 12 1 OR push_bit 17 1 OR push_bit 18 1) \<noteq> 0
      then Inl bad2
      else bindR (ok_or (slice bs start sz) (VerityState ''DM target outside output'')) (\<lambda>target.
      if length target < 41 then Inl bad3
      else bindR (u64_field target 0) (\<lambda>sector_start.
      if sector_start \<noteq> 0 then Inl bad3
      else bindR (u32_field target 16) (\<lambda>status.
      if status \<noteq> 0 then Inl bad3
      else bindR (cstr (take 16 (drop 24 target))) (\<lambda>kind.
      if kind \<noteq> lit ''verity'' then Inl bad3
      else bindR (u32_field target 20) (\<lambda>next.
      if unat next \<noteq> (length target + 7) div 8 * 8 then Inl (VerityState ''invalid final DM target offset'')
      else bindR (u64_field target 8) (\<lambda>sectors.
      if sectors = 0 then Inl (VerityState ''empty verity device'')
      else bindR (cstr (take 128 (drop 48 bs))) (\<lambda>name.
      bindR (cstr (take 129 (drop 176 bs))) (\<lambda>uuid.
      bindR (u32_field bs 32) (\<lambda>event.
      bindR (cstr (drop 40 target)) (\<lambda>parameters.
      Inr \<lparr>dm_name = name, dm_uuid = uuid, dm_event = unat event, dm_read_only = (flags AND 1 \<noteq> 0),
           dm_sectors = unat sectors, dm_parameters = parameters\<rparr>)))))))))))))))))"
proof (cases "length bs < DM_HEADER")
  case False
  then show ?thesis
    by (simp add: parse_dm_response_def Let_def in_domain del: list.map cong: if_cong)
qed (simp add: parse_dm_response_def Let_def)

section \<open>Collection\<close>

definition put_bytes :: "nat \<Rightarrow> bytes \<Rightarrow> bytes \<Rightarrow> bytes" where
  "put_bytes at v bs = take at bs @ v @ drop (at + length v) bs"

definition dm_request :: "nat \<Rightarrow> u64 \<Rightarrow> bool \<Rightarrow> bytes" where
  "dm_request len dev table =
     put_bytes 40 (le_bytes 8 (unat dev))
       (put_bytes 28 (le_bytes 4 (if table then 16 else 0))
         (put_bytes 16 (le_bytes 4 DM_HEADER)
           (put_bytes 12 (le_bytes 4 len)
             (put_bytes 0 (le_bytes 4 4) (replicate len 0)))))"

text \<open>The retry loop: the buffer doubles until the answer fits or its limit is reached. The kernel is
  a parameter from the request buffer to the buffer it leaves behind. The only caller starts at 65536,
  so the length meets its limit exactly.\<close>

function dm_query :: "(bytes \<Rightarrow> bytes boot) \<Rightarrow> nat \<Rightarrow> u64 \<Rightarrow> bool \<Rightarrow> DmResponse boot" where
  "dm_query ioctl len dev table =
     bindR (ioctl (dm_request len dev table)) (\<lambda>data.
     bindR (u32_field data 28) (\<lambda>flags.
     if flags AND push_bit 8 1 \<noteq> 0 then
       if len \<ge> MAX_DM_BYTES \<or> len = 0 then Inl (Limit ''DM ioctl output'')
       else dm_query ioctl (min (len * 2) MAX_DM_BYTES) dev table
     else parse_dm_response data dev))"
  by auto
termination
  by (relation "measure (\<lambda>(_, len, _, _). MAX_DM_BYTES - len)") auto

declare dm_query.simps [simp del]

definition encode_device :: "nat \<Rightarrow> nat \<Rightarrow> u64" where
  "encode_device major minor =
     (let mj = of_nat major :: u64; mn = of_nat minor :: u64 in
      (mn AND 0xff) OR push_bit 8 mj OR push_bit 12 (mn AND NOT 0xff))"

text \<open>The kernel as the collector sees it: the two reads of the mount table, opening the control
  device, and the ioctl at each of the three queries.\<close>

record dm_kernel =
  mountinfo_before :: "bytes boot"
  open_control :: "unit boot"
  dm_ioctl :: "nat \<Rightarrow> bytes \<Rightarrow> bytes boot"
  mountinfo_after :: "bytes boot"

definition collect_mounted_verity :: "dm_kernel \<Rightarrow> UnverifiedMountedVerity boot" where
  "collect_mounted_verity K =
     bindR (read_bounded (\<lambda>_. mountinfo_before K) ''/proc/self/mountinfo'' MAX_MOUNTINFO) (\<lambda>before.
     bindR (parse_root_mountinfo before) (\<lambda>root.
     if rm_major root > 0xfff \<or> rm_minor root > 0xfffff
     then Inl (VerityState ''device number outside Linux encoding'')
     else let encoded = encode_device (rm_major root) (rm_minor root) in
     bindR (open_control K) (\<lambda>_.
     bindR (dm_query (dm_ioctl K 0) 65536 encoded True) (\<lambda>table.
     bindR (dm_query (dm_ioctl K 1) 65536 encoded False) (\<lambda>status.
     bindR (dm_query (dm_ioctl K 2) 65536 encoded True) (\<lambda>again.
     if dm_name table \<noteq> dm_name again \<or> dm_uuid table \<noteq> dm_uuid again \<or> dm_event table \<noteq> dm_event again
        \<or> dm_parameters table \<noteq> dm_parameters again \<or> dm_sectors table \<noteq> dm_sectors again
        \<or> dm_read_only table \<noteq> dm_read_only again
        \<or> dm_name table \<noteq> dm_name status \<or> dm_uuid table \<noteq> dm_uuid status \<or> dm_event table \<noteq> dm_event status
        \<or> dm_sectors table \<noteq> dm_sectors status \<or> dm_read_only table \<noteq> dm_read_only status
     then Inl (VerityState ''mount/table changed during collection'')
     else bindR (read_bounded (\<lambda>_. mountinfo_after K) ''/proc/self/mountinfo'' MAX_MOUNTINFO) (\<lambda>after.
     if after \<noteq> before then Inl (VerityState ''mount/table changed during collection'')
     else bindR (parse_verity_status (dm_parameters status)) (\<lambda>(corruption, corrected).
     bindR (parse_verity_parameters (dm_parameters table)) (\<lambda>parameters.
     if data_blocks parameters * data_block_size parameters \<ge> 2 ^ 64 then Inl (Panic ''multiply overflow'')
     else if data_blocks parameters * data_block_size parameters div 512 \<noteq> dm_sectors table
     then Inl (VerityState ''verity target extent differs from data geometry'')
     else Inr \<lparr>mv_root = root, mv_table = parameters, mapper_name = dm_name table,
               mapper_uuid = dm_uuid table, mapper_event_number = dm_event table,
               mapper_read_only = dm_read_only table, corruption_detected = corruption,
               fec_corrected_blocks = corrected, mv_sectors = dm_sectors table\<rparr>)))))))))"

text \<open>The string literals of the code as bytes, for evaluation.\<close>

lemma verity_literals [code_unfold]:
  "lit ''-'' = [45]"
  "lit ''/'' = [47]"
  "lit ''ro'' = [114, 111]"
  "lit ''rw'' = [114, 119]"
  "lit ''ignore_corruption'' = [105, 103, 110, 111, 114, 101, 95, 99, 111, 114, 114, 117, 112, 116, 105, 111, 110]"
  "lit ''restart_on_corruption'' = [114, 101, 115, 116, 97, 114, 116, 95, 111, 110, 95, 99, 111, 114, 114, 117, 112, 116, 105, 111, 110]"
  "lit ''panic_on_corruption'' = [112, 97, 110, 105, 99, 95, 111, 110, 95, 99, 111, 114, 114, 117, 112, 116, 105, 111, 110]"
  "lit ''restart_on_error'' = [114, 101, 115, 116, 97, 114, 116, 95, 111, 110, 95, 101, 114, 114, 111, 114]"
  "lit ''panic_on_error'' = [112, 97, 110, 105, 99, 95, 111, 110, 95, 101, 114, 114, 111, 114]"
  "lit ''ignore_zero_blocks'' = [105, 103, 110, 111, 114, 101, 95, 122, 101, 114, 111, 95, 98, 108, 111, 99, 107, 115]"
  "lit ''check_at_most_once'' = [99, 104, 101, 99, 107, 95, 97, 116, 95, 109, 111, 115, 116, 95, 111, 110, 99, 101]"
  "lit ''try_verify_in_tasklet'' = [116, 114, 121, 95, 118, 101, 114, 105, 102, 121, 95, 105, 110, 95, 116, 97, 115, 107, 108, 101, 116]"
  "lit ''use_fec_from_device'' = [117, 115, 101, 95, 102, 101, 99, 95, 102, 114, 111, 109, 95, 100, 101, 118, 105, 99, 101]"
  "lit ''fec_roots'' = [102, 101, 99, 95, 114, 111, 111, 116, 115]"
  "lit ''fec_blocks'' = [102, 101, 99, 95, 98, 108, 111, 99, 107, 115]"
  "lit ''fec_start'' = [102, 101, 99, 95, 115, 116, 97, 114, 116]"
  "lit ''root_hash_sig_key_desc'' = [114, 111, 111, 116, 95, 104, 97, 115, 104, 95, 115, 105, 103, 95, 107, 101, 121, 95, 100, 101, 115, 99]"
  "lit ''sha256'' = [115, 104, 97, 50, 53, 54]"
  "lit ''sha384'' = [115, 104, 97, 51, 56, 52]"
  "lit ''sha512'' = [115, 104, 97, 53, 49, 50]"
  "lit ''V'' = [86]"
  "lit ''C'' = [67]"
  "lit ''verity'' = [118, 101, 114, 105, 116, 121]"
  by simp_all

section \<open>What an accepted table is\<close>

lemma number_Inr: "number b s = Inr n \<Longrightarrow> n < b \<and> n = decimal s \<and> s \<noteq> []"
  by (auto simp: number_def parse_below_def result_simps split: if_splits)

text \<open>The keys of an option list: a known flag, or a known key with its value.\<close>

definition known_options :: "str set" where
  "known_options = set verity_flag_options \<union> set fec_options \<union> {lit ''root_hash_sig_key_desc''}"

lemma option_keys_wf:
  "option_keys seen opts = Inr ks \<Longrightarrow> distinct seen \<Longrightarrow> set seen \<subseteq> known_options \<Longrightarrow>
   distinct ks \<and> set ks \<subseteq> known_options \<and> set seen \<subseteq> set ks \<and> set ks \<subseteq> set seen \<union> set opts"
proof (induction seen opts rule: option_keys.induct)
  case (2 seen key rest)
  consider (flag) "key \<notin> set seen" "key \<in> set verity_flag_options" "option_keys (key # seen) rest = Inr ks"
    | (val) v r where "key \<notin> set seen" "key \<notin> set verity_flag_options"
        "key \<in> set fec_options \<or> key = lit ''root_hash_sig_key_desc''"
        "rest = v # r" "check_option_value key v = Inr ()" "option_keys (key # seen) r = Inr ks"
    using "2.prems"(1) by (auto simp: result_simps simp del: list.map split: if_splits list.splits)
  then show ?case
  proof cases
    case flag
    have "distinct (key # seen)" "set (key # seen) \<subseteq> known_options"
      using flag "2.prems" by (auto simp: known_options_def)
    with "2.IH"(1) [OF flag(1,2)] flag show ?thesis by auto
  next
    case val
    have "distinct (key # seen)" "set (key # seen) \<subseteq> known_options"
      using val "2.prems" by (auto simp: known_options_def simp del: list.map)
    with "2.IH"(2) [OF val(1,2) val(3) val(4) val(5)] val show ?thesis
      by (auto simp del: list.map)
  qed
qed simp

definition options_consistent :: "str list \<Rightarrow> str list \<Rightarrow> nat \<Rightarrow> nat \<Rightarrow> bool" where
  "options_consistent opts ks dbs hbs \<longleftrightarrow>
     distinct ks \<and> set ks \<subseteq> known_options \<inter> set opts \<and>
     (set fec_options \<inter> set ks = {} \<or> set fec_options \<subseteq> set ks \<and> dbs = hbs) \<and>
     (\<forall>a \<in> set corruption_modes. \<forall>b \<in> set corruption_modes. a \<in> set ks \<longrightarrow> b \<in> set ks \<longrightarrow> a = b) \<and>
     \<not> (lit ''restart_on_error'' \<in> set ks \<and> lit ''panic_on_error'' \<in> set ks)"

lemma filter_at_most_one:
  assumes "distinct xs" and "length (filter P xs) \<le> 1" and "a \<in> set xs" "b \<in> set xs" "P a" "P b"
  shows "a = b"
proof -
  have "{a, b} \<subseteq> set (filter P xs)" using assms by auto
  then have "card {a, b} \<le> card (set (filter P xs))" by (intro card_mono) auto
  also have "\<dots> \<le> 1" using assms(2) card_length [of "filter P xs"] by linarith
  finally show ?thesis by (cases "a = b") auto
qed

lemma validate_options_consistent:
  assumes "validate_options opts dbs hbs = Inr u"
  shows "\<exists>ks. option_keys [] opts = Inr ks \<and> options_consistent opts ks dbs hbs"
proof -
  obtain ks where ks: "option_keys [] opts = Inr ks"
    and bad: "\<not> ((length (filter (\<lambda>s. s \<in> set ks) fec_options) > 0 \<and>
          (length (filter (\<lambda>s. s \<in> set ks) fec_options) \<noteq> 4 \<or> dbs \<noteq> hbs))
        \<or> length (filter (\<lambda>s. s \<in> set ks) corruption_modes) > 1
        \<or> (lit ''restart_on_error'' \<in> set ks \<and> lit ''panic_on_error'' \<in> set ks))"
    using assms unfolding validate_options_def Let_def by - (elim result_elims, (rule that; assumption))
  have wf: "distinct ks" "set ks \<subseteq> known_options" "set ks \<subseteq> set opts"
    using option_keys_wf [OF ks] by simp_all
  have "set fec_options \<subseteq> set ks" if "length (filter (\<lambda>s. s \<in> set ks) fec_options) = 4"
  proof -
    have "length fec_options = 4" by (simp add: fec_options_def)
    then have "filter (\<lambda>s. s \<in> set ks) fec_options = fec_options"
      using that by (metis filter_id_conv length_filter_less less_irrefl)
    then show ?thesis by (metis filter_id_conv subsetI)
  qed
  then have "set fec_options \<inter> set ks = {} \<or> set fec_options \<subseteq> set ks \<and> dbs = hbs"
    using bad by (auto simp: filter_empty_conv)
  moreover have "a = b" if "a \<in> set corruption_modes" "b \<in> set corruption_modes" "a \<in> set ks" "b \<in> set ks" for a b
    using bad that by (intro filter_at_most_one [of corruption_modes "\<lambda>s. s \<in> set ks"])
      (simp_all add: corruption_modes_def)
  ultimately show ?thesis
    using ks wf bad unfolding options_consistent_def by blast
qed

definition verity_table_wf :: "UnverifiedVerityTable \<Rightarrow> bool" where
  "verity_table_wf t \<longleftrightarrow>
     format_version t \<le> 1 \<and>
     is_power_of_two (data_block_size t) \<and> is_power_of_two (hash_block_size t) \<and>
     data_block_size t \<in> {512..65536} \<and> hash_block_size t \<in> {512..65536} \<and>
     0 < data_blocks t \<and> data_blocks t * data_block_size t < 2 ^ 64 \<and>
     hash_start_block t * hash_block_size t < 2 ^ 64 \<and>
     (\<exists>sz. verity_digest_size (hash_algorithm t) = Inr sz \<and> length (vt_root_digest_hex t) = 2 * sz) \<and>
     length (salt_hex t) \<le> 512 \<and> even (length (salt_hex t)) \<and>
     (\<exists>ks. option_keys [] (optional_parameters t) = Inr ks \<and>
        options_consistent (optional_parameters t) ks (data_block_size t) (hash_block_size t))"

lemma parse_verity_parameters_wf:
  assumes "parse_verity_parameters txt = Inr t"
  shows "verity_table_wf t"
proof -
  obtain f ver dbs hbs blocks start sz salt options u where
    ver: "\<not> 1 < ver"
    and geo: "\<not> (\<not> is_power_of_two dbs \<or> \<not> is_power_of_two hbs
         \<or> \<not> (512 \<le> dbs \<and> dbs \<le> 65536) \<or> \<not> (512 \<le> hbs \<and> hbs \<le> 65536))"
    and ext: "\<not> (blocks = 0 \<or> 2 ^ 64 \<le> blocks * dbs \<or> 2 ^ 64 \<le> start * hbs)"
    and dg: "verity_digest_size (f ! 7) = Inr sz"
      "\<not> (length (f ! 8) \<noteq> sz * 2 \<or> \<not> list_all is_ascii_hexdigit (f ! 8))"
    and salt: "\<not> (512 < length salt \<or> length salt mod 2 \<noteq> 0 \<or> \<not> list_all is_ascii_hexdigit salt)"
    and val: "validate_options options dbs hbs = Inr u"
    and t: "Inr \<lparr>format_version = ver, data_device = f ! 1, hash_device = f ! 2, data_block_size = dbs,
           hash_block_size = hbs, data_blocks = blocks, hash_start_block = start,
           hash_algorithm = f ! 7, vt_root_digest_hex = to_ascii_lowercase (f ! 8),
           salt_hex = to_ascii_lowercase salt, optional_parameters = options\<rparr> = (Inr t :: UnverifiedVerityTable boot)"
    using assms unfolding parse_verity_parameters_eq Let_def
    by - (elim result_elims, (rule that; assumption))
  have t': "t = \<lparr>format_version = ver, data_device = f ! 1, hash_device = f ! 2, data_block_size = dbs,
           hash_block_size = hbs, data_blocks = blocks, hash_start_block = start,
           hash_algorithm = f ! 7, vt_root_digest_hex = to_ascii_lowercase (f ! 8),
           salt_hex = to_ascii_lowercase salt, optional_parameters = options\<rparr>"
    using t by simp
  show ?thesis
    using ver geo ext dg salt validate_options_consistent [OF val]
    by (auto simp: verity_table_wf_def t' to_ascii_lowercase_def)
qed

section \<open>What a collected snapshot is\<close>

lemma power_of_two_512:
  assumes "is_power_of_two n" and "512 \<le> n"
  shows "512 dvd n"
proof -
  obtain k where k: "n = 2 ^ k" using assms(1) by (auto simp: is_power_of_two_def)
  have "9 \<le> k"
  proof (rule ccontr)
    assume "\<not> 9 \<le> k"
    then have "(2::nat) ^ k \<le> 2 ^ 8" by (intro power_increasing) auto
    then show False using assms(2) k by simp
  qed
  then have "(2::nat) ^ 9 dvd 2 ^ k" by (rule le_imp_power_dvd)
  then show ?thesis by (simp add: k)
qed

text \<open>The three device-mapper answers a snapshot is made of: the table is the same before and after
  the status, and the status differs from it in its parameters only.\<close>

definition snapshot_of :: "dm_kernel \<Rightarrow> UnverifiedMountedVerity \<Rightarrow> DmResponse \<Rightarrow> DmResponse \<Rightarrow> bool" where
  "snapshot_of K m table status \<longleftrightarrow>
     (let d = encode_device (rm_major (mv_root m)) (rm_minor (mv_root m)) in
      dm_query (dm_ioctl K 0) 65536 d True = Inr table \<and> dm_query (dm_ioctl K 2) 65536 d True = Inr table \<and>
      dm_query (dm_ioctl K 1) 65536 d False = Inr status \<and>
      status = table\<lparr>dm_parameters := dm_parameters status\<rparr>) \<and>
     parse_verity_parameters (dm_parameters table) = Inr (mv_table m) \<and>
     parse_verity_status (dm_parameters status) = Inr (corruption_detected m, fec_corrected_blocks m) \<and>
     mapper_name m = dm_name table \<and> mapper_uuid m = dm_uuid table \<and>
     mapper_event_number m = dm_event table \<and> mapper_read_only m = dm_read_only table \<and>
     mv_sectors m = dm_sectors table"

lemma collect_mounted_verity_Inr:
  assumes "collect_mounted_verity K = Inr m"
  shows "verity_table_wf (mv_table m) \<and>
    mv_sectors m * 512 = data_blocks (mv_table m) * data_block_size (mv_table m) \<and>
    (\<exists>b. mountinfo_before K = Inr b \<and> mountinfo_after K = Inr b \<and> parse_root_mountinfo b = Inr (mv_root m)) \<and>
    (\<exists>table status. snapshot_of K m table status)"
proof -
  obtain b r tb st ag a co ce pa u where
    1: "read_bounded (\<lambda>_. mountinfo_before K) ''/proc/self/mountinfo'' MAX_MOUNTINFO = Inr b"
    and 2: "parse_root_mountinfo b = Inr r"
    and "open_control K = Inr u"
    and q: "dm_query (dm_ioctl K 0) 65536 (encode_device (rm_major r) (rm_minor r)) True = Inr tb"
      "dm_query (dm_ioctl K 1) 65536 (encode_device (rm_major r) (rm_minor r)) False = Inr st"
      "dm_query (dm_ioctl K 2) 65536 (encode_device (rm_major r) (rm_minor r)) True = Inr ag"
    and same: "\<not> (dm_name tb \<noteq> dm_name ag \<or> dm_uuid tb \<noteq> dm_uuid ag \<or> dm_event tb \<noteq> dm_event ag
        \<or> dm_parameters tb \<noteq> dm_parameters ag \<or> dm_sectors tb \<noteq> dm_sectors ag
        \<or> dm_read_only tb \<noteq> dm_read_only ag
        \<or> dm_name tb \<noteq> dm_name st \<or> dm_uuid tb \<noteq> dm_uuid st \<or> dm_event tb \<noteq> dm_event st
        \<or> dm_sectors tb \<noteq> dm_sectors st \<or> dm_read_only tb \<noteq> dm_read_only st)"
    and 3: "read_bounded (\<lambda>_. mountinfo_after K) ''/proc/self/mountinfo'' MAX_MOUNTINFO = Inr a" "\<not> a \<noteq> b"
    and 4: "parse_verity_status (dm_parameters st) = Inr (co, ce)"
    and 5: "parse_verity_parameters (dm_parameters tb) = Inr pa"
      "\<not> data_blocks pa * data_block_size pa div 512 \<noteq> dm_sectors tb"
    and m: "Inr \<lparr>mv_root = r, mv_table = pa, mapper_name = dm_name tb,
               mapper_uuid = dm_uuid tb, mapper_event_number = dm_event tb,
               mapper_read_only = dm_read_only tb, corruption_detected = co,
               fec_corrected_blocks = ce, mv_sectors = dm_sectors tb\<rparr> = (Inr m :: UnverifiedMountedVerity boot)"
    using assms unfolding collect_mounted_verity_def Let_def
    by - (elim result_elims, (rule that; assumption))
  have wf: "verity_table_wf pa" using 5(1) by (rule parse_verity_parameters_wf)
  then have "512 dvd data_blocks pa * data_block_size pa"
    using power_of_two_512 [of "data_block_size pa"] by (auto simp: verity_table_wf_def)
  then have "dm_sectors tb * 512 = data_blocks pa * data_block_size pa"
    using 5(2) by auto
  moreover have "tb = ag" "st = tb\<lparr>dm_parameters := dm_parameters st\<rparr>" using same by (cases tb; cases st; simp)+
  then have "snapshot_of K m tb st"
    using q 4 5(1) m by (auto simp: snapshot_of_def Let_def)
  ultimately show ?thesis
    using 1 2 3 m wf by (auto simp: read_bounded_Inr_iff)
qed

lemma panic_free_number [no_error_intros]: "panic_free (number b s)"
  by (auto simp: number_def intro!: no_error_intros)

lemma panic_free_device [no_error_intros]: "panic_free (device s)"
  by (auto simp: device_def intro!: no_error_intros)

lemma panic_free_fields [no_error_intros]:
  "panic_free (u32_field bs n)" "panic_free (u64_field bs n)" "panic_free (cstr bs)"
  by (auto simp: u32_field_eq u64_field_eq cstr_eq intro!: no_error_intros)

lemma panic_free_mountinfo [no_error_intros]: "panic_free (parse_root_mountinfo bs)"
proof -
  have "panic_free (mountinfo_line r l)" for r l
    unfolding mountinfo_line_eq Let_def by (intro no_error_intros) simp_all
  then show ?thesis
    unfolding parse_root_mountinfo_def by (intro no_error_intros never_fails_foldR) simp_all
qed

lemma panic_free_dm_response [no_error_intros]: "panic_free (parse_dm_response bs d)"
  unfolding parse_dm_response_eq Let_def by (intro no_error_intros) simp_all

lemma panic_free_dm_query [no_error_intros]:
  "(\<And>q. panic_free (ioctl q)) \<Longrightarrow> panic_free (dm_query ioctl len d tb)"
proof (induction ioctl len d tb rule: dm_query.induct)
  case (1 ioctl len d tb)
  show ?case
    by (subst dm_query.simps) (intro no_error_intros 1; simp)
qed

lemma panic_free_option_keys [no_error_intros]: "panic_free (option_keys seen opts)"
proof (induction seen opts rule: option_keys.induct)
  case (2 seen key rest)
  have "panic_free (check_option_value k v)" for k v
    by (auto simp: check_option_value_def intro!: no_error_intros simp del: list.map)
  with 2 show ?case
    by (auto intro!: no_error_intros simp del: list.map split: list.splits)
qed (auto intro: no_error_intros)

lemma panic_free_verity_parameters [no_error_intros]: "panic_free (parse_verity_parameters t)"
  unfolding parse_verity_parameters_eq validate_options_def verity_digest_size_def Let_def
  by (intro no_error_intros) simp_all

lemma panic_free_verity_status [no_error_intros]: "panic_free (parse_verity_status t)"
  unfolding parse_verity_status_def Let_def
  by (auto intro!: no_error_intros simp del: list.map split: list.splits)

lemma panic_free_read_bounded [no_error_intros]: "panic_free (fs p) \<Longrightarrow> panic_free (read_bounded fs p n)"
  unfolding read_bounded_def Let_def by (intro no_error_intros) simp_all

definition kernel_panic_free :: "dm_kernel \<Rightarrow> bool" where
  "kernel_panic_free K \<longleftrightarrow> panic_free (mountinfo_before K) \<and> panic_free (mountinfo_after K) \<and>
     panic_free (open_control K) \<and> (\<forall>i q. panic_free (dm_ioctl K i q))"

lemma panic_free_collect:
  assumes "kernel_panic_free K"
  shows "panic_free (collect_mounted_verity K)"
proof -
  have "\<not> 2 ^ 64 \<le> data_blocks p * data_block_size p" if "parse_verity_parameters t = Inr p" for t p
    using parse_verity_parameters_wf [OF that] by (simp add: verity_table_wf_def)
  then show ?thesis
    using assms unfolding collect_mounted_verity_def Let_def kernel_panic_free_def
    by (intro no_error_intros; (blast | simp))
qed

lemma check_observed_policy_iff:
  "check_observed_policy m policy = Inr () \<longleftrightarrow>
     rm_read_only (mv_root m) \<and> mapper_read_only m \<and> \<not> corruption_detected m \<and>
     vt_root_digest_hex (mv_table m) = to_ascii_lowercase (expected_root_digest_hex policy) \<and>
     hash_algorithm (mv_table m) = expected_hash_algorithm policy \<and>
     salt_hex (mv_table m) = to_ascii_lowercase (expected_salt_hex policy) \<and>
     data_blocks (mv_table m) = expected_data_blocks policy \<and>
     data_block_size (mv_table m) = expected_data_block_size policy \<and>
     hash_block_size (mv_table m) = expected_hash_block_size policy \<and>
     hash_start_block (mv_table m) = expected_hash_start_block policy \<and>
     format_version (mv_table m) = expected_format_version policy \<and>
     rm_filesystem (mv_root m) = expected_filesystem policy \<and>
     optional_parameters (mv_table m) = expected_optional_parameters policy \<and>
     lit ''ignore_corruption'' \<notin> set (optional_parameters (mv_table m)) \<and>
     lit ''check_at_most_once'' \<notin> set (optional_parameters (mv_table m))"
  unfolding check_observed_policy_def Let_def if_Inl_eq_Inr_iff by blast

section \<open>Properties\<close>

text \<open>C13. A collected snapshot describes one state of the kernel: both reads of the mount table agree
  and give its root mount; the table query before the status, the table query after it and the status
  agree on name, UUID, event number, size and read-only flag, and the two tables also on their
  parameters, which parse to its table. That table is well-formed (power-of-two block sizes, byte
  extents that do not overflow, a digest of its algorithm's length, consistent options) and its extent
  is the size of the mapped device. The policy accepts the snapshot exactly when the root and the
  mapper are read-only, no corruption was seen, all of digest, algorithm, salt, data and hash geometry,
  format, filesystem and the ordered options are the expected ones, and no option weakens
  verification. Collecting cannot panic unless a kernel call does.\<close>

theorem observed_verity_strict:
  assumes "collect_mounted_verity K = Inr m" and "kernel_panic_free K'"
  shows "panic_free (collect_mounted_verity K') \<and>
    (\<exists>b. mountinfo_before K = Inr b \<and> mountinfo_after K = Inr b \<and> parse_root_mountinfo b = Inr (mv_root m)) \<and>
    (\<exists>table status. snapshot_of K m table status) \<and> verity_table_wf (mv_table m) \<and>
    mv_sectors m * 512 = data_blocks (mv_table m) * data_block_size (mv_table m) \<and>
    (check_observed_policy m policy = Inr () \<longleftrightarrow>
       rm_read_only (mv_root m) \<and> mapper_read_only m \<and> \<not> corruption_detected m \<and>
       vt_root_digest_hex (mv_table m) = to_ascii_lowercase (expected_root_digest_hex policy) \<and>
       hash_algorithm (mv_table m) = expected_hash_algorithm policy \<and>
       salt_hex (mv_table m) = to_ascii_lowercase (expected_salt_hex policy) \<and>
       data_blocks (mv_table m) = expected_data_blocks policy \<and>
       data_block_size (mv_table m) = expected_data_block_size policy \<and>
       hash_block_size (mv_table m) = expected_hash_block_size policy \<and>
       hash_start_block (mv_table m) = expected_hash_start_block policy \<and>
       format_version (mv_table m) = expected_format_version policy \<and>
       rm_filesystem (mv_root m) = expected_filesystem policy \<and>
       optional_parameters (mv_table m) = expected_optional_parameters policy \<and>
       lit ''ignore_corruption'' \<notin> set (optional_parameters (mv_table m)) \<and>
       lit ''check_at_most_once'' \<notin> set (optional_parameters (mv_table m)))"
  using collect_mounted_verity_Inr [OF assms(1)] panic_free_collect [OF assms(2)]
    check_observed_policy_iff [of m policy] by blast

text \<open>A kernel that answers for an 8:1 verity root of one 4096-byte block.\<close>

definition demo_mountinfo :: bytes where
  "demo_mountinfo = [50, 49, 32, 49, 32, 56, 58, 49, 32, 47, 32, 47, 32, 114, 111, 32, 45, 32, 120, 32, 47, 32, 114, 111, 10]"

definition demo_verity_params :: str where
  "demo_verity_params = [49, 32, 56, 58, 49, 32, 56, 58, 50, 32, 52, 48, 57, 54, 32, 52, 48, 57, 54, 32, 49, 32, 49, 32, 115, 104, 97, 50, 53, 54, 32] @ replicate 64 97 @ [32, 45]"

definition demo_target :: "str \<Rightarrow> bytes" where
  "demo_target params =
     le_bytes 8 0 @ le_bytes 8 8 @ le_bytes 4 0 @ le_bytes 4 ((48 + length params) div 8 * 8) @
     (lit ''verity'' @ replicate 10 0) @ params @ [0]"

definition demo_dm :: "str \<Rightarrow> bytes" where
  "demo_dm params =
     le_bytes 4 4 @ replicate 8 0 @ le_bytes 4 (353 + length params) @ le_bytes 4 312 @ le_bytes 4 1 @
     replicate 4 0 @ le_bytes 4 33 @ replicate 8 0 @ le_bytes 8 2049 @ replicate 264 0 @ demo_target params"

definition demo_kernel :: dm_kernel where
  "demo_kernel = \<lparr>mountinfo_before = Inr demo_mountinfo, open_control = Inr (),
     dm_ioctl = (\<lambda>i _. Inr (demo_dm (if i = 1 then [86] else demo_verity_params))),
     mountinfo_after = Inr demo_mountinfo\<rparr>"

lemma dm_query_const:
  "u32_field data 28 = Inr flags \<Longrightarrow> flags AND push_bit 8 1 = 0 \<Longrightarrow>
   dm_query (\<lambda>_. Inr data) len dev tb = parse_dm_response data dev"
  by (subst dm_query.simps) simp

lemma length_demo_target: "length (demo_target params) = 41 + length params"
  by (simp add: demo_target_def)

lemma length_demo_dm: "length (demo_dm params) = 353 + length params"
  by (simp add: demo_dm_def length_demo_target)

lemma demo_dm_fields:
  assumes "length params < 1000"
  shows "u32_field (demo_dm params) 0 = Inr 4" "u32_field (demo_dm params) 12 = Inr (of_nat (353 + length params))"
    "u32_field (demo_dm params) 16 = Inr 312" "u32_field (demo_dm params) 20 = Inr 1"
    "u32_field (demo_dm params) 28 = Inr 33" "u32_field (demo_dm params) 32 = Inr 0"
    "u64_field (demo_dm params) 40 = Inr 2049"
    "slice (demo_dm params) 312 (353 + length params) = Some (demo_target params)"
  using assms
  by (simp_all add: u32_field_eq u64_field_eq slice_def length_demo_dm ok_or_def demo_dm_def
      le_nat_le_bytes length_demo_target)

lemma demo_target_fields:
  assumes "length params < 1000"
  shows "u64_field (demo_target params) 0 = Inr 0" "u64_field (demo_target params) 8 = Inr 8"
    "u32_field (demo_target params) 16 = Inr 0"
    "u32_field (demo_target params) 20 = Inr (of_nat ((48 + length params) div 8 * 8))"
    "take 16 (drop 24 (demo_target params)) = lit ''verity'' @ replicate 10 0"
    "drop 40 (demo_target params) = params @ [0]"
  using assms
  by (simp_all add: u32_field_eq u64_field_eq slice_def length_demo_target ok_or_def demo_target_def
      le_nat_le_bytes del: of_nat_mult of_nat_add)

lemma cstr_terminated:
  assumes "0 \<notin> set s" and "utf8_decode s \<noteq> None"
  shows "cstr (s @ 0 # rest) = Inr s"
proof -
  have "position (\<lambda>c. c = 0) (s @ 0 # rest) = Some (length s)"
    using assms(1) by (auto simp: position_Some_iff nth_append in_set_conv_nth)
  then show ?thesis
    using assms(2) by (simp add: cstr_eq ok_or_def from_utf8_def)
qed

lemma cstr_zeros: "0 < n \<Longrightarrow> cstr (replicate n 0) = Inr []"
  using cstr_terminated [of "[]"] by (cases n) simp_all

lemma demo_dm_response:
  assumes "length params < 1000" "0 \<notin> set params" "utf8_decode params \<noteq> None"
  shows "parse_dm_response (demo_dm params) (encode_device 8 1) = Inr \<lparr>dm_name = [], dm_uuid = [],
     dm_event = 0, dm_read_only = True, dm_sectors = 8, dm_parameters = params\<rparr>"
proof -
  have ver: "cstr (118 # 101 # 114 # 105 # 116 # 121 # replicate 10 0) = Inr [118, 101, 114, 105, 116, 121]"
    by code_simp
  have dev: "encode_device 8 1 = 2049" by code_simp
  have nm: "take 128 (drop 48 (demo_dm params)) = replicate 128 0"
      "take 129 (drop 176 (demo_dm params)) = replicate 129 0"
    by (simp_all add: demo_dm_def)
  have u: "unat (of_nat (353 + length params) :: u32) = 353 + length params"
      "unat (of_nat ((48 + length params) div 8 * 8) :: u32) = (48 + length params) div 8 * 8"
    by (rule unat_of_nat_small, use assms(1) in simp)+
  have fl: "(33 :: u32) AND push_bit 5 1 \<noteq> 0" "(33 :: u32) AND 1 \<noteq> 0"
      "(33 :: u32) AND (push_bit 1 1 OR push_bit 8 1 OR push_bit 12 1 OR push_bit 17 1 OR push_bit 18 1) = 0"
    by code_simp+
  show ?thesis
    using assms cstr_terminated [OF assms(2,3), of "[]"]
    by (simp add: parse_dm_response_eq Let_def length_demo_dm demo_dm_fields demo_target_fields u fl dev
        ver nm cstr_zeros length_demo_target ok_or_def del: of_nat_add of_nat_mult One_nat_def)
qed

definition demo_mount :: UnverifiedRootMount where
  "demo_mount = \<lparr>mount_id = 21, rm_major = 8, rm_minor = 1, rm_filesystem = [120], rm_read_only = True\<rparr>"

lemma demo_mountinfo_parses: "parse_root_mountinfo demo_mountinfo = Inr demo_mount"
  by code_simp

definition demo_table :: UnverifiedVerityTable where
  "demo_table = \<lparr>format_version = 1, data_device = [56, 58, 49], hash_device = [56, 58, 50],
     data_block_size = 4096, hash_block_size = 4096, data_blocks = 1, hash_start_block = 1,
     hash_algorithm = lit ''sha256'', vt_root_digest_hex = replicate 64 97, salt_hex = [],
     optional_parameters = []\<rparr>"

lemma replicate_64: "replicate 64 x = [x, x, x, x, x, x, x, x, x, x, x, x, x, x, x, x, x, x, x, x, x, x, x, x, x, x, x, x, x, x, x, x, x, x, x, x, x, x, x, x, x, x, x, x, x, x, x, x, x, x, x, x, x, x, x, x, x, x, x, x, x, x, x, x]"
  by (simp add: eval_nat_numeral)

lemma demo_table_fields:
  "split_ascii_whitespace demo_verity_params = [[49], [56, 58, 49], [56, 58, 50], [52, 48, 57, 54],
     [52, 48, 57, 54], [49], [49], [115, 104, 97, 50, 53, 54], replicate 64 97, [45]]"
  by (simp add: split_ascii_whitespace_def demo_verity_params_def replicate_64 is_ascii_whitespace_def)

lemma demo_table_parses: "parse_verity_parameters demo_verity_params = Inr demo_table"
proof -
  have hex: "list_all is_ascii_hexdigit (replicate 64 (97 :: byte))"
    by (simp add: list_all_iff is_ascii_hexdigit_def is_ascii_digit_def)
  have "is_power_of_two 4096" by code_simp
  then show ?thesis
    by (simp add: parse_verity_parameters_eq demo_table_fields hex number_def parse_below_def decimal_def
        is_ascii_digit_def device_def split_once_def to_ascii_lowercase_def ascii_lower_def
        validate_options_def verity_digest_size_def demo_table_def ok_or_def fec_options_def
        corruption_modes_def Let_def)
      (simp add: demo_verity_params_def)
qed

definition demo_verity :: UnverifiedMountedVerity where
  "demo_verity = \<lparr>mv_root = demo_mount, mv_table = demo_table, mapper_name = [], mapper_uuid = [],
     mapper_event_number = 0, mapper_read_only = True, corruption_detected = False,
     fec_corrected_blocks = None, mv_sectors = 8\<rparr>"

definition demo_verity_policy :: MountedVerityPolicy where
  "demo_verity_policy = \<lparr>expected_root_digest_hex = replicate 64 65, expected_hash_algorithm = lit ''sha256'',
     expected_salt_hex = [], expected_data_blocks = 1, expected_data_block_size = 4096,
     expected_hash_block_size = 4096, expected_hash_start_block = 1, expected_format_version = 1,
     expected_filesystem = [120], expected_optional_parameters = []\<rparr>"

lemma demo_collect: "collect_mounted_verity demo_kernel = Inr demo_verity"
proof -
  have st: "parse_verity_status [86] = Inr (False, None)" by code_simp
  have len: "length demo_mountinfo \<le> 4194304" by (simp add: demo_mountinfo_def)
  have ps: "length demo_verity_params < 1000" "0 \<notin> set demo_verity_params" "length [86 :: byte] < 1000"
      "0 \<notin> set [86 :: byte]"
    by (simp_all add: demo_verity_params_def)
  have "utf8_decode [86] = Some [86]" "utf8_decode demo_verity_params = Some (map unat demo_verity_params)"
    by code_simp+
  then have utf: "utf8_decode [86] \<noteq> None" "utf8_decode demo_verity_params \<noteq> None" by simp_all
  have clear: "(33 :: u32) AND push_bit 8 1 = 0" by code_simp
  note query = dm_query_const [OF demo_dm_fields(5) [OF ps(1)] clear] dm_query_const [OF demo_dm_fields(5) [OF ps(3)] clear]
  show ?thesis
    using len
    by (simp add: collect_mounted_verity_def demo_kernel_def demo_mountinfo_parses query st
        demo_dm_response [OF ps(1,2) utf(2)] demo_dm_response [OF ps(3,4) utf(1)]
        demo_table_parses demo_mount_def demo_table_def demo_verity_def
        read_bounded_def usize_checked_add_def ok_or_def Let_def del: One_nat_def)
qed

theorem observed_verity_strict_witness:
  "panic_free (collect_mounted_verity demo_kernel) \<and>
   (\<exists>table status. snapshot_of demo_kernel demo_verity table status) \<and>
   mv_sectors demo_verity * 512 = data_blocks (mv_table demo_verity) * data_block_size (mv_table demo_verity) \<and>
   vt_root_digest_hex (mv_table demo_verity) = to_ascii_lowercase (replicate 64 65)"
proof -
  have pol: "check_observed_policy demo_verity demo_verity_policy = Inr ()" by code_simp
  have "kernel_panic_free demo_kernel"
    by (simp add: kernel_panic_free_def demo_kernel_def never_fails_Inr)
  from observed_verity_strict [OF demo_collect this, of demo_verity_policy] pol
  have "panic_free (collect_mounted_verity demo_kernel)"
      "\<exists>table status. snapshot_of demo_kernel demo_verity table status"
      "mv_sectors demo_verity * 512 = data_blocks (mv_table demo_verity) * data_block_size (mv_table demo_verity)"
      "vt_root_digest_hex (mv_table demo_verity) = to_ascii_lowercase (expected_root_digest_hex demo_verity_policy)"
    by blast+
  then show ?thesis by (simp add: demo_verity_policy_def)
qed

end
