(* ===== verification/Uki_Pe.thy ===== *)
theory Uki_Pe
  imports Boot_Cmdline "HOL-Library.Multiset"
begin

unbundle bit_operations_syntax

text \<open>
  The bounded PE parser for unified kernel images (\<open>v2/src/boot/uki.rs\<close>): headers, the section
  table, the certificate directory, and reading a section (its file bytes, its digest as loaded, its
  text). The lemmas show that an accepted image has its sections inside the file and the image, with
  raw and memory ranges that do not overlap, so that no later slice can panic, and that the chunked
  zero-fill hash is the hash of the loaded section.
\<close>

abbreviation MAX_UKI_BYTES :: nat where "MAX_UKI_BYTES \<equiv> 512 * 1024 * 1024"
abbreviation MAX_SECTIONS :: nat where "MAX_SECTIONS \<equiv> 96"
abbreviation MAX_TEXT_BYTES :: nat where "MAX_TEXT_BYTES \<equiv> 64 * 1024"

definition MEASURED_SECTIONS :: "str list" where
  "MEASURED_SECTIONS =
     [lit ''.linux'', lit ''.osrel'', lit ''.cmdline'', lit ''.initrd'', lit ''.ucode'', lit ''.splash'',
      lit ''.dtb'', lit ''.uname'', lit ''.sbat'', lit ''.pcrpkey'', lit ''.profile'', lit ''.dtbauto'',
      lit ''.hwids'', lit ''.efifw'']"

record UnverifiedPeSection =
  pe_name :: str
  virtual_size :: nat
  virtual_address :: nat
  raw_offset :: nat
  raw_size :: nat

record UnverifiedUki =
  uki_bytes :: bytes
  uki_sections :: "UnverifiedPeSection list"

section \<open>Fields and ranges\<close>

definition field :: "bytes \<Rightarrow> nat \<Rightarrow> nat \<Rightarrow> bytes boot" where
  "field bs start len =
     bindR (ok_or (usize_checked_add start len) (Limit ''PE offset'')) (\<lambda>stop.
     ok_or (slice bs start stop) (Uki ''truncated PE field''))"

definition u16_at :: "bytes \<Rightarrow> nat \<Rightarrow> u16 boot" where
  "u16_at bs start = bindR (field bs start 2) (\<lambda>v. Inr (of_nat (le_nat v)))"

definition u32_at :: "bytes \<Rightarrow> nat \<Rightarrow> nat boot" where
  "u32_at bs start = bindR (field bs start 4) (\<lambda>v. Inr (le_nat v))"

definition range_end :: "nat \<Rightarrow> nat \<Rightarrow> nat boot" where
  "range_end start len = ok_or (usize_checked_add start len) (Limit ''PE range'')"

definition disjoint :: "(nat \<times> nat) list \<Rightarrow> nat \<Rightarrow> unit boot" where
  "disjoint ranges floor =
     bindR (foldR (\<lambda>stop (start, stop'). if start < stop
         then Inl (Uki ''overlapping PE sections or headers'') else Inr stop') floor (sort ranges)) (\<lambda>_.
     Inr ())"

section \<open>The section table\<close>

record pe_layout =
  image_size :: nat
  section_alignment :: nat
  file_alignment :: nat

record pe_state =
  ps_sections :: "UnverifiedPeSection list"
  raw_ranges :: "(nat \<times> nat) list"
  memory_ranges :: "(nat \<times> nat) list"

definition pe_entry_name :: "bytes \<Rightarrow> str boot" where
  "pe_entry_name entry =
     (let name_len = (case position (\<lambda>b. b = 0) (take 8 entry) of None \<Rightarrow> 8 | Some n \<Rightarrow> n) in
      if name_len = 0 \<or> entry ! 0 = 47
         \<or> \<not> list_all (\<lambda>b. 0x21 \<le> unat b \<and> unat b \<le> 0x7e) (take name_len entry)
         \<or> (\<exists>b \<in> set (drop name_len (take 8 entry)). b \<noteq> 0)
      then Inl (Uki ''invalid PE section name'')
      else ok_or (from_utf8 (take name_len entry)) (Panic ''section name''))"

definition pe_entry :: "bytes \<Rightarrow> pe_layout \<Rightarrow> pe_state \<Rightarrow> bytes \<Rightarrow> pe_state boot" where
  "pe_entry bs L st entry =
     bindR (pe_entry_name entry) (\<lambda>name.
     bindR (u32_at entry 8) (\<lambda>vsize.
     bindR (u32_at entry 12) (\<lambda>vaddr.
     bindR (u32_at entry 16) (\<lambda>rsize.
     bindR (u32_at entry 20) (\<lambda>roff.
     let extent = max vsize rsize; bad = Uki ''invalid PE virtual section range'' in
     if vsize > MAX_UKI_BYTES \<or> extent > image_size L \<or> vaddr mod section_alignment L \<noteq> 0 then Inl bad
     else bindR (range_end vaddr extent) (\<lambda>mem_end.
     if mem_end > image_size L then Inl bad
     else let mem = (if extent > 0 then memory_ranges st @ [(vaddr, mem_end)] else memory_ranges st) in
     bindR (if rsize > 0 then
              if roff mod file_alignment L \<noteq> 0 \<or> rsize mod file_alignment L \<noteq> 0
              then Inl (Uki ''unaligned PE raw section'')
              else bindR (field bs roff rsize) (\<lambda>_.
                   bindR (range_end roff rsize) (\<lambda>e. Inr (raw_ranges st @ [(roff, e)])))
            else if roff \<noteq> 0 then Inl (Uki ''uninitialized PE section has raw offset'')
            else Inr (raw_ranges st)) (\<lambda>raw.
     if name \<in> set MEASURED_SECTIONS \<and> vsize = 0 then Inl (Uki ''empty measured UKI section'')
     else if \<exists>b \<in> set (take 12 (drop 24 entry)). b \<noteq> 0
     then Inl (Uki ''COFF object section metadata is unsupported'')
     else Inr \<lparr>ps_sections = ps_sections st @ [\<lparr>pe_name = name, virtual_size = vsize,
                 virtual_address = vaddr, raw_offset = roff, raw_size = rsize\<rparr>],
               raw_ranges = raw, memory_ranges = mem\<rparr>)))))))"

text \<open>\<open>chunks_exact\<close>.\<close>

definition chunks_exact :: "nat \<Rightarrow> 'a list \<Rightarrow> 'a list list" where
  "chunks_exact n xs = map (\<lambda>i. take n (drop (i * n) xs)) [0..<length xs div n]"

section \<open>The image\<close>

definition pe_certificates ::
  "bytes \<Rightarrow> bytes \<Rightarrow> nat \<Rightarrow> nat \<Rightarrow> (nat \<times> nat) list \<Rightarrow> (nat \<times> nat) list boot" where
  "pe_certificates bs optional directory_offset directory_count raw =
     (if directory_count > 4 then
        bindR (u32_at optional (directory_offset + 4 * 8)) (\<lambda>cert_offset.
        bindR (u32_at optional (directory_offset + 4 * 8 + 4)) (\<lambda>cert_size.
        if (cert_offset = 0) \<noteq> (cert_size = 0) \<or> cert_offset mod 8 \<noteq> 0
        then Inl (Uki ''invalid PE certificate directory'')
        else if cert_size > 0 then
          bindR (field bs cert_offset cert_size) (\<lambda>_.
          bindR (range_end cert_offset cert_size) (\<lambda>e. Inr (raw @ [(cert_offset, e)])))
        else Inr raw))
      else Inr raw)"

definition pe_directory_offset :: "u16 \<Rightarrow> nat boot" where
  "pe_directory_offset magic =
     (if magic = 0x10b then Inr 96 else if magic = 0x20b then Inr 112
      else Inl (Uki ''unsupported PE optional-header format''))"

definition parse_pe :: "bytes \<Rightarrow> bool \<Rightarrow> UnverifiedUki boot" where
  "parse_pe bs require_kernel =
     (if length bs > MAX_UKI_BYTES then Inl (Limit ''UKI file bytes'')
      else bindR (field bs 0 2) (\<lambda>mz.
      if mz \<noteq> lit ''MZ'' then Inl (Uki ''missing DOS image header'')
      else bindR (u32_at bs 0x3c) (\<lambda>pe.
      if pe < 64 then Inl (Uki ''invalid PE image header'')
      else bindR (field bs pe 24) (\<lambda>hdr.
      if take 4 hdr \<noteq> lit ''PE'' @ [0, 0] then Inl (Uki ''invalid PE image header'')
      else bindR (u16_at bs (pe + 6)) (\<lambda>count.
      if count = 0 \<or> unat count > MAX_SECTIONS then Inl (Limit ''PE section count'')
      else bindR (u16_at bs (pe + 22)) (\<lambda>characteristics.
      if characteristics AND 2 = 0 \<or> characteristics AND 0x2000 \<noteq> 0
      then Inl (Uki ''PE image is not a standalone executable'')
      else bindR (u16_at bs (pe + 20)) (\<lambda>optional_len.
      bindR (field bs (pe + 24) (unat optional_len)) (\<lambda>optional.
      bindR (u16_at optional 0) (\<lambda>magic.
      bindR (pe_directory_offset magic) (\<lambda>directory_offset.
      bindR (u16_at optional 68) (\<lambda>subsystem.
      if subsystem \<noteq> 10 then Inl (Uki ''PE subsystem is not an EFI application'')
      else bindR (u32_at optional (directory_offset - 4)) (\<lambda>directory_count.
      if directory_count > 16 then Inl (Uki ''unsupported PE data-directory count'')
      else bindR (field optional directory_offset (directory_count * 8)) (\<lambda>_.
      bindR (u32_at optional 32) (\<lambda>salign.
      bindR (u32_at optional 36) (\<lambda>falign.
      if \<not> is_power_of_two salign \<or> \<not> is_power_of_two falign \<or> salign < falign \<or> \<not> (512 \<le> falign \<and> falign \<le> 65536)
         \<or> (salign < 4096 \<and> salign \<noteq> falign)
      then Inl (Uki ''unsupported PE section/file alignment'')
      else bindR (u32_at optional 56) (\<lambda>isize.
      bindR (u32_at optional 60) (\<lambda>headers_size.
      if isize = 0 \<or> isize > MAX_UKI_BYTES \<or> isize mod salign \<noteq> 0 \<or> headers_size = 0
         \<or> headers_size > length bs \<or> headers_size > isize \<or> headers_size mod falign \<noteq> 0
      then Inl (Uki ''invalid PE image/header size'')
      else bindR (range_end (pe + 24) (unat optional_len)) (\<lambda>table_start.
      bindR (field bs table_start (unat count * 40)) (\<lambda>table.
      bindR (range_end table_start (length table)) (\<lambda>table_end.
      if table_end > headers_size then Inl (Uki ''PE section table outside image headers'')
      else bindR (foldR (pe_entry bs \<lparr>image_size = isize, section_alignment = salign, file_alignment = falign\<rparr>)
                   \<lparr>ps_sections = [], raw_ranges = [], memory_ranges = []\<rparr> (chunks_exact 40 table)) (\<lambda>st.
      bindR (disjoint (memory_ranges st) headers_size) (\<lambda>_.
      bindR (pe_certificates bs optional directory_offset directory_count (raw_ranges st)) (\<lambda>raw.
      bindR (disjoint raw headers_size) (\<lambda>_.
      if require_kernel \<and> (\<forall>s \<in> set (ps_sections st). pe_name s \<noteq> lit ''.linux'')
      then Inl (Uki ''UKI has no .linux section'')
      else Inr \<lparr>uki_bytes = bs, uki_sections = ps_sections st\<rparr>))))))))))))))))))))))))"

definition parse_uki :: "bytes \<Rightarrow> UnverifiedUki boot" where
  "parse_uki bs = parse_pe bs True"

definition parse_addon :: "bytes \<Rightarrow> UnverifiedUki boot" where
  "parse_addon bs =
     bindR (parse_pe bs False) (\<lambda>image.
     if \<exists>s \<in> set (uki_sections image). pe_name s = lit ''.linux''
     then Inl (Uki ''addon contains kernel section'') else Inr image)"

section \<open>Reading a section\<close>

definition find_section :: "UnverifiedUki \<Rightarrow> str \<Rightarrow> UnverifiedPeSection option" where
  "find_section u name = find (\<lambda>s. pe_name s = name) (uki_sections u)"

definition file_content :: "UnverifiedUki \<Rightarrow> UnverifiedPeSection \<Rightarrow> bytes boot" where
  "file_content u s =
     ok_or (slice (uki_bytes u) (raw_offset s) (raw_offset s + min (raw_size s) (virtual_size s)))
       (Panic ''slice index'')"

text \<open>A hasher is the bytes fed to it so far; \<open>finalize\<close> applies the digest.\<close>

function feed_zeros :: "bytes \<Rightarrow> nat \<Rightarrow> bytes" where
  "feed_zeros fed zeros =
     (if zeros > 0 then
        let count = min zeros 4096 in feed_zeros (fed @ take count (replicate 4096 0)) (zeros - count)
      else fed)"
  by auto
termination
  by (relation "measure snd") auto

declare feed_zeros.simps [simp del]

definition hash_loaded :: "(bytes \<Rightarrow> bytes) \<Rightarrow> bytes \<Rightarrow> nat \<Rightarrow> bytes" where
  "hash_loaded digest bs zeros = digest (feed_zeros bs zeros)"

definition section_digest :: "prims \<Rightarrow> UnverifiedUki \<Rightarrow> UnverifiedPeSection \<Rightarrow> u16 \<Rightarrow> bytes boot" where
  "section_digest P u s algorithm =
     bindR (file_content u s) (\<lambda>bs.
     let zero_count = virtual_size s - length bs in
     if algorithm = TPM_ALG_SHA256 then Inr (hash_loaded (sha256 P) bs zero_count)
     else if algorithm = TPM_ALG_SHA384 then Inr (hash_loaded (sha384 P) bs zero_count)
     else if algorithm = TPM_ALG_SHA512 then Inr (hash_loaded (sha512 P) bs zero_count)
     else Inl (UnsupportedAlgorithm algorithm))"

definition section_text :: "UnverifiedUki \<Rightarrow> UnverifiedPeSection \<Rightarrow> str boot" where
  "section_text u s =
     (if virtual_size s > MAX_TEXT_BYTES then Inl (Limit ''UKI text section bytes'')
      else bindR (file_content u s) (\<lambda>content.
      let stop = (case position (\<lambda>b. b = 0) content of None \<Rightarrow> length content | Some n \<Rightarrow> n) in
      if \<exists>b \<in> set (drop stop content). b \<noteq> 0 then Inl (Uki ''nonzero bytes after UKI text terminator'')
      else bindR (ok_or (from_utf8 (take stop content)) (Uki ''invalid UTF-8 UKI metadata'')) (\<lambda>txt.
      if \<exists>c \<in> set (chars txt). is_control c \<and> c \<notin> {10, 13, 9}
      then Inl (Uki ''unsupported control character in UKI metadata'')
      else Inr txt)))"

definition uki_text :: "UnverifiedUki \<Rightarrow> str \<Rightarrow> str option boot" where
  "uki_text u name =
     (case find_section u name of
        None \<Rightarrow> Inr None
      | Some s \<Rightarrow> bindR (section_text u s) (\<lambda>t. Inr (Some t)))"

section \<open>Ranges that do not overlap\<close>

text \<open>A symmetric relation that holds pairwise on a list holds pairwise on every permutation of it.\<close>

lemma sorted_wrt_remove: "sorted_wrt R (us @ x # vs) \<Longrightarrow> sorted_wrt R (us @ vs)"
  by (auto simp: sorted_wrt_append)

lemma sorted_wrt_permute:
  assumes "symp S"
  shows "sorted_wrt S ys \<Longrightarrow> mset xs = mset ys \<Longrightarrow> sorted_wrt S xs"
proof (induction xs arbitrary: ys)
  case (Cons x xs)
  then have "x \<in> set ys" by (metis list.set_intros(1) set_mset_mset)
  then obtain us vs where ys: "ys = us @ x # vs" by (auto dest: split_list)
  have "sorted_wrt S (us @ vs)"
    using Cons.prems(1) unfolding ys by (rule sorted_wrt_remove)
  moreover have m: "mset xs = mset (us @ vs)"
    using Cons.prems(2) by (simp add: ys)
  ultimately have "sorted_wrt S xs" by (rule Cons.IH)
  moreover have "\<forall>y \<in> set us \<union> set vs. S x y"
    using Cons.prems(1) assms by (auto simp: ys sorted_wrt_append dest: sympD)
  moreover have "set xs = set us \<union> set vs"
    using m by (metis set_append set_mset_mset)
  ultimately show ?case by simp
qed simp


lemma field_Inr_iff:
  "field bs n len = Inr v \<longleftrightarrow>
     n + len < 2 ^ 64 \<and> n + len \<le> length bs \<and> v = take len (drop n bs)"
  by (auto simp: field_def usize_checked_add_def result_simps slice_Some_iff)

lemma range_end_Inr_iff: "range_end n len = Inr e \<longleftrightarrow> n + len < 2 ^ 64 \<and> e = n + len"
  by (auto simp: range_end_def usize_checked_add_def result_simps)

definition apart :: "nat \<times> nat \<Rightarrow> nat \<times> nat \<Rightarrow> bool" where
  "apart r q \<longleftrightarrow> snd r \<le> fst q \<or> snd q \<le> fst r"

lemma symp_apart: "symp apart"
  by (auto simp: apart_def symp_def)

lemma disjoint_loop:
  "foldR (\<lambda>stop (start, stop'). if start < stop then Inl e else Inr stop') fl rs = Inr z \<Longrightarrow>
   \<forall>(a, b) \<in> set rs. a \<le> b \<Longrightarrow> sorted_wrt apart rs \<and> (\<forall>(a, b) \<in> set rs. fl \<le> a)"
proof (induction rs arbitrary: fl)
  case (Cons r rs)
  obtain a b where r: "r = (a, b)" by (cases r)
  have ok: "fl \<le> a" "foldR (\<lambda>stop (start, stop'). if start < stop then Inl e else Inr stop') b rs = Inr z"
    using Cons.prems(1) by (auto simp: r result_simps split: if_splits)
  have "sorted_wrt apart rs \<and> (\<forall>(c, d) \<in> set rs. b \<le> c)"
    using Cons.IH [OF ok(2)] Cons.prems(2) by simp
  moreover have "a \<le> b" using Cons.prems(2) by (simp add: r)
  ultimately have "\<forall>q \<in> set rs. apart r q" "sorted_wrt apart rs" "\<forall>(c, d) \<in> set rs. fl \<le> c"
    using ok(1) by (auto simp: r apart_def)
  then show ?case
    using ok(1) by (simp add: r)
qed simp

lemma disjoint_sound:
  assumes "disjoint rs fl = Inr u" and "\<forall>(a, b) \<in> set rs. a \<le> b"
  shows "sorted_wrt apart rs \<and> (\<forall>(a, b) \<in> set rs. fl \<le> a)"
proof -
  obtain z where "foldR (\<lambda>stop (start, stop'). if start < stop
      then Inl (Uki ''overlapping PE sections or headers'') else Inr stop') fl (sort rs) = Inr z"
    using assms(1) by (auto simp: disjoint_def result_simps)
  then have "sorted_wrt apart (sort rs) \<and> (\<forall>(a, b) \<in> set (sort rs). fl \<le> a)"
    using assms(2) by (intro disjoint_loop) auto
  then show ?thesis
    using sorted_wrt_permute [OF symp_apart, of "sort rs" rs] by simp
qed

section \<open>What an accepted image is\<close>

definition raw_range :: "UnverifiedPeSection \<Rightarrow> nat \<times> nat" where
  "raw_range s = (raw_offset s, raw_offset s + raw_size s)"

definition memory_range :: "UnverifiedPeSection \<Rightarrow> nat \<times> nat" where
  "memory_range s = (virtual_address s, virtual_address s + max (virtual_size s) (raw_size s))"

definition section_wf :: "bytes \<Rightarrow> UnverifiedPeSection \<Rightarrow> bool" where
  "section_wf bs s \<longleftrightarrow>
     pe_name s \<noteq> [] \<and> length (pe_name s) \<le> 8 \<and> list_all (\<lambda>b. 0x21 \<le> unat b \<and> unat b \<le> 0x7e) (pe_name s) \<and>
     virtual_size s \<le> MAX_UKI_BYTES \<and> virtual_address s + max (virtual_size s) (raw_size s) \<le> MAX_UKI_BYTES \<and>
     raw_offset s + raw_size s \<le> length bs \<and>
     (pe_name s \<in> set MEASURED_SECTIONS \<longrightarrow> 0 < virtual_size s)"

definition uki_wf :: "UnverifiedUki \<Rightarrow> bool" where
  "uki_wf u \<longleftrightarrow>
     length (uki_bytes u) \<le> MAX_UKI_BYTES \<and> length (uki_sections u) \<le> MAX_SECTIONS \<and>
     (\<forall>s \<in> set (uki_sections u). section_wf (uki_bytes u) s) \<and>
     sorted_wrt apart (map raw_range (filter (\<lambda>s. 0 < raw_size s) (uki_sections u))) \<and>
     sorted_wrt apart (map memory_range (filter (\<lambda>s. 0 < max (virtual_size s) (raw_size s)) (uki_sections u)))"

definition pe_state_wf :: "bytes \<Rightarrow> nat \<Rightarrow> pe_state \<Rightarrow> bool" where
  "pe_state_wf bs isize st \<longleftrightarrow>
     (isize \<le> MAX_UKI_BYTES \<longrightarrow> (\<forall>s \<in> set (ps_sections st). section_wf bs s)) \<and>
     raw_ranges st = map raw_range (filter (\<lambda>s. 0 < raw_size s) (ps_sections st)) \<and>
     memory_ranges st = map memory_range (filter (\<lambda>s. 0 < max (virtual_size s) (raw_size s)) (ps_sections st))"

lemma pe_entry_name_ok:
  assumes "pe_entry_name entry = Inr name" and "entry \<noteq> []"
  shows "name \<noteq> [] \<and> length name \<le> 8 \<and> list_all (\<lambda>b. 0x21 \<le> unat b \<and> unat b \<le> 0x7e) name"
proof -
  define n where "n = (case position (\<lambda>b. b = 0) (take 8 entry) of None \<Rightarrow> 8 | Some n \<Rightarrow> n)"
  have "n \<le> 8"
    by (auto simp: n_def position_Some_iff split: option.splits)
  moreover have "n \<noteq> 0" "list_all (\<lambda>b. 0x21 \<le> unat b \<and> unat b \<le> 0x7e) (take n entry)" "name = take n entry"
    using assms(1) unfolding pe_entry_name_def Let_def n_def [symmetric]
    by (auto simp: result_simps from_utf8_Some_iff split: if_splits)
  ultimately show ?thesis using assms(2) by auto
qed

lemma pe_entry_wf:
  assumes "pe_entry bs L st entry = Inr st'" and "pe_state_wf bs (image_size L) st"
  shows "pe_state_wf bs (image_size L) st'"
proof -
  obtain name vsize vaddr rsize roff mem_end raw where
    name: "pe_entry_name entry = Inr name" and
    fields: "u32_at entry 8 = Inr vsize" "u32_at entry 12 = Inr vaddr" "u32_at entry 16 = Inr rsize"
      "u32_at entry 20 = Inr roff" and
    virt: "\<not> (vsize > MAX_UKI_BYTES \<or> max vsize rsize > image_size L \<or> vaddr mod section_alignment L \<noteq> 0)"
      "range_end vaddr (max vsize rsize) = Inr mem_end" "\<not> mem_end > image_size L" and
    raw: "(if rsize > 0 then
              if roff mod file_alignment L \<noteq> 0 \<or> rsize mod file_alignment L \<noteq> 0
              then Inl (Uki ''unaligned PE raw section'')
              else bindR (field bs roff rsize) (\<lambda>_.
                   bindR (range_end roff rsize) (\<lambda>e. Inr (raw_ranges st @ [(roff, e)])))
            else if roff \<noteq> 0 then Inl (Uki ''uninitialized PE section has raw offset'')
            else Inr (raw_ranges st)) = Inr raw" and
    meas: "\<not> (name \<in> set MEASURED_SECTIONS \<and> vsize = 0)"
      "\<not> (\<exists>b \<in> set (take 12 (drop 24 entry)). b \<noteq> 0)" and
    st': "Inr \<lparr>ps_sections = ps_sections st @ [\<lparr>pe_name = name, virtual_size = vsize,
                 virtual_address = vaddr, raw_offset = roff, raw_size = rsize\<rparr>],
               raw_ranges = raw,
               memory_ranges = (if max vsize rsize > 0 then memory_ranges st @ [(vaddr, mem_end)]
                                else memory_ranges st)\<rparr> = (Inr st' :: pe_state boot)"
    using assms(1) unfolding pe_entry_def Let_def by - (elim result_elims, (rule that; assumption))
  have "entry \<noteq> []" using fields(1) by (auto simp: u32_at_def result_simps field_Inr_iff)
  note n = pe_entry_name_ok [OF name this]
  have raw': "roff + rsize \<le> length bs" "raw = raw_ranges st @ (if rsize > 0 then [(roff, roff + rsize)] else [])"
    using raw by (auto simp: result_simps field_Inr_iff range_end_Inr_iff split: if_splits)
  have mem: "mem_end = vaddr + max vsize rsize" using virt(2) by (simp add: range_end_Inr_iff)
  define s where "s = \<lparr>pe_name = name, virtual_size = vsize, virtual_address = vaddr, raw_offset = roff,
      raw_size = rsize\<rparr>"
  have "image_size L \<le> MAX_UKI_BYTES \<Longrightarrow> section_wf bs s"
    using n raw'(1) virt(1,3) meas(1) mem by (auto simp: section_wf_def s_def)
  then show ?thesis
    using assms(2) st' raw'(2) mem
    by (auto simp: pe_state_wf_def s_def raw_range_def memory_range_def)
qed

lemma parse_pe_steps:
  assumes "parse_pe bs k = Inr u"
  obtains optional dir n isize salign falign headers table st raw v w where
    "length bs \<le> MAX_UKI_BYTES" "isize \<le> MAX_UKI_BYTES" "length table \<le> MAX_SECTIONS * 40"
    "foldR (pe_entry bs \<lparr>image_size = isize, section_alignment = salign, file_alignment = falign\<rparr>)
       \<lparr>ps_sections = [], raw_ranges = [], memory_ranges = []\<rparr> (chunks_exact 40 table) = Inr st"
    "disjoint (memory_ranges st) headers = Inr v"
    "pe_certificates bs optional dir n (raw_ranges st) = Inr raw" "disjoint raw headers = Inr w"
    "k \<longrightarrow> (\<exists>s \<in> set (ps_sections st). pe_name s = lit ''.linux'')"
    "u = \<lparr>uki_bytes = bs, uki_sections = ps_sections st\<rparr>"
proof -
  obtain mz pe hdr count characteristics optional_len optional magic directory_offset subsystem
      directory_count dd salign falign isize headers_size table_start table table_end st v raw w where
    len: "\<not> length bs > MAX_UKI_BYTES" and
    "field bs 0 2 = Inr mz" "\<not> mz \<noteq> lit ''MZ''" "u32_at bs 0x3c = Inr pe" "\<not> pe < 64"
    "field bs pe 24 = Inr hdr" "\<not> take 4 hdr \<noteq> lit ''PE'' @ [0, 0]" "u16_at bs (pe + 6) = Inr count" and
    count: "\<not> (count = 0 \<or> unat count > MAX_SECTIONS)" and
    "u16_at bs (pe + 22) = Inr characteristics"
    "\<not> (characteristics AND 2 = 0 \<or> characteristics AND 0x2000 \<noteq> 0)"
    "u16_at bs (pe + 20) = Inr optional_len" "field bs (pe + 24) (unat optional_len) = Inr optional"
    "u16_at optional 0 = Inr magic" "pe_directory_offset magic = Inr directory_offset"
    "u16_at optional 68 = Inr subsystem" "\<not> subsystem \<noteq> 10"
    "u32_at optional (directory_offset - 4) = Inr directory_count" "\<not> directory_count > 16"
    "field optional directory_offset (directory_count * 8) = Inr dd"
    "u32_at optional 32 = Inr salign" "u32_at optional 36 = Inr falign"
    "\<not> (\<not> is_power_of_two salign \<or> \<not> is_power_of_two falign \<or> salign < falign \<or> \<not> (512 \<le> falign \<and> falign \<le> 65536)
         \<or> (salign < 4096 \<and> salign \<noteq> falign))"
    "u32_at optional 56 = Inr isize" "u32_at optional 60 = Inr headers_size" and
    isize: "\<not> (isize = 0 \<or> isize > MAX_UKI_BYTES \<or> isize mod salign \<noteq> 0 \<or> headers_size = 0
         \<or> headers_size > length bs \<or> headers_size > isize \<or> headers_size mod falign \<noteq> 0)" and
    "range_end (pe + 24) (unat optional_len) = Inr table_start" and
    table: "field bs table_start (unat count * 40) = Inr table" and
    "range_end table_start (length table) = Inr table_end" "\<not> table_end > headers_size" and
    fold: "foldR (pe_entry bs \<lparr>image_size = isize, section_alignment = salign, file_alignment = falign\<rparr>)
                   \<lparr>ps_sections = [], raw_ranges = [], memory_ranges = []\<rparr> (chunks_exact 40 table) = Inr st" and
    ranges: "disjoint (memory_ranges st) headers_size = Inr v"
      "pe_certificates bs optional directory_offset directory_count (raw_ranges st) = Inr raw"
      "disjoint raw headers_size = Inr w" and
    kernel: "\<not> (k \<and> (\<forall>s \<in> set (ps_sections st). pe_name s \<noteq> lit ''.linux''))" and
    u: "Inr \<lparr>uki_bytes = bs, uki_sections = ps_sections st\<rparr> = (Inr u :: UnverifiedUki boot)"
    using assms unfolding parse_pe_def by - (elim result_elims, (rule that; assumption))
  show ?thesis
  proof (rule that [OF _ _ _ fold ranges])
    show "length bs \<le> MAX_UKI_BYTES" using len by simp
    show "isize \<le> MAX_UKI_BYTES" using isize by simp
    show "length table \<le> MAX_SECTIONS * 40" using table count by (auto simp: field_Inr_iff)
    show "k \<longrightarrow> (\<exists>s \<in> set (ps_sections st). pe_name s = lit ''.linux'')" using kernel by blast
    show "u = \<lparr>uki_bytes = bs, uki_sections = ps_sections st\<rparr>" using u by simp
  qed
qed

lemma pe_entry_length: "pe_entry bs L st entry = Inr st' \<Longrightarrow> length (ps_sections st') = Suc (length (ps_sections st))"
  unfolding pe_entry_def Let_def by (elim result_elims) auto

lemma pe_entries_length:
  "foldR (pe_entry bs L) st es = Inr st' \<Longrightarrow> length (ps_sections st') = length (ps_sections st) + length es"
  by (induction es arbitrary: st) (auto simp: result_simps dest: pe_entry_length)

lemma pe_entries_wf:
  "foldR (pe_entry bs L) st es = Inr st' \<Longrightarrow> pe_state_wf bs (image_size L) st \<Longrightarrow> pe_state_wf bs (image_size L) st'"
  by (induction es arbitrary: st) (auto simp: result_simps dest: pe_entry_wf)

lemma pe_certificates_prefix:
  "pe_certificates bs opt d n raw = Inr raw' \<Longrightarrow> \<forall>(a, b) \<in> set raw. a \<le> b \<Longrightarrow>
   \<exists>cert. raw' = raw @ cert \<and> (\<forall>(a, b) \<in> set raw'. a \<le> b)"
  unfolding pe_certificates_def
  by (auto simp: result_simps range_end_Inr_iff field_Inr_iff split: if_splits)

lemma parse_pe_wf:
  assumes "parse_pe bs k = Inr u"
  shows "uki_wf u" and "uki_bytes u = bs"
    and "k \<longrightarrow> (\<exists>s \<in> set (uki_sections u). pe_name s = lit ''.linux'')"
proof -
  from parse_pe_steps [OF assms] obtain optional dir n isize salign falign headers table st raw v w where
    len: "length bs \<le> MAX_UKI_BYTES" "isize \<le> MAX_UKI_BYTES" "length table \<le> MAX_SECTIONS * 40" and
    fold: "foldR (pe_entry bs \<lparr>image_size = isize, section_alignment = salign, file_alignment = falign\<rparr>)
       \<lparr>ps_sections = [], raw_ranges = [], memory_ranges = []\<rparr> (chunks_exact 40 table) = Inr st" and
    ranges: "disjoint (memory_ranges st) headers = Inr v"
      "pe_certificates bs optional dir n (raw_ranges st) = Inr raw" "disjoint raw headers = Inr w" and
    kernel: "k \<longrightarrow> (\<exists>s \<in> set (ps_sections st). pe_name s = lit ''.linux'')" and
    u: "u = \<lparr>uki_bytes = bs, uki_sections = ps_sections st\<rparr>"
    by metis
  have "length (ps_sections st) = length table div 40"
    using pe_entries_length [OF fold] by (simp add: chunks_exact_def)
  then have count: "length (ps_sections st) \<le> MAX_SECTIONS" using len(3) by simp
  have wf: "pe_state_wf bs isize st"
    using pe_entries_wf [OF fold] by (simp add: pe_state_wf_def)
  have mem: "sorted_wrt apart (memory_ranges st)"
    using disjoint_sound [OF ranges(1)] wf by (auto simp: pe_state_wf_def memory_range_def)
  obtain cert where cert: "raw = raw_ranges st @ cert" "\<forall>(a, b) \<in> set raw. a \<le> b"
    using pe_certificates_prefix [OF ranges(2)] wf by (auto simp: pe_state_wf_def raw_range_def)
  have rawd: "sorted_wrt apart (raw_ranges st)"
    using disjoint_sound [OF ranges(3) cert(2)] by (simp add: cert(1) sorted_wrt_append)
  show "uki_wf u"
    using count len(1,2) wf mem rawd unfolding uki_wf_def pe_state_wf_def u by simp
  show "uki_bytes u = bs" "k \<longrightarrow> (\<exists>s \<in> set (uki_sections u). pe_name s = lit ''.linux'')"
    using kernel by (simp_all add: u)
qed

section \<open>Reading a section of an accepted image\<close>

definition loaded_section :: "UnverifiedUki \<Rightarrow> UnverifiedPeSection \<Rightarrow> bytes" where
  "loaded_section u s =
     (let file = take (min (raw_size s) (virtual_size s)) (drop (raw_offset s) (uki_bytes u))
      in file @ replicate (virtual_size s - length file) 0)"

lemma file_content_ok:
  assumes "uki_wf u" and "s \<in> set (uki_sections u)"
  shows "file_content u s = Inr (take (min (raw_size s) (virtual_size s)) (drop (raw_offset s) (uki_bytes u)))"
proof -
  have "raw_offset s + raw_size s \<le> length (uki_bytes u)"
    using assms by (auto simp: uki_wf_def section_wf_def)
  then show ?thesis
    by (auto simp: file_content_def slice_def ok_or_def)
qed

lemma feed_zeros_eq: "feed_zeros fed n = fed @ replicate n 0"
proof (induction fed n rule: feed_zeros.induct)
  case (1 fed n)
  then show ?case
    by (subst feed_zeros.simps) (auto simp: Let_def min_def simp flip: replicate_add)
qed

lemma length_loaded_section:
  "uki_wf u \<Longrightarrow> s \<in> set (uki_sections u) \<Longrightarrow> length (loaded_section u s) = virtual_size s"
  by (auto simp: loaded_section_def Let_def)

lemma section_digest_loaded:
  assumes "uki_wf u" and "s \<in> set (uki_sections u)"
  shows "section_digest P u s algorithm = hash P algorithm (loaded_section u s)"
  by (simp add: section_digest_def file_content_ok [OF assms] hash_loaded_def feed_zeros_eq hash_def
      loaded_section_def Let_def)

lemma panic_free_section_text:
  assumes "uki_wf u" and "s \<in> set (uki_sections u)"
  shows "panic_free (section_text u s)"
  unfolding section_text_def Let_def file_content_ok [OF assms]
  by (intro no_error_intros) (simp_all only: not_panic)

section \<open>No panic in the parser\<close>

lemma panic_free_pe_fields [no_error_intros]:
  "panic_free (field bs n len)" "panic_free (u16_at bs n)" "panic_free (u32_at bs n)" "panic_free (range_end n len)"
  unfolding field_def u16_at_def u32_at_def range_end_def by (intro no_error_intros; simp)+

lemma panic_free_disjoint [no_error_intros]: "panic_free (disjoint rs fl)"
  unfolding disjoint_def
  by (intro no_error_intros never_fails_foldR) (auto intro!: no_error_intros)

lemma printable_from_utf8:
  assumes "list_all (\<lambda>b. 0x21 \<le> unat b \<and> unat b \<le> 0x7e) bs"
  shows "from_utf8 bs = Some bs"
proof -
  have "\<forall>b \<in> set bs. unat b < 128" using assms by (auto simp: list_all_iff)
  then show ?thesis by (simp add: from_utf8_def utf8_decode_ascii)
qed

lemma panic_free_pe_entry_name [no_error_intros]: "panic_free (pe_entry_name entry)"
  unfolding pe_entry_name_def Let_def
  by (intro no_error_intros) (simp_all only: not_panic printable_from_utf8 option.distinct de_Morgan_disj not_not)

lemma panic_free_pe_entry [no_error_intros]: "panic_free (pe_entry bs L st entry)"
  unfolding pe_entry_def Let_def by (intro no_error_intros) (simp_all only: not_panic)

lemma panic_free_parse_pe [no_error_intros]: "panic_free (parse_pe bs k)"
proof -
  have "panic_free (foldR (pe_entry bs L) st es)" for L st es
    by (rule never_fails_foldR) (rule no_error_intros)
  moreover have "panic_free (pe_directory_offset m)" "panic_free (pe_certificates bs opt d n raw)" for m opt d n raw
    unfolding pe_directory_offset_def pe_certificates_def by (intro no_error_intros; simp)+
  ultimately show ?thesis
    unfolding parse_pe_def by (intro no_error_intros) (simp_all only: not_panic)
qed

section \<open>A concrete image\<close>

definition demo_optional :: bytes where
  "demo_optional =
     le_bytes 2 0x20b @ replicate 30 0 @ le_bytes 4 4096 @ le_bytes 4 512 @ replicate 16 0 @
     le_bytes 4 8192 @ le_bytes 4 512 @ replicate 4 0 @ le_bytes 2 10 @ replicate 38 0 @ le_bytes 4 0"

definition demo_entry :: bytes where
  "demo_entry = lit ''.linux'' @ [0, 0] @ le_bytes 4 600 @ le_bytes 4 4096 @ le_bytes 4 512 @ le_bytes 4 512 @
     replicate 16 0"

definition demo_uki_bytes :: bytes where
  "demo_uki_bytes =
     lit ''MZ'' @ replicate 58 0 @ le_bytes 4 64 @
     (lit ''PE'' @ [0, 0]) @ [0x64, 0x86] @ le_bytes 2 1 @ replicate 12 0 @ le_bytes 2 112 @ le_bytes 2 2 @
     demo_optional @ demo_entry @ replicate 272 0 @ replicate 512 0x90"

definition demo_linux :: UnverifiedPeSection where
  "demo_linux = \<lparr>pe_name = lit ''.linux'', virtual_size = 600, virtual_address = 4096,
     raw_offset = 512, raw_size = 512\<rparr>"

lemma field_eq: "n + len < 2 ^ 64 \<Longrightarrow> n + len \<le> length bs \<Longrightarrow> field bs n len = Inr (take len (drop n bs))"
  by (simp add: field_Inr_iff)

lemma range_end_eq: "n + len < 2 ^ 64 \<Longrightarrow> range_end n len = Inr (n + len)"
  by (simp add: range_end_Inr_iff)

lemma demo_lengths [simp]:
  "length demo_optional = 112" "length demo_entry = 40" "length demo_uki_bytes = 1024"
  by (simp_all add: demo_optional_def demo_entry_def demo_uki_bytes_def)

lemma demo_header_fields:
  "field demo_uki_bytes 0 2 = Inr (lit ''MZ'')" "u32_at demo_uki_bytes 0x3c = Inr 64"
  "take 4 (drop 64 demo_uki_bytes) = [80, 69, 0, 0]"
  "u16_at demo_uki_bytes 70 = Inr 1" "u16_at demo_uki_bytes 86 = Inr 2" "u16_at demo_uki_bytes 84 = Inr 112"
  "field demo_uki_bytes 88 112 = Inr demo_optional" "field demo_uki_bytes 200 40 = Inr demo_entry"
  unfolding u16_at_def u32_at_def
  by (simp_all add: field_eq, simp_all add: demo_uki_bytes_def bytes_simps)

lemma demo_optional_fields:
  "u16_at demo_optional 0 = Inr 0x20b" "u16_at demo_optional 68 = Inr 10" "u32_at demo_optional 108 = Inr 0"
  "field demo_optional 112 0 = Inr []" "u32_at demo_optional 32 = Inr 4096" "u32_at demo_optional 36 = Inr 512"
  "u32_at demo_optional 56 = Inr 8192" "u32_at demo_optional 60 = Inr 512"
  unfolding u16_at_def u32_at_def
  by (simp_all add: field_eq, simp_all add: demo_optional_def bytes_simps)

lemma demo_entry_fields:
  "u32_at demo_entry 8 = Inr 600" "u32_at demo_entry 12 = Inr 4096" "u32_at demo_entry 16 = Inr 512"
  "u32_at demo_entry 20 = Inr 512" "take 12 (drop 24 demo_entry) = replicate 12 0"
  unfolding u32_at_def
  by (simp_all add: field_eq, simp_all add: demo_entry_def bytes_simps)

lemma demo_entry_name: "pe_entry_name demo_entry = Inr (lit ''.linux'')"
proof -
  have "take 8 demo_entry = [46, 108, 105, 110, 117, 120, 0, 0]" "take (Suc (Suc (Suc (Suc (Suc (Suc 0)))))) demo_entry = [46, 108, 105, 110, 117, 120]"
    "demo_entry ! 0 = 46"
    by (simp_all add: demo_entry_def)
  then show ?thesis
    by (simp add: pe_entry_name_def printable_from_utf8 ok_or_def)
qed

lemma demo_entry_ok:
  "pe_entry demo_uki_bytes \<lparr>image_size = 8192, section_alignment = 4096, file_alignment = 512\<rparr>
     \<lparr>ps_sections = [], raw_ranges = [], memory_ranges = []\<rparr> demo_entry =
   Inr \<lparr>ps_sections = [demo_linux], raw_ranges = [(512, 1024)], memory_ranges = [(4096, 4696)]\<rparr>"
  by (simp add: pe_entry_def Let_def demo_entry_name demo_entry_fields range_end_eq field_eq
      demo_linux_def)

lemma demo_uki_parses:
  "parse_uki demo_uki_bytes = Inr \<lparr>uki_bytes = demo_uki_bytes, uki_sections = [demo_linux]\<rparr>"
proof -
  have "chunks_exact 40 demo_entry = [demo_entry]" by (simp add: chunks_exact_def)
  moreover have "is_power_of_two 4096" "is_power_of_two 512" by code_simp+
  moreover have "field demo_uki_bytes 64 24 = Inr (take 24 (drop 64 demo_uki_bytes))" by (simp add: field_eq)
  moreover have "(2 :: u16) AND 0x2000 = 0" "(2 :: u16) AND 2 = 2" by code_simp+
  ultimately show ?thesis
    unfolding parse_uki_def parse_pe_def
    by (simp add: demo_header_fields demo_optional_fields pe_directory_offset_def range_end_eq
        demo_entry_ok disjoint_def pe_certificates_def demo_linux_def)
qed

section \<open>Properties\<close>

text \<open>C14. An accepted PE image is well formed: it is the given file, at most 512 MiB, with at most 96
  sections whose names are printable, whose raw data lie inside the file and whose virtual size is
  bounded; measured sections are not empty; no two sections share a byte of the file or of memory; and
  a kernel image has a \<open>.linux\<close> section.\<close>

theorem parse_pe_sound:
  assumes "parse_pe bs require_kernel = Inr u"
  shows "uki_wf u \<and> uki_bytes u = bs \<and>
    (require_kernel \<longrightarrow> (\<exists>s \<in> set (uki_sections u). pe_name s = lit ''.linux''))"
  using parse_pe_wf [OF assms] by simp

theorem parse_pe_sound_witness:
  "parse_pe demo_uki_bytes True = Inr \<lparr>uki_bytes = demo_uki_bytes, uki_sections = [demo_linux]\<rparr> \<and>
   uki_wf \<lparr>uki_bytes = demo_uki_bytes, uki_sections = [demo_linux]\<rparr>"
  using parse_pe_sound [of demo_uki_bytes True "\<lparr>uki_bytes = demo_uki_bytes, uki_sections = [demo_linux]\<rparr>"]
    demo_uki_parses unfolding parse_uki_def by blast

text \<open>C15. The parser never panics, and on every section of an accepted image the slice of the file
  cannot panic either; the digest computed by feeding zeros in blocks of 4096 bytes is the hash of the
  section as loaded, that is of exactly \<open>virtual_size\<close> bytes.\<close>

theorem section_digest_exact:
  assumes "parse_pe bs require_kernel = Inr u" and "s \<in> set (uki_sections u)"
  shows "panic_free (parse_pe bs' k) \<and> panic_free (section_text u s) \<and>
    section_digest P u s algorithm = hash P algorithm (loaded_section u s) \<and>
    length (loaded_section u s) = virtual_size s"
  using parse_pe_wf(1) [OF assms(1)] assms(2)
  by (simp add: panic_free_parse_pe panic_free_section_text section_digest_loaded length_loaded_section)

theorem section_digest_exact_witness:
  "section_digest demo_prims \<lparr>uki_bytes = demo_uki_bytes, uki_sections = [demo_linux]\<rparr> demo_linux TPM_ALG_SHA384 =
     hash demo_prims TPM_ALG_SHA384
       (loaded_section \<lparr>uki_bytes = demo_uki_bytes, uki_sections = [demo_linux]\<rparr> demo_linux)"
  using section_digest_exact [of demo_uki_bytes True "\<lparr>uki_bytes = demo_uki_bytes, uki_sections = [demo_linux]\<rparr>"
      demo_linux _ _ demo_prims TPM_ALG_SHA384] demo_uki_parses unfolding parse_uki_def by simp

end
