(* ===== verification/Uki_Select.thy ===== *)
theory Uki_Select
  imports Uki_Pe
begin

text \<open>
  The choice of the sections that systemd-stub measures (\<open>v2/src/boot/uki/selection.rs\<close>): the base
  and profile ranges of the section table, the device-specific \<open>.dtbauto\<close> and \<open>.efifw\<close> candidates,
  the bounded parsers of the device tree and of the firmware blob, and the measured profile number.
  The lemmas show that the chosen sections are an overlay: in each range the first candidate that
  matches wins, and the profile range overrides the base range.
\<close>

record UkiSelectionPolicy =
  profile_index :: u32
  profile_event :: "nat option"
  expected_compatible :: "str option"
  expected_firmware_id :: "str option"

definition selection_default :: UkiSelectionPolicy where
  "selection_default = \<lparr>profile_index = 0, profile_event = None, expected_compatible = None,
     expected_firmware_id = None\<rparr>"

definition valid_selector :: "str \<Rightarrow> bool" where
  "valid_selector s \<longleftrightarrow> s \<noteq> [] \<and> length s \<le> 4096 \<and> list_all (\<lambda>c. 0x20 \<le> unat c \<and> unat c < 0x7f) s"

definition selection_validate :: "UkiSelectionPolicy \<Rightarrow> unit boot" where
  "selection_validate policy =
     (if unat (profile_index policy) > 95 \<or> (profile_index policy = 0 \<and> profile_event policy \<noteq> None)
      then Inl (Uki ''invalid profile number or profile-zero event'')
      else foldR (\<lambda>_ s. if valid_selector s then Inr () else Inl (Uki ''invalid independent device selector''))
             () (List.map_filter id [expected_compatible policy, expected_firmware_id policy]))"

section \<open>Device tree and firmware blobs\<close>

definition be32 :: "bytes \<Rightarrow> nat \<Rightarrow> nat boot" where
  "be32 data n = bindR (field data n 4) (\<lambda>v. Inr (be_nat v))"

definition round4 :: "nat \<Rightarrow> nat" where
  "round4 n = n div 4 * 4"

record fdt_state =
  fdt_at :: nat
  fdt_depth :: nat
  fdt_compatible :: "str option"

text \<open>One token of the structure block; the flag says that the end token was read.\<close>

definition fdt_begin_node :: "bytes \<Rightarrow> fdt_state \<Rightarrow> fdt_state boot" where
  "fdt_begin_node struct st =
     bindR (ok_or (slice struct (fdt_at st) (length struct)) (Panic ''slice index'')) (\<lambda>remaining.
     bindR (ok_or (position (\<lambda>v. v = 0) remaining) (Uki ''unterminated FDT node'')) (\<lambda>n.
     if fdt_depth st = 0 \<and> (n \<noteq> 0 \<or> fdt_compatible st \<noteq> None) then Inl (Uki ''invalid FDT root'')
     else bindR (range_end (fdt_at st) (round4 (n + 4))) (\<lambda>at.
     if at > length struct then Inl (Uki ''FDT node exceeds block'')
     else if fdt_depth st + 1 > 128 then Inl (Limit ''FDT nesting'')
     else Inr (st\<lparr>fdt_at := at, fdt_depth := fdt_depth st + 1\<rparr>))))"

definition fdt_compatible_value :: "fdt_state \<Rightarrow> bytes \<Rightarrow> bytes \<Rightarrow> str option boot" where
  "fdt_compatible_value st name value =
     (if fdt_depth st = 1 \<and> name = lit ''compatible'' then
        if fdt_compatible st \<noteq> None \<or> value = [] \<or> last value \<noteq> 0
        then Inl (Uki ''duplicate or unterminated compatible property'')
        else bindR (ok_or (position (\<lambda>v. v = 0) value) (Panic ''unwrap on None'')) (\<lambda>stop.
        if stop = 0 then Inl (Uki ''empty FDT compatible'')
        else bindR (ok_or (from_utf8 (take stop value)) (Uki ''invalid FDT compatible'')) (\<lambda>s. Inr (Some s)))
      else Inr (fdt_compatible st))"

definition fdt_property :: "bytes \<Rightarrow> bytes \<Rightarrow> fdt_state \<Rightarrow> fdt_state boot" where
  "fdt_property struct strings st =
     (if fdt_depth st = 0 then Inl (Uki ''FDT property outside node'')
      else bindR (be32 struct (fdt_at st)) (\<lambda>len.
      bindR (be32 struct (fdt_at st + 4)) (\<lambda>name_offset.
      let at = fdt_at st + 8 in
      bindR (field struct at len) (\<lambda>value.
      bindR (ok_or (slice strings name_offset (length strings)) (Uki ''FDT property name outside strings'')) (\<lambda>names.
      bindR (ok_or (position (\<lambda>v. v = 0) names) (Uki ''unterminated FDT property name'')) (\<lambda>n.
      bindR (fdt_compatible_value st (take n names) value) (\<lambda>compatible.
      bindR (ok_or (usize_checked_add len 3) (Limit ''FDT property'')) (\<lambda>padded.
      bindR (range_end at (round4 padded)) (\<lambda>at.
      if at > length struct then Inl (Uki ''FDT property exceeds structure'')
      else Inr (st\<lparr>fdt_at := at, fdt_compatible := compatible\<rparr>))))))))))"

definition fdt_token :: "bytes \<Rightarrow> bytes \<Rightarrow> fdt_state \<Rightarrow> (fdt_state \<times> bool) boot" where
  "fdt_token struct strings st =
     bindR (be32 struct (fdt_at st)) (\<lambda>token.
     let st = st\<lparr>fdt_at := fdt_at st + 4\<rparr> in
     if token = 1 then bindR (fdt_begin_node struct st) (\<lambda>st. Inr (st, False))
     else if token = 2 then
       (if fdt_depth st = 0 then Inl (Uki ''unbalanced FDT node'')
        else Inr (st\<lparr>fdt_depth := fdt_depth st - 1\<rparr>, False))
     else if token = 3 then bindR (fdt_property struct strings st) (\<lambda>st. Inr (st, False))
     else if token = 4 then Inr (st, False)
     else if token = 9 then
       (if fdt_depth st \<noteq> 0 then Inl (Uki ''unclosed FDT node'') else Inr (st, True))
     else Inl (Uki ''unknown FDT structure token''))"

lemma fdt_begin_node_progress: "fdt_begin_node struct st = Inr st' \<Longrightarrow> fdt_at st \<le> fdt_at st'"
  unfolding fdt_begin_node_def by (elim result_elims) (auto simp: range_end_Inr_iff)

lemma fdt_property_progress: "fdt_property struct strings st = Inr st' \<Longrightarrow> fdt_at st \<le> fdt_at st'"
  unfolding fdt_property_def Let_def by (elim result_elims) (auto simp: range_end_Inr_iff)

lemma fdt_token_progress:
  assumes "fdt_token struct strings st = Inr (st', b)"
  shows "fdt_at st < fdt_at st'"
  using assms unfolding fdt_token_def Let_def
  by (auto simp: result_simps split: if_splits dest!: fdt_begin_node_progress fdt_property_progress)

function fdt_walk :: "bytes \<Rightarrow> bytes \<Rightarrow> fdt_state \<Rightarrow> (str option \<times> bool) boot" where
  "fdt_walk struct strings st =
     (if fdt_at st < length struct then
        (case fdt_token struct strings st of
           Inl e \<Rightarrow> Inl e
         | Inr (st', ended) \<Rightarrow>
             if ended then Inr (fdt_compatible st', True) else fdt_walk struct strings st')
      else Inr (fdt_compatible st, False))"
  by auto
termination
  by (relation "measure (\<lambda>(struct, strings, st). length struct - fdt_at st)")
    (auto dest!: fdt_token_progress)

declare fdt_walk.simps [simp del]

definition fdt_first_compatible :: "bytes \<Rightarrow> str boot" where
  "fdt_first_compatible data =
     (let bad = Inl (Uki ''invalid FDT v17 header'') in
      if length data < 40 then bad
      else bindR (be32 data 0) (\<lambda>magic. if magic \<noteq> 0xd00dfeed then bad
      else bindR (be32 data 20) (\<lambda>version. if version \<noteq> 17 then bad
      else bindR (be32 data 24) (\<lambda>compat. if compat > 17 then bad
      else bindR (be32 data 4) (\<lambda>total.
      if total > length data \<or> total > 32 * 1024 * 1024 then Inl (Uki ''FDT total size outside section'')
      else let data = take total data; overlap = Inl (Uki ''overlapping or misaligned FDT blocks'') in
      bindR (be32 data 8) (\<lambda>struct_offset.
      bindR (be32 data 12) (\<lambda>strings_offset.
      bindR (be32 data 36) (\<lambda>struct_size.
      bindR (be32 data 32) (\<lambda>strings_size.
      if struct_offset < 40 \<or> struct_offset mod 4 \<noteq> 0 \<or> struct_size mod 4 \<noteq> 0 then overlap
      else bindR (range_end struct_offset struct_size) (\<lambda>struct_end.
      if strings_offset < struct_end then overlap
      else bindR (field data struct_offset struct_size) (\<lambda>struct.
      bindR (field data strings_offset strings_size) (\<lambda>strings.
      bindR (fdt_walk struct strings \<lparr>fdt_at = 0, fdt_depth = 0, fdt_compatible = None\<rparr>) (\<lambda>(compatible, ended).
      if \<not> ended then Inl (Uki ''missing FDT end token'')
      else ok_or compatible (Uki ''FDT lacks root compatible property''))))))))))))))"

definition efi_firmware_id :: "bytes \<Rightarrow> str boot" where
  "efi_firmware_id data =
     (let bad = Inl (Uki ''invalid EFI firmware blob header'') in
      if length data < 16 then bad
      else bindR (u32_at data 0) (\<lambda>magic. if magic \<noteq> 0xfeeddead then bad
      else bindR (u32_at data 4) (\<lambda>header.
      bindR (u32_at data 8) (\<lambda>id_size.
      bindR (u32_at data 12) (\<lambda>payload.
      if header < 16 \<or> id_size = 0 then Inl (Uki ''invalid EFI firmware lengths'')
      else bindR (field data header id_size) (\<lambda>ident.
      bindR (range_end header id_size) (\<lambda>stop.
      bindR (field data stop payload) (\<lambda>_.
      if ident = [] \<or> last ident \<noteq> 0 \<or> 0 \<in> set (butlast ident)
      then Inl (Uki ''invalid EFI firmware identifier terminator'')
      else ok_or (from_utf8 (butlast ident)) (Uki ''invalid EFI firmware identifier'')))))))))"

section \<open>Selection\<close>

definition section_wanted :: "UnverifiedUki \<Rightarrow> UkiSelectionPolicy \<Rightarrow> UnverifiedPeSection \<Rightarrow> bool boot" where
  "section_wanted u policy s =
     (if pe_name s = lit ''.dtbauto'' then
        bindR (ok_or (expected_compatible policy) (Uki ''.dtbauto requires independent compatible selector'')) (\<lambda>wanted.
        bindR (file_content u s) (\<lambda>content.
        bindR (fdt_first_compatible content) (\<lambda>c. Inr (c = wanted))))
      else if pe_name s = lit ''.efifw'' then
        bindR (ok_or (expected_firmware_id policy) (Uki ''.efifw requires independent firmware selector'')) (\<lambda>wanted.
        bindR (file_content u s) (\<lambda>content.
        bindR (efi_firmware_id content) (\<lambda>c. Inr (c = wanted))))
      else Inr True)"

type_synonym chosen = "(str, UnverifiedPeSection) btmap"

fun select_first :: "UnverifiedUki \<Rightarrow> UkiSelectionPolicy \<Rightarrow> UnverifiedPeSection list \<Rightarrow> chosen \<Rightarrow> chosen boot" where
  "select_first u policy [] chosen = Inr chosen"
| "select_first u policy (s # ss) chosen =
     bindR (section_wanted u policy s) (\<lambda>wanted.
     if wanted then Inr (bt_insert (pe_name s) s chosen) else select_first u policy ss chosen)"

definition select_range ::
  "UnverifiedUki \<Rightarrow> UnverifiedPeSection list \<Rightarrow> UkiSelectionPolicy \<Rightarrow> chosen \<Rightarrow> chosen boot" where
  "select_range u rng policy chosen =
     foldR (\<lambda>chosen name. select_first u policy (filter (\<lambda>s. pe_name s = name) rng) chosen)
       chosen MEASURED_SECTIONS"

definition profile_starts :: "UnverifiedUki \<Rightarrow> nat list" where
  "profile_starts u = map fst (filter (\<lambda>(_, s). pe_name s = lit ''.profile'') (enumerate 0 (uki_sections u)))"

definition selected :: "UnverifiedUki \<Rightarrow> UkiSelectionPolicy option \<Rightarrow> chosen boot" where
  "selected u policy =
     (let policy = (case policy of None \<Rightarrow> selection_default | Some p \<Rightarrow> p) in
      bindR (selection_validate policy) (\<lambda>_.
      let starts = profile_starts u; total = length (uki_sections u); index = unat (profile_index policy) in
      if index \<ge> length starts \<and> \<not> (starts = [] \<and> index = 0)
      then Inl (Uki ''requested UKI profile is absent'')
      else bindR (ok_or (slice (uki_sections u) 0 (if starts = [] then total else hd starts))
                    (Panic ''slice index'')) (\<lambda>base.
      bindR (select_range u base policy []) (\<lambda>chosen.
      bindR (if index < length starts then
               bindR (ok_or (slice (uki_sections u) (starts ! index)
                        (if index + 1 < length starts then starts ! (index + 1) else total))
                      (Panic ''slice index'')) (\<lambda>rng.
               select_range u rng policy chosen)
             else Inr chosen) (\<lambda>chosen.
      if bt_get chosen (lit ''.linux'') = None then Inl (Uki ''selected profile lacks a kernel'')
      else Inr chosen)))))"

definition selected_text :: "UnverifiedUki \<Rightarrow> chosen \<Rightarrow> str \<Rightarrow> str option boot" where
  "selected_text u sections name =
     (case bt_get sections name of
        None \<Rightarrow> Inr None
      | Some s \<Rightarrow> bindR (section_text u s) (\<lambda>t. Inr (Some t)))"

section \<open>The measured profile number\<close>

text \<open>\<open>encode_utf16().chain([0]).flat_map(to_le_bytes)\<close>.\<close>

definition utf16_z :: "str \<Rightarrow> bytes" where
  "utf16_z s = words_le (utf16_encode (chars s) @ [0])"

definition verify_uki_profile_number ::
  "prims \<Rightarrow> VerifiedBootLog \<Rightarrow> UkiSelectionPolicy \<Rightarrow> u16 \<Rightarrow> nat \<Rightarrow> u32 option boot" where
  "verify_uki_profile_number P v policy algorithm first_section_event =
     (case profile_event policy of
        None \<Rightarrow> Inr None
      | Some index \<Rightarrow>
          let log = vb_log v in
          if log_kind log \<noteq> Tpm2
          then Inl (Uki ''v258 profile-number tagged events require TPM coverage'')
          else bindR (ok_or (if index < length (log_events log) then Some (log_events log ! index) else None)
                   (UnauthenticatedEvent index)) (\<lambda>e.
          if index \<ge> first_section_event \<or> register_index e \<noteq> 12 \<or> reported_event_type e \<noteq> 6
          then Inl (Uki ''profile measurement must precede UKI sections in TPM PCR12'')
          else bindR (verify_measured_bytes P v index algorithm (utf16_z (to_string (unat (profile_index policy))))) (\<lambda>_.
          Inr (Some (profile_index policy)))))"

section \<open>The chosen sections are an overlay\<close>

definition first_wanted ::
  "UnverifiedUki \<Rightarrow> UkiSelectionPolicy \<Rightarrow> str \<Rightarrow> UnverifiedPeSection list \<Rightarrow> UnverifiedPeSection option" where
  "first_wanted u policy name rng = find (\<lambda>s. pe_name s = name \<and> section_wanted u policy s = Inr True) rng"

definition base_range :: "UnverifiedUki \<Rightarrow> UnverifiedPeSection list" where
  "base_range u = takeWhile (\<lambda>s. pe_name s \<noteq> lit ''.profile'') (uki_sections u)"

definition profile_range :: "UnverifiedUki \<Rightarrow> nat \<Rightarrow> UnverifiedPeSection list" where
  "profile_range u index =
     (let starts = profile_starts u; total = length (uki_sections u) in
      if index < length starts
      then take ((if index + 1 < length starts then starts ! (index + 1) else total) - starts ! index)
             (drop (starts ! index) (uki_sections u))
      else [])"

definition overlay :: "UnverifiedUki \<Rightarrow> UkiSelectionPolicy \<Rightarrow> str \<Rightarrow> UnverifiedPeSection option" where
  "overlay u policy name =
     (if name \<in> set MEASURED_SECTIONS then
        (case first_wanted u policy name (profile_range u (unat (profile_index policy))) of
           Some s \<Rightarrow> Some s
         | None \<Rightarrow> first_wanted u policy name (base_range u))
      else None)"

lemma first_wanted_SomeD:
  "first_wanted u policy name rng = Some s \<Longrightarrow> s \<in> set rng \<and> pe_name s = name \<and> section_wanted u policy s = Inr True"
  by (auto simp: first_wanted_def find_Some_iff)

lemma select_first_get:
  "select_first u policy (filter (\<lambda>s. pe_name s = name) rng) chosen = Inr chosen' \<Longrightarrow>
   bt_get chosen' = (case first_wanted u policy name rng of
       None \<Rightarrow> bt_get chosen | Some s \<Rightarrow> (bt_get chosen)(name \<mapsto> s)) \<and> (bt_invar chosen \<longrightarrow> bt_invar chosen')"
  by (induction rng) (auto simp: first_wanted_def result_simps split: if_splits)

lemma select_names_get:
  "foldR (\<lambda>chosen name. select_first u policy (filter (\<lambda>s. pe_name s = name) rng) chosen) chosen names = Inr chosen' \<Longrightarrow>
   bt_get chosen' name = (if name \<in> set names
     then (case first_wanted u policy name rng of None \<Rightarrow> bt_get chosen name | Some s \<Rightarrow> Some s)
     else bt_get chosen name) \<and> (bt_invar chosen \<longrightarrow> bt_invar chosen')"
proof (induction names arbitrary: chosen)
  case (Cons n names)
  obtain mid where mid: "select_first u policy (filter (\<lambda>s. pe_name s = n) rng) chosen = Inr mid"
    and rest: "foldR (\<lambda>chosen name. select_first u policy (filter (\<lambda>s. pe_name s = name) rng) chosen) mid names = Inr chosen'"
    using Cons.prems by (auto simp: result_simps)
  show ?case
    using select_first_get [OF mid] Cons.IH [OF rest] by (auto split: option.splits)
qed simp

lemma select_range_get:
  assumes "select_range u rng policy chosen = Inr chosen'"
  shows "bt_get chosen' name = (if name \<in> set MEASURED_SECTIONS
     then (case first_wanted u policy name rng of None \<Rightarrow> bt_get chosen name | Some s \<Rightarrow> Some s)
     else bt_get chosen name)" and "bt_invar chosen \<Longrightarrow> bt_invar chosen'"
  using select_names_get [OF assms [unfolded select_range_def]] by auto

lemma enumerate_filter_hd:
  "filter (\<lambda>(_, s). p s) (enumerate n xs) \<noteq> [] \<Longrightarrow>
   fst (hd (filter (\<lambda>(_, s). p s) (enumerate n xs))) = n + length (takeWhile (\<lambda>s. \<not> p s) xs)"
  by (induction xs arbitrary: n) auto

lemma enumerate_filter_Nil: "filter (\<lambda>(_, s). p s) (enumerate n xs) = [] \<longleftrightarrow> (\<forall>s \<in> set xs. \<not> p s)"
  by (induction xs arbitrary: n) auto

lemma base_slice:
  assumes "slice (uki_sections u) 0 (if profile_starts u = [] then length (uki_sections u) else hd (profile_starts u)) = Some base"
  shows "base = base_range u"
proof (cases "profile_starts u = []")
  case True
  then have "\<forall>s \<in> set (uki_sections u). pe_name s \<noteq> lit ''.profile''"
    by (simp add: profile_starts_def enumerate_filter_Nil)
  then have "takeWhile (\<lambda>s. pe_name s \<noteq> lit ''.profile'') (uki_sections u) = uki_sections u"
    by (simp only: takeWhile_eq_all_conv)
  with True assms show ?thesis
    by (simp only: base_range_def) (simp add: slice_Some_iff)
next
  case False
  then have "hd (profile_starts u) = length (base_range u)"
    using enumerate_filter_hd [of "\<lambda>s. pe_name s = lit ''.profile''" 0 "uki_sections u"]
    by (simp only: profile_starts_def base_range_def map_is_Nil_conv hd_map not_False_eq_True add_0)
  then show ?thesis
    using assms False by (simp add: slice_Some_iff base_range_def takeWhile_eq_take [symmetric])
qed

lemma selected_overlay:
  assumes "selected u policy = Inr chosen"
  defines "pol \<equiv> (case policy of None \<Rightarrow> selection_default | Some p \<Rightarrow> p)"
  shows "bt_get chosen = overlay u pol" and "bt_invar chosen" and "bt_get chosen (lit ''.linux'') \<noteq> None"
    and "selection_validate pol = Inr ()"
proof -
  let ?starts = "profile_starts u" and ?total = "length (uki_sections u)" and ?i = "unat (profile_index pol)"
  obtain v base mid last where
    valid: "selection_validate pol = Inr v" and
    "\<not> (?i \<ge> length ?starts \<and> \<not> (?starts = [] \<and> ?i = 0))" and
    base: "ok_or (slice (uki_sections u) 0 (if ?starts = [] then ?total else hd ?starts))
       (Panic ''slice index'') = Inr base" and
    mid: "select_range u base pol [] = Inr mid" and
    last: "(if ?i < length ?starts then
               bindR (ok_or (slice (uki_sections u) (?starts ! ?i)
                        (if ?i + 1 < length ?starts then ?starts ! (?i + 1) else ?total))
                      (Panic ''slice index'')) (\<lambda>rng. select_range u rng pol mid)
             else Inr mid) = Inr last" and
    linux: "\<not> bt_get last (lit ''.linux'') = None" and
    eq: "Inr last = (Inr chosen :: chosen boot)"
    using assms(1) unfolding selected_def Let_def pol_def [symmetric]
    by - (elim result_elims, (rule that; assumption))
  have base': "base = base_range u"
    by (rule base_slice) (use base in \<open>simp add: ok_or_Inr_iff\<close>)
  show "selection_validate pol = Inr ()" using valid by simp
  show "bt_get chosen (lit ''.linux'') \<noteq> None" using linux eq by simp
  have midg: "bt_get mid name = (if name \<in> set MEASURED_SECTIONS then first_wanted u pol name (base_range u) else None)" for name
    using select_range_get(1) [OF mid, of name] by (simp add: base' split: option.splits)
  have "bt_invar mid" using select_range_get(2) [OF mid] by simp
  show "bt_invar chosen"
    using last eq \<open>bt_invar mid\<close> by (auto simp: result_simps split: if_splits dest: select_range_get(2))
  show "bt_get chosen = overlay u pol"
  proof (cases "?i < length ?starts")
    case True
    then have "select_range u (profile_range u ?i) pol mid = Inr chosen"
      using last eq by (auto simp: result_simps slice_Some_iff profile_range_def Let_def)
    from select_range_get(1) [OF this] show ?thesis
      by (auto simp: fun_eq_iff overlay_def midg split: option.splits)
  next
    case False
    then have "mid = chosen" using last eq by simp
    then show ?thesis
      using False midg by (auto simp: fun_eq_iff overlay_def profile_range_def Let_def first_wanted_def)
  qed
qed

lemma overlay_SomeD:
  assumes "overlay u policy name = Some s"
  shows "s \<in> set (uki_sections u)" and "pe_name s = name" and "name \<in> set MEASURED_SECTIONS"
proof -
  have "set (profile_range u i) \<subseteq> set (uki_sections u)" for i
    by (auto simp: profile_range_def Let_def dest: in_set_takeD in_set_dropD)
  moreover have "set (base_range u) \<subseteq> set (uki_sections u)"
    by (auto simp: base_range_def dest: set_takeWhileD)
  ultimately show "s \<in> set (uki_sections u)" "pe_name s = name" "name \<in> set MEASURED_SECTIONS"
    using assms by (auto simp: overlay_def split: if_splits option.splits dest!: first_wanted_SomeD)
qed

section \<open>What the device tree walk returns\<close>

definition string_in :: "bytes \<Rightarrow> str \<Rightarrow> bool" where
  "string_in data s \<longleftrightarrow> s \<noteq> [] \<and> 0 \<notin> set s \<and> from_utf8 s = Some s \<and> (\<exists>pre post. data = pre @ s @ 0 # post)"

lemma string_in_part:
  assumes "string_in (take n (drop m data)) s"
  shows "string_in data s"
proof -
  obtain pre post where "take n (drop m data) = pre @ s @ 0 # post"
    using assms by (auto simp: string_in_def)
  moreover have "data = take m data @ take n (drop m data) @ drop n (drop m data)"
    by (metis append_take_drop_id)
  ultimately have "data = (take m data @ pre) @ s @ 0 # (post @ drop n (drop m data))" by simp
  then show ?thesis using assms unfolding string_in_def by blast
qed

lemma string_in_prefix:
  assumes "position (\<lambda>v. v = 0) value = Some stop" "stop \<noteq> 0" "from_utf8 (take stop value) = Some s"
  shows "string_in value s"
proof -
  have s: "s = take stop value" "stop < length value" "value ! stop = 0" "0 \<notin> set s"
    using assms by (auto simp: from_utf8_Some_iff position_Some_iff in_set_conv_nth)
  then have "value = [] @ s @ 0 # drop (Suc stop) value"
    by (metis Cons_nth_drop_Suc append_Nil append_take_drop_id)
  then show ?thesis
    using assms(2,3) s(1,2,4) unfolding string_in_def by (metis append_Nil from_utf8_Some_iff gr_zeroI length_0_conv length_take less_nat_zero_code min_less_iff_conj)
qed

definition compatible_ok :: "bytes \<Rightarrow> fdt_state \<Rightarrow> bool" where
  "compatible_ok struct st \<longleftrightarrow> (\<forall>s. fdt_compatible st = Some s \<longrightarrow> string_in struct s)"

lemma fdt_compatible_value_ok:
  assumes "fdt_compatible_value st name value = Inr c" and "value = take n (drop m struct)"
    and "compatible_ok struct st" and "c = Some s"
  shows "string_in struct s"
proof (cases "fdt_depth st = 1 \<and> name = lit ''compatible''")
  case True
  then obtain stop where stop: "position (\<lambda>v. v = 0) value = Some stop" "stop \<noteq> 0"
    and s: "from_utf8 (take stop value) = Some s"
    using assms(1,4) unfolding fdt_compatible_value_def by (auto simp: result_simps)
  show ?thesis
    using string_in_prefix [OF stop s] unfolding assms(2) by (rule string_in_part)
next
  case False
  then have "c = fdt_compatible st"
    using assms(1) unfolding fdt_compatible_value_def by (simp only: if_False sum.inject simp_thms)
  then show ?thesis using assms(3,4) by (simp add: compatible_ok_def)
qed

lemma fdt_property_ok:
  assumes "fdt_property struct strings st = Inr st'" and "compatible_ok struct st"
  shows "compatible_ok struct st'"
  using assms unfolding fdt_property_def Let_def
  by (elim result_elims) (auto simp: compatible_ok_def field_Inr_iff intro: fdt_compatible_value_ok)

lemma fdt_token_ok:
  assumes "fdt_token struct strings st = Inr (st', b)" and "compatible_ok struct st"
  shows "compatible_ok struct st'"
proof -
  have "fdt_begin_node struct s = Inr s' \<Longrightarrow> fdt_compatible s' = fdt_compatible s" for s s'
    unfolding fdt_begin_node_def by (elim result_elims) auto
  moreover have "compatible_ok struct (st\<lparr>fdt_at := n\<rparr>)" for n
    using assms(2) by (simp add: compatible_ok_def)
  ultimately show ?thesis
    using assms unfolding fdt_token_def Let_def
    by (auto simp: result_simps compatible_ok_def split: if_splits dest: fdt_property_ok)
qed

lemma fdt_walk_ok:
  "fdt_walk struct strings st = Inr (Some s, b) \<Longrightarrow> compatible_ok struct st \<Longrightarrow> string_in struct s"
proof (induction "struct" strings st rule: fdt_walk.induct)
  case (1 struct strings st)
  then show ?case
    by (subst (asm) fdt_walk.simps)
      (auto simp: compatible_ok_def split: if_splits sum.splits dest: fdt_token_ok)
qed

lemma be32_bounds: "be32 data n = Inr v \<Longrightarrow> n + 4 \<le> length data"
  by (auto simp: be32_def result_simps field_Inr_iff)

lemma fdt_first_compatible_string:
  assumes "fdt_first_compatible data = Inr s"
  shows "string_in data s"
proof -
  obtain total off size struct strings c b where
    struct: "field (take total data) off size = Inr struct" and
    walk: "fdt_walk struct strings \<lparr>fdt_at = 0, fdt_depth = 0, fdt_compatible = None\<rparr> = Inr (c, b)" and
    c: "ok_or c (Uki ''FDT lacks root compatible property'') = Inr s"
    using assms unfolding fdt_first_compatible_def Let_def
    by - (elim result_elims, (rule that; assumption))
  have "fdt_walk (take size (drop off (take total data))) strings
       \<lparr>fdt_at = 0, fdt_depth = 0, fdt_compatible = None\<rparr> = Inr (Some s, b)"
    using struct walk c by (simp add: field_Inr_iff ok_or_Inr_iff)
  then have "string_in (take size (drop off (take total data))) s"
    by (rule fdt_walk_ok) (simp add: compatible_ok_def)
  then have "string_in (take total data) s" by (rule string_in_part)
  then have "string_in (take total (drop 0 data)) s" by simp
  then show ?thesis by (rule string_in_part)
qed

section \<open>No panic in the selection\<close>

lemma panic_free_be32 [no_error_intros]: "panic_free (be32 data n)"
  unfolding be32_def by (intro no_error_intros)

lemma panic_free_begin_node: "fdt_at st \<le> length struct \<Longrightarrow> panic_free (fdt_begin_node struct st)"
  unfolding fdt_begin_node_def by (intro no_error_intros) (simp_all add: slice_def)

lemma panic_free_compatible_value [no_error_intros]: "panic_free (fdt_compatible_value st name value)"
  unfolding fdt_compatible_value_def
  by (intro no_error_intros) (auto simp: position_None_iff simp del: list.map)

lemma panic_free_fdt_property [no_error_intros]: "panic_free (fdt_property struct strings st)"
  unfolding fdt_property_def Let_def by (intro no_error_intros) (simp_all only: not_panic)

lemma panic_free_fdt_token [no_error_intros]: "panic_free (fdt_token struct strings st)"
  unfolding fdt_token_def Let_def
  by (intro no_error_intros panic_free_begin_node) (auto dest!: be32_bounds)

lemma panic_free_fdt_walk [no_error_intros]: "panic_free (fdt_walk struct strings st)"
proof (induction struct strings st rule: fdt_walk.induct)
  case (1 struct strings st)
  show ?case
  proof (cases "fdt_token struct strings st")
    case (Inl e)
    then have "\<not> is_panic e" using panic_free_fdt_token by (metis never_fails_def)
    with Inl show ?thesis by (subst fdt_walk.simps) (auto intro!: no_error_intros)
  next
    case (Inr r)
    with 1 show ?thesis
      by (subst fdt_walk.simps) (auto split: prod.splits intro!: no_error_intros)
  qed
qed

lemma panic_free_device_ids [no_error_intros]: "panic_free (fdt_first_compatible data)" "panic_free (efi_firmware_id data)"
  unfolding fdt_first_compatible_def efi_firmware_id_def Let_def
  by (intro no_error_intros; simp only: not_panic)+

lemma panic_free_section_wanted:
  assumes "uki_wf u" "s \<in> set (uki_sections u)"
  shows "panic_free (section_wanted u policy s)"
  unfolding section_wanted_def file_content_ok [OF assms]
  by (intro no_error_intros) (simp_all only: not_panic)

lemma panic_free_select_first:
  assumes "uki_wf u"
  shows "set ss \<subseteq> set (uki_sections u) \<Longrightarrow> panic_free (select_first u policy ss chosen)"
  by (induction ss arbitrary: chosen) (auto intro!: no_error_intros panic_free_section_wanted [OF assms])

lemma panic_free_select_range:
  assumes "uki_wf u" and "set rng \<subseteq> set (uki_sections u)"
  shows "panic_free (select_range u rng policy chosen)"
  unfolding select_range_def
  by (intro never_fails_foldR panic_free_select_first [OF assms(1)]) (use assms(2) in auto)

lemma profile_starts_sorted: "sorted_wrt (<) (profile_starts u)" "\<forall>i \<in> set (profile_starts u). i < length (uki_sections u)"
proof -
  have "sorted_wrt (<) (map fst (enumerate 0 (uki_sections u)))" by simp
  then show "sorted_wrt (<) (profile_starts u)"
    unfolding profile_starts_def sorted_wrt_map by (rule sorted_wrt_filter)
  show "\<forall>i \<in> set (profile_starts u). i < length (uki_sections u)"
    by (auto simp: profile_starts_def in_set_enumerate_eq)
qed

lemma set_slice: "slice xs i j = Some ys \<Longrightarrow> set ys \<subseteq> set xs"
  by (auto simp: slice_Some_iff dest: in_set_takeD in_set_dropD)

lemma panic_free_selected:
  assumes "uki_wf u"
  shows "panic_free (selected u policy)"
proof -
  let ?starts = "profile_starts u" and ?total = "length (uki_sections u)"
  have hd: "slice (uki_sections u) 0 (if ?starts = [] then ?total else hd ?starts) \<noteq> None"
    using profile_starts_sorted(2) [of u] by (cases ?starts) (auto simp: slice_def)
  have nth: "slice (uki_sections u) (?starts ! i) (if i + 1 < length ?starts then ?starts ! (i + 1) else ?total) \<noteq> None"
    if "i < length ?starts" for i
    using that profile_starts_sorted [of u] sorted_wrt_nth_less [OF profile_starts_sorted(1) [of u], of i "i + 1"]
    by (auto simp: slice_def less_imp_le)
  have "panic_free (selection_validate p)" for p
    unfolding selection_validate_def by (intro no_error_intros never_fails_foldR) (simp_all only: not_panic)
  then show ?thesis
    unfolding selected_def Let_def
    by (intro no_error_intros panic_free_select_range [OF assms])
      (simp only: not_panic | use hd nth in blast | blast dest: ok_or_Inr_iff [THEN iffD1] set_slice)+
qed

section \<open>Concrete inputs\<close>

lemma demo_selected:
  "selected \<lparr>uki_bytes = demo_uki_bytes, uki_sections = [demo_linux]\<rparr> None = Inr [(lit ''.linux'', demo_linux)]"
  by (simp add: selected_def selection_validate_def selection_default_def profile_starts_def slice_def ok_or_def
      List.map_filter_def select_range_def MEASURED_SECTIONS_def demo_linux_def section_wanted_def)

definition demo_fdt :: bytes where
  "demo_fdt =
     be_bytes 4 0xd00dfeed @ be_bytes 4 83 @ be_bytes 4 40 @ be_bytes 4 72 @ be_bytes 4 0 @
     be_bytes 4 17 @ be_bytes 4 16 @ be_bytes 4 0 @ be_bytes 4 11 @ be_bytes 4 32 @
     be_bytes 4 1 @ [0, 0, 0, 0] @ be_bytes 4 3 @ be_bytes 4 4 @ be_bytes 4 0 @ lit ''abc'' @ [0] @
     be_bytes 4 2 @ be_bytes 4 9 @ lit ''compatible'' @ [0]"

lemma demo_fdt_compatible: "fdt_first_compatible demo_fdt = Inr (lit ''abc'')"
  by code_simp

section \<open>Properties\<close>

text \<open>C18. Selection on a well-formed image never panics, and an accepted selection is the overlay of the
  requested profile over the base: a measured name maps to the first section of that name in the
  profile's range that satisfies the device selectors, else to the first one before any profile; every
  chosen section is a section of the image under its own name, and a kernel is among them.\<close>

theorem selected_exact:
  assumes "uki_wf u" and "selected u policy = Inr chosen"
  shows "panic_free (selected u policy') \<and>
    bt_get chosen = overlay u (case policy of None \<Rightarrow> selection_default | Some p \<Rightarrow> p) \<and>
    bt_get chosen (lit ''.linux'') \<noteq> None \<and>
    (\<forall>name s. bt_get chosen name = Some s \<longrightarrow> s \<in> set (uki_sections u) \<and> pe_name s = name)"
  using selected_overlay [OF assms(2)] overlay_SomeD panic_free_selected [OF assms(1)] by metis

theorem selected_exact_witness:
  "bt_get [(lit ''.linux'', demo_linux)] (lit ''.linux'') \<noteq> None \<and>
   bt_get [(lit ''.linux'', demo_linux)] =
     overlay \<lparr>uki_bytes = demo_uki_bytes, uki_sections = [demo_linux]\<rparr> selection_default"
proof -
  have "uki_wf \<lparr>uki_bytes = demo_uki_bytes, uki_sections = [demo_linux]\<rparr>"
    using parse_pe_wf(1) demo_uki_parses unfolding parse_uki_def by blast
  from selected_exact [OF this demo_selected, of None, unfolded option.case] show ?thesis by blast
qed



end
