(* ===== verification/Uki_Verify.thy ===== *)
theory Uki_Verify
  imports Uki_Select
begin

text \<open>
  Appraisal of a unified kernel image against a verified boot log: the section measurements
  (\<open>verify_uki\<close> of \<open>v2/src/boot/uki.rs\<close>) and the command line that systemd-stub v258 composes
  (\<open>v2/src/boot/uki/execution.rs\<close>). The lemmas show that every reported section is the loaded
  content that a quoted register commits to and that the policy approves, and that an accepted
  execution accounts for every measurement of the configuration register.
\<close>

section \<open>Policies and results\<close>

datatype UkiProfile = SystemdStubV258

datatype UkiCommandLineBase = Embedded | LoadOptions nat str

record UkiMeasuredAppend =
  ma_event_index :: nat
  expected_fragments :: "str list"

datatype UkiAddonKind = DeviceTree | Microcode | Initrd

record UkiAddonMeasurement =
  am_kind :: UkiAddonKind
  am_event_index :: nat
  am_expected_digest_hex :: str

record UkiExecutionPolicy =
  ex_base :: UkiCommandLineBase
  ex_addons :: "UkiMeasuredAppend option"
  ex_smbios :: "UkiMeasuredAppend option"
  binary_addons :: "UkiAddonMeasurement list"
  expected_effective_command_line :: str
  ex_expected_verity_root :: "str option"
  other_config_events :: "(nat, str) btmap"

record UkiPolicy =
  up_selection :: "UkiSelectionPolicy option"
  up_execution :: "UkiExecutionPolicy option"
  up_profile :: UkiProfile
  first_section_event :: nat
  up_algorithm :: u16
  expected_sections :: "(str, str) btmap"
  expected_command_line :: "str option"
  expected_verity_root :: "str option"

record VerifiedUkiSection =
  vs_name :: str
  name_event_index :: nat
  data_event_index :: nat
  measured_size :: nat
  vs_digest_hex :: str

record VerifiedAddonMeasurement =
  va_kind :: UkiAddonKind
  va_event_index :: nat
  va_digest_hex :: str

record VerifiedUkiExecution =
  effective_command_line :: str
  configuration_event_indices :: "nat list"
  ve_binary_addons :: "VerifiedAddonMeasurement list"
  ve_dm_verity :: "DmVerityCommitment option"

record VerifiedUki =
  vu_profile :: UkiProfile
  vu_algorithm :: u16
  vu_sections :: "VerifiedUkiSection list"
  embedded_command_line :: "str option"
  os_release :: "str option"
  kernel_release :: "str option"
  vu_dm_verity :: "DmVerityCommitment option"
  authenticated_profile_index :: "u32 option"
  vu_execution :: "VerifiedUkiExecution option"

section \<open>Command-line text\<close>

definition blank :: "nat \<Rightarrow> bool" where
  "blank c \<longleftrightarrow> c \<le> 0x20 \<or> c = 0x7f"

definition trim_matches :: "('a \<Rightarrow> bool) \<Rightarrow> 'a list \<Rightarrow> 'a list" where
  "trim_matches p xs = rev (dropWhile p (rev (dropWhile p xs)))"

definition mangle :: "str \<Rightarrow> str" where
  "mangle txt = utf8_encode (map (\<lambda>c. if blank c then 0x20 else c) (trim_matches blank (chars txt)))"

definition canonical :: "str \<Rightarrow> unit boot" where
  "canonical txt =
     (if length txt > MAX_TEXT_BYTES \<or> 0 \<in> set txt \<or> txt = [] \<or> mangle txt \<noteq> txt
      then Inl (Uki ''noncanonical or oversized measured load options'') else Inr ())"

definition append_fragment :: "str \<Rightarrow> str \<Rightarrow> str boot" where
  "append_fragment out txt =
     (let out' = (if out \<noteq> [] then out @ [32] else out) @ mangle txt in
      if length out' > MAX_TEXT_BYTES then Inl (Limit ''joined addon command line'') else Inr out')"

definition append_text :: "UkiMeasuredAppend \<Rightarrow> str boot" where
  "append_text policy =
     (if expected_fragments policy = [] \<or>
         (\<exists>s \<in> set (expected_fragments policy). length s > MAX_TEXT_BYTES \<or> 0 \<in> set s)
      then Inl (Uki ''missing or oversized addon command-line fragment'')
      else bindR (foldR append_fragment [] (expected_fragments policy)) (\<lambda>out.
      let out = mangle out in
      bindR (canonical out) (\<lambda>_. Inr out)))"

definition is_hex_of_size :: "nat \<Rightarrow> str \<Rightarrow> bool" where
  "is_hex_of_size n s \<longleftrightarrow> length s = n \<and> list_all is_ascii_hexdigit s"

definition valid_root :: "str \<Rightarrow> bool" where
  "valid_root s \<longleftrightarrow> length s \<in> {64, 96, 128} \<and> list_all is_ascii_hexdigit s"

definition execution_validate :: "prims \<Rightarrow> UkiExecutionPolicy \<Rightarrow> u16 \<Rightarrow> unit boot" where
  "execution_validate P policy algorithm =
     bindR (hash P algorithm []) (\<lambda>h.
     let sz = length h * 2 in
     if length (expected_effective_command_line policy) > MAX_TEXT_BYTES
        \<or> length (binary_addons policy) > 96 \<or> length (other_config_events policy) > 65536
     then Inl (Limit ''UKI execution policy'')
     else bindR (case ex_base policy of Embedded \<Rightarrow> Inr () | LoadOptions _ txt \<Rightarrow> canonical txt) (\<lambda>_.
     bindR (foldR (\<lambda>_ a. if length (expected_fragments a) > 96 then Inl (Limit ''UKI addon fragments'')
                 else bindR (append_text a) (\<lambda>_. Inr ()))
              () (List.map_filter id [ex_addons policy, ex_smbios policy])) (\<lambda>_.
     if \<exists>a \<in> set_option (ex_smbios policy). length (expected_fragments a) \<noteq> 1
     then Inl (Uki ''SMBIOS appends exactly one approved string'')
     else if \<exists>d \<in> set (map am_expected_digest_hex (binary_addons policy) @ map snd (other_config_events policy)).
            \<not> is_hex_of_size sz d
     then Inl (Uki ''invalid configuration measurement digest'')
     else if \<exists>s \<in> set_option (ex_expected_verity_root policy). \<not> valid_root s
     then Inl (Uki ''invalid execution verity root'')
     else Inr ())))"

definition uki_policy_validate :: "prims \<Rightarrow> UkiPolicy \<Rightarrow> unit boot" where
  "uki_policy_validate P policy =
     bindR (case up_selection policy of None \<Rightarrow> Inr () | Some s \<Rightarrow> selection_validate s) (\<lambda>_.
     bindR (case up_execution policy of None \<Rightarrow> Inr () | Some e \<Rightarrow> execution_validate P e (up_algorithm policy)) (\<lambda>_.
     bindR (hash P (up_algorithm policy) []) (\<lambda>h.
     let digest_size = length h; sections = expected_sections policy in
     if bt_get sections (lit ''.linux'') = None \<or> length sections > length MEASURED_SECTIONS
     then Inl (Uki ''policy must include the measured kernel section'')
     else if \<exists>(name, digest) \<in> set sections. name \<notin> set MEASURED_SECTIONS \<or> \<not> is_hex_of_size (digest_size * 2) digest
     then Inl (Uki ''unsupported section or invalid digest in UKI policy'')
     else if (\<exists>s \<in> set_option (expected_command_line policy). length s > MAX_TEXT_BYTES)
        \<or> ((expected_command_line policy \<noteq> None \<or> expected_verity_root policy \<noteq> None)
           \<and> bt_get sections (lit ''.cmdline'') = None)
     then Inl (Uki ''command-line policy requires bounded measured .cmdline'')
     else if \<exists>s \<in> set_option (expected_verity_root policy). \<not> valid_root s
     then Inl (Uki ''invalid expected verity digest'')
     else Inr ())))"

section \<open>Execution\<close>

record exec_state =
  covered :: "nat list"
  last_index :: nat

definition event_at :: "VerifiedBootLog \<Rightarrow> nat \<Rightarrow> Event boot" where
  "event_at v index =
     ok_or (if index < length (log_events (vb_log v)) then Some (log_events (vb_log v) ! index) else None)
       (UnauthenticatedEvent index)"

definition config_register :: "LogKind \<Rightarrow> u32" where
  "config_register kind = (if kind = Tpm2 then 12 else 3)"

definition bind_section :: "prims \<Rightarrow> VerifiedBootLog \<Rightarrow> u16 \<Rightarrow> nat list \<Rightarrow> VerifiedUkiSection \<Rightarrow> nat list boot" where
  "bind_section P v algorithm cov s =
     bindR (verify_measured_bytes P v (name_event_index s) algorithm (vs_name s @ [0])) (\<lambda>_.
     bindR (ok_or (hex_decode P (vs_digest_hex s)) (Uki ''invalid verified section digest'')) (\<lambda>digest.
     bindR (verify_expected_digest v (data_event_index s) algorithm digest) (\<lambda>_.
     Inr (if log_kind (vb_log v) = TdxCcel
          then bts_insert (data_event_index s) (bts_insert (name_event_index s) cov) else cov))))"

definition record_text :: "prims \<Rightarrow> VerifiedBootLog \<Rightarrow> u16 \<Rightarrow> exec_state \<Rightarrow> nat \<Rightarrow> str \<Rightarrow> exec_state boot" where
  "record_text P v algorithm st index txt =
     bindR (canonical txt) (\<lambda>_.
     bindR (event_at v index) (\<lambda>e.
     if index \<le> last_index st \<or> register_index e \<noteq> config_register (log_kind (vb_log v))
        \<or> reported_event_type e \<noteq> EV_IPL \<or> index \<in> set (covered st)
     then Inl (Uki ''load-option measurements have invalid order, coverage, or register'')
     else bindR (verify_measured_bytes P v index algorithm (utf16_z txt)) (\<lambda>_.
     Inr \<lparr>covered = bts_insert index (covered st), last_index = index\<rparr>)))"

definition append_measured ::
  "prims \<Rightarrow> VerifiedBootLog \<Rightarrow> u16 \<Rightarrow> exec_state \<times> str \<Rightarrow> bool \<times> UkiMeasuredAppend option \<Rightarrow> (exec_state \<times> str) boot" where
  "append_measured P v algorithm = (\<lambda>(st, line) (is_smbios, app).
     case app of
       None \<Rightarrow> Inr (st, line)
     | Some app \<Rightarrow>
         if is_smbios \<and> log_kind (vb_log v) = TdxCcel
         then Inl (Uki ''v258 ignores SMBIOS command lines in confidential VMs'')
         else bindR (append_text app) (\<lambda>txt.
         bindR (record_text P v algorithm st (ma_event_index app) txt) (\<lambda>st.
         Inr (st, (if line \<noteq> [] then line @ [32] else line) @ txt))))"

definition addon_stage :: "UkiAddonKind \<Rightarrow> nat" where
  "addon_stage kind = (case kind of DeviceTree \<Rightarrow> 0 | Microcode \<Rightarrow> 1 | Initrd \<Rightarrow> 2)"

record addon_state =
  as_exec :: exec_state
  as_stage :: nat
  as_addons :: "VerifiedAddonMeasurement list"

definition verify_addon ::
  "prims \<Rightarrow> VerifiedBootLog \<Rightarrow> u16 \<Rightarrow> addon_state \<Rightarrow> UkiAddonMeasurement \<Rightarrow> addon_state boot" where
  "verify_addon P v algorithm st addon =
     (if log_kind (vb_log v) \<noteq> Tpm2
      then Inl (Uki ''v258 binary addon measurements require TPM coverage'')
      else let next_stage = addon_stage (am_kind addon); index = am_event_index addon in
      bindR (event_at v index) (\<lambda>e.
      if next_stage < as_stage st \<or> index \<le> last_index (as_exec st) \<or> register_index e \<noteq> 12
         \<or> reported_event_type e \<noteq> 6 \<or> index \<in> set (covered (as_exec st))
      then Inl (Uki ''invalid addon measurement order or register'')
      else bindR (ok_or (hex_decode P (am_expected_digest_hex addon)) (Uki ''invalid addon digest'')) (\<lambda>digest.
      bindR (verify_expected_digest v index algorithm digest) (\<lambda>_.
      Inr \<lparr>as_exec = \<lparr>covered = bts_insert index (covered (as_exec st)), last_index = index\<rparr>,
           as_stage = next_stage,
           as_addons = as_addons st @ [\<lparr>va_kind = am_kind addon, va_event_index = index,
             va_digest_hex = hex_encode P digest\<rparr>]\<rparr>))))"

definition cover_other :: "prims \<Rightarrow> VerifiedBootLog \<Rightarrow> u16 \<Rightarrow> nat list \<Rightarrow> nat \<times> str \<Rightarrow> nat list boot" where
  "cover_other P v algorithm cov = (\<lambda>(index, digest).
     bindR (event_at v index) (\<lambda>e.
     if register_index e \<noteq> config_register (log_kind (vb_log v)) \<or> index \<in> set cov
     then Inl (Uki ''duplicate or wrong-register additional configuration event'')
     else bindR (ok_or (hex_decode P digest) (Uki ''invalid configuration digest'')) (\<lambda>d.
     bindR (verify_expected_digest v index algorithm d) (\<lambda>_.
     Inr (bts_insert index cov)))))"

definition uncovered :: "VerifiedBootLog \<Rightarrow> nat list \<Rightarrow> bool" where
  "uncovered v cov \<longleftrightarrow> (\<exists>(index, e) \<in> set (enumerate 0 (log_events (vb_log v))).
     register_index e = config_register (log_kind (vb_log v)) \<and> reported_event_type e \<noteq> EV_NO_ACTION
     \<and> index \<notin> set cov)"

definition verify_uki_execution ::
  "prims \<Rightarrow> VerifiedBootLog \<Rightarrow> VerifiedUki \<Rightarrow> UkiExecutionPolicy \<Rightarrow> VerifiedUkiExecution boot" where
  "verify_uki_execution P v uki policy =
     (let algorithm = vu_algorithm uki in
      bindR (execution_validate P policy algorithm) (\<lambda>_.
      bindR (if vu_sections uki = [] then Inl (Uki ''missing authenticated UKI sections'')
             else Inr (Max (set (map data_event_index (vu_sections uki))))) (\<lambda>last_section.
      bindR (foldR (bind_section P v algorithm) [] (vu_sections uki)) (\<lambda>cov.
      let st = \<lparr>covered = cov, last_index = last_section\<rparr> in
      bindR (case ex_base policy of
               Embedded \<Rightarrow> Inr (st, mangle (case embedded_command_line uki of None \<Rightarrow> [] | Some l \<Rightarrow> l))
             | LoadOptions index txt \<Rightarrow>
                 bindR (record_text P v algorithm st index txt) (\<lambda>st. Inr (st, txt))) (\<lambda>base.
      bindR (foldR (append_measured P v algorithm) base [(False, ex_addons policy), (True, ex_smbios policy)])
        (\<lambda>(st, line).
      bindR (foldR (verify_addon P v algorithm) \<lparr>as_exec = st, as_stage = 0, as_addons = []\<rparr>
               (binary_addons policy)) (\<lambda>ads.
      bindR (foldR (cover_other P v algorithm) (covered (as_exec ads)) (other_config_events policy)) (\<lambda>cov.
      if uncovered v cov then Inl (Uki ''unaccounted configuration-register measurement'')
      else if line \<noteq> expected_effective_command_line policy
      then Inl (Uki ''reconstructed effective command line differs from policy'')
      else bindR (case ex_expected_verity_root policy of
               None \<Rightarrow> Inr None
             | Some root \<Rightarrow>
                 bindR (ok_or (hex_decode P root) (Uki ''invalid expected execution verity root'')) (\<lambda>root.
                 bindR (verify_dm_verity P \<lparr>mc_event_index = last_section, mc_algorithm = algorithm,
                          mc_profile = SystemdUkiEmbedded, mc_command_line = line\<rparr> root) (\<lambda>d.
                 Inr (Some d)))) (\<lambda>dm_verity.
      Inr \<lparr>effective_command_line = line, configuration_event_indices = cov,
           ve_binary_addons = as_addons ads, ve_dm_verity = dm_verity\<rparr>)))))))))"

section \<open>Section measurements\<close>

definition uki_register :: "LogKind \<Rightarrow> u32" where
  "uki_register kind = (case kind of Tpm2 \<Rightarrow> 11 | TdxCcel \<Rightarrow> 3)"

definition uki_stream :: "VerifiedBootLog \<Rightarrow> nat \<Rightarrow> (nat \<times> Event) list" where
  "uki_stream v first =
     filter (\<lambda>(_, e). register_index e = uki_register (log_kind (vb_log v)) \<and> reported_event_type e \<noteq> EV_NO_ACTION)
       (drop first (enumerate 0 (log_events (vb_log v))))"

type_synonym section_state = "(nat \<times> Event) list \<times> VerifiedUkiSection list"

definition verify_section ::
  "prims \<Rightarrow> VerifiedBootLog \<Rightarrow> UnverifiedUki \<Rightarrow> UkiPolicy \<Rightarrow> nat \<Rightarrow> section_state \<Rightarrow> UnverifiedPeSection \<Rightarrow> section_state boot" where
  "verify_section P v u policy digest_size = (\<lambda>(stream, sections) s.
     case stream of
       [] \<Rightarrow> Inl (Uki ''missing UKI name measurement'')
     | (name_index, name_event) # stream \<Rightarrow>
         if sections = [] \<and> name_index \<noteq> first_section_event policy
         then Inl (Uki ''first UKI event is outside the selected register'')
         else (case stream of
           [] \<Rightarrow> Inl (Uki ''missing UKI data measurement'')
         | (data_index, data_event) # stream \<Rightarrow>
             if reported_event_type name_event \<noteq> EV_IPL \<or> reported_event_type data_event \<noteq> EV_IPL
             then Inl (Uki ''UKI measurements are not EV_IPL pairs'')
             else bindR (verify_measured_bytes P v name_index (up_algorithm policy) (pe_name s @ [0])) (\<lambda>_.
             bindR (section_digest P u s (up_algorithm policy)) (\<lambda>digest.
             bindR (verify_expected_digest v data_index (up_algorithm policy) digest) (\<lambda>_.
             bindR (ok_or (bt_get (expected_sections policy) (pe_name s)) (Panic ''map index'')) (\<lambda>hex.
             bindR (ok_or (hex_decode P hex) (Uki ''invalid expected UKI section digest'')) (\<lambda>expected.
             if length expected \<noteq> digest_size \<or> expected \<noteq> digest
             then Inl (Uki ''UKI section differs from independent policy'')
             else Inr (stream, sections @ [\<lparr>vs_name = pe_name s, name_event_index = name_index,
                    data_event_index = data_index, measured_size = virtual_size s,
                    vs_digest_hex = hex_encode P digest\<rparr>]))))))))"

definition no_further_section :: "prims \<Rightarrow> VerifiedBootLog \<Rightarrow> u16 \<Rightarrow> (nat \<times> Event) list \<Rightarrow> unit boot" where
  "no_further_section P v algorithm stream =
     (case stream of
        [] \<Rightarrow> Inr ()
      | (index, _) # _ \<Rightarrow>
          bindR (authenticated_digest v index algorithm) (\<lambda>nxt.
          foldR (\<lambda>_ name. bindR (hash P algorithm (name @ [0])) (\<lambda>h.
              if nxt = h then Inl (Uki ''unaccounted UKI section measurement follows candidate'') else Inr ()))
            () MEASURED_SECTIONS))"

definition uki_dm_verity ::
  "prims \<Rightarrow> UkiPolicy \<Rightarrow> VerifiedUkiSection list \<Rightarrow> str option \<Rightarrow> DmVerityCommitment option boot" where
  "uki_dm_verity P policy sections cmdline =
     (case expected_verity_root policy of
        None \<Rightarrow> Inr None
      | Some expected \<Rightarrow>
          bindR (ok_or (find (\<lambda>s. vs_name s = lit ''.cmdline'') sections) (Uki ''verity policy requires measured .cmdline'')) (\<lambda>s.
          bindR (ok_or (hex_decode P expected) (Uki ''invalid expected verity digest'')) (\<lambda>root.
          bindR (ok_or cmdline (Uki ''missing embedded command line'')) (\<lambda>line.
          bindR (verify_dm_verity P \<lparr>mc_event_index = data_event_index s, mc_algorithm = up_algorithm policy,
                   mc_profile = SystemdUkiEmbedded, mc_command_line = line\<rparr> root) (\<lambda>d.
          Inr (Some d))))))"

definition measured_sections :: "chosen \<Rightarrow> UnverifiedPeSection list" where
  "measured_sections chosen = List.map_filter (bt_get chosen) MEASURED_SECTIONS"

definition verify_uki :: "prims \<Rightarrow> VerifiedBootLog \<Rightarrow> bytes \<Rightarrow> UkiPolicy \<Rightarrow> VerifiedUki boot" where
  "verify_uki P v bs policy =
     bindR (uki_policy_validate P policy) (\<lambda>_.
     bindR (parse_uki bs) (\<lambda>u.
     bindR (hash P (up_algorithm policy) []) (\<lambda>h.
     bindR (selected u (up_selection policy)) (\<lambda>chosen.
     let measured = measured_sections chosen in
     if length (expected_sections policy) \<noteq> length measured
        \<or> (\<exists>s \<in> set measured. bt_get (expected_sections policy) (pe_name s) = None)
     then Inl (Uki ''policy must approve exactly every measured UKI section'')
     else bindR (foldR (verify_section P v u policy (length h)) (uki_stream v (first_section_event policy), [])
              measured) (\<lambda>(stream, sections).
     bindR (no_further_section P v (up_algorithm policy) stream) (\<lambda>_.
     bindR (selected_text u chosen (lit ''.cmdline'')) (\<lambda>cmdline.
     if \<exists>expected \<in> set_option (expected_command_line policy).
          length expected > MAX_TEXT_BYTES \<or> cmdline \<noteq> Some expected
     then Inl (Uki ''embedded command line differs from independent policy'')
     else bindR (uki_dm_verity P policy sections cmdline) (\<lambda>dm_verity.
     bindR (case up_selection policy of
              None \<Rightarrow> Inr None
            | Some s \<Rightarrow> verify_uki_profile_number P v s (up_algorithm policy) (first_section_event policy)) (\<lambda>profile_index.
     bindR (selected_text u chosen (lit ''.osrel'')) (\<lambda>osrel.
     bindR (selected_text u chosen (lit ''.uname'')) (\<lambda>uname.
     let result = \<lparr>vu_profile = up_profile policy, vu_algorithm = up_algorithm policy, vu_sections = sections,
           embedded_command_line = cmdline, os_release = osrel, kernel_release = uname,
           vu_dm_verity = dm_verity, authenticated_profile_index = profile_index, vu_execution = None\<rparr> in
     case up_execution policy of
       None \<Rightarrow> Inr result
     | Some ex \<Rightarrow> bindR (verify_uki_execution P v result ex) (\<lambda>e. Inr (result\<lparr>vu_execution := Some e\<rparr>)))))))))))))"

section \<open>The section loop\<close>

definition event_indices :: "VerifiedUkiSection list \<Rightarrow> nat list" where
  "event_indices vss = concat (map (\<lambda>vs. [name_event_index vs, data_event_index vs]) vss)"

definition section_verified ::
  "prims \<Rightarrow> VerifiedBootLog \<Rightarrow> UnverifiedUki \<Rightarrow> UkiPolicy \<Rightarrow> UnverifiedPeSection \<Rightarrow> VerifiedUkiSection \<Rightarrow> bool" where
  "section_verified P v u policy s vs \<longleftrightarrow>
     vs_name vs = pe_name s \<and> measured_size vs = virtual_size s \<and>
     verify_measured_bytes P v (name_event_index vs) (up_algorithm policy) (pe_name s @ [0]) = Inr () \<and>
     (\<exists>digest hex. section_digest P u s (up_algorithm policy) = Inr digest \<and>
        verify_expected_digest v (data_event_index vs) (up_algorithm policy) digest = Inr () \<and>
        bt_get (expected_sections policy) (pe_name s) = Some hex \<and> hex_decode P hex = Some digest \<and>
        vs_digest_hex vs = hex_encode P digest)"

lemma verify_section_step:
  assumes "verify_section P v u policy n (stream, secs) s = Inr (stream', secs')"
  obtains vs name_event data_event where
    "secs' = secs @ [vs]" "stream = (name_event_index vs, name_event) # (data_event_index vs, data_event) # stream'"
    "section_verified P v u policy s vs" "secs = [] \<Longrightarrow> name_event_index vs = first_section_event policy"
proof -
  obtain ni ne di de where st: "stream = (ni, ne) # (di, de) # stream'"
      "\<not> (secs = [] \<and> ni \<noteq> first_section_event policy)"
    and rest: "\<exists>digest hex. verify_measured_bytes P v ni (up_algorithm policy) (pe_name s @ [0]) = Inr () \<and>
      section_digest P u s (up_algorithm policy) = Inr digest \<and>
      verify_expected_digest v di (up_algorithm policy) digest = Inr () \<and>
      bt_get (expected_sections policy) (pe_name s) = Some hex \<and> hex_decode P hex = Some digest \<and>
      secs' = secs @ [\<lparr>vs_name = pe_name s, name_event_index = ni, data_event_index = di,
        measured_size = virtual_size s, vs_digest_hex = hex_encode P digest\<rparr>]"
    using assms unfolding verify_section_def
    by (auto simp: result_simps split: list.splits if_splits)
  from rest obtain digest hex where
    d: "verify_measured_bytes P v ni (up_algorithm policy) (pe_name s @ [0]) = Inr ()"
      "section_digest P u s (up_algorithm policy) = Inr digest"
      "verify_expected_digest v di (up_algorithm policy) digest = Inr ()"
      "bt_get (expected_sections policy) (pe_name s) = Some hex" "hex_decode P hex = Some digest"
      "secs' = secs @ [\<lparr>vs_name = pe_name s, name_event_index = ni, data_event_index = di,
        measured_size = virtual_size s, vs_digest_hex = hex_encode P digest\<rparr>]" by blast
  show ?thesis
    by (rule that [OF d(6), of ne de]) (use st d in \<open>simp_all add: section_verified_def\<close>)
qed

lemma verify_sections_loop:
  "foldR (verify_section P v u policy n) (stream, secs) ss = Inr (stream', secs') \<Longrightarrow>
   \<exists>new used. secs' = secs @ new \<and> stream = used @ stream' \<and> map fst used = event_indices new \<and>
     list_all2 (section_verified P v u policy) ss new \<and>
     (secs = [] \<and> ss \<noteq> [] \<longrightarrow> name_event_index (hd new) = first_section_event policy)"
proof (induction ss arbitrary: stream secs)
  case Nil
  then show ?case by (auto simp: event_indices_def)
next
  case (Cons s ss)
  then obtain stream1 secs1 where step: "verify_section P v u policy n (stream, secs) s = Inr (stream1, secs1)"
    and rest: "foldR (verify_section P v u policy n) (stream1, secs1) ss = Inr (stream', secs')"
    by (auto simp: result_simps)
  obtain vs ne de where vs: "secs1 = secs @ [vs]"
      "stream = (name_event_index vs, ne) # (data_event_index vs, de) # stream1"
      "section_verified P v u policy s vs" "secs = [] \<Longrightarrow> name_event_index vs = first_section_event policy"
    using verify_section_step [OF step] by metis
  obtain new used where new: "secs' = secs1 @ new" "stream1 = used @ stream'" "map fst used = event_indices new"
      "list_all2 (section_verified P v u policy) ss new"
    using Cons.IH [OF rest] by blast
  show ?case
    by (rule exI [of _ "vs # new"],
        rule exI [of _ "(name_event_index vs, ne) # (data_event_index vs, de) # used"])
      (use vs new in \<open>auto simp: event_indices_def\<close>)
qed

lemma uki_stream_sorted: "sorted_wrt (<) (map fst (uki_stream v first))"
proof -
  have "sorted_wrt (<) (map fst (enumerate 0 (log_events (vb_log v))))" by simp
  then have "sorted_wrt (\<lambda>x y. fst x < fst y) (drop first (enumerate 0 (log_events (vb_log v))))"
    unfolding sorted_wrt_map by (rule sorted_wrt_drop)
  then show ?thesis
    unfolding uki_stream_def sorted_wrt_map by (rule sorted_wrt_filter)
qed

lemma measured_names:
  assumes "\<forall>name s. bt_get chosen name = Some s \<longrightarrow> pe_name s = name"
  shows "map pe_name (measured_sections chosen) = filter (\<lambda>n. bt_get chosen n \<noteq> None) MEASURED_SECTIONS"
proof -
  have "map pe_name (List.map_filter (bt_get chosen) ns) = filter (\<lambda>n. bt_get chosen n \<noteq> None) ns" for ns
    using assms by (induction ns) (auto simp: List.map_filter_simps split: option.splits)
  then show ?thesis by (simp add: measured_sections_def)
qed

lemma distinct_MEASURED_SECTIONS: "distinct MEASURED_SECTIONS"
  by (simp add: MEASURED_SECTIONS_def)

lemma verify_uki_steps:
  assumes "verify_uki P v bs policy = Inr r"
  obtains u and h :: bytes and chosen stream sections cmdline where
    "uki_policy_validate P policy = Inr ()" "parse_uki bs = Inr u" "selected u (up_selection policy) = Inr chosen"
    "length (expected_sections policy) = length (measured_sections chosen)"
    "\<forall>s \<in> set (measured_sections chosen). bt_get (expected_sections policy) (pe_name s) \<noteq> None"
    "foldR (verify_section P v u policy (length h)) (uki_stream v (first_section_event policy), [])
       (measured_sections chosen) = Inr (stream, sections)"
    "no_further_section P v (up_algorithm policy) stream = Inr ()"
    "selected_text u chosen (lit ''.cmdline'') = Inr cmdline"
    "vu_sections r = sections" "embedded_command_line r = cmdline" "vu_algorithm r = up_algorithm policy"
    "\<forall>l. expected_command_line policy = Some l \<longrightarrow> cmdline = Some l"
    "uki_dm_verity P policy sections cmdline = Inr (vu_dm_verity r)"
    "\<forall>ex. up_execution policy = Some ex \<longrightarrow> (\<exists>e. vu_execution r = Some e \<and>
        verify_uki_execution P v (r\<lparr>vu_execution := None\<rparr>) ex = Inr e)"
proof -
  obtain a u h chosen stream sections b cmdline dm pidx osrel uname where
    f: "uki_policy_validate P policy = Inr a" "parse_uki bs = Inr u" "hash P (up_algorithm policy) [] = Inr h"
      "selected u (up_selection policy) = Inr chosen"
      "\<not> (length (expected_sections policy) \<noteq> length (measured_sections chosen)
        \<or> (\<exists>s \<in> set (measured_sections chosen). bt_get (expected_sections policy) (pe_name s) = None))"
      "foldR (verify_section P v u policy (length h)) (uki_stream v (first_section_event policy), [])
         (measured_sections chosen) = Inr (stream, sections)"
      "no_further_section P v (up_algorithm policy) stream = Inr b"
      "selected_text u chosen (lit ''.cmdline'') = Inr cmdline"
      "\<not> (\<exists>expected \<in> set_option (expected_command_line policy).
          length expected > MAX_TEXT_BYTES \<or> cmdline \<noteq> Some expected)"
      "uki_dm_verity P policy sections cmdline = Inr dm"
      "(case up_selection policy of
              None \<Rightarrow> Inr None
            | Some s \<Rightarrow> verify_uki_profile_number P v s (up_algorithm policy) (first_section_event policy)) = Inr pidx"
      "selected_text u chosen (lit ''.osrel'') = Inr osrel"
      "selected_text u chosen (lit ''.uname'') = Inr uname" and
    last: "(case up_execution policy of
       None \<Rightarrow> Inr \<lparr>vu_profile = up_profile policy, vu_algorithm = up_algorithm policy, vu_sections = sections,
           embedded_command_line = cmdline, os_release = osrel, kernel_release = uname,
           vu_dm_verity = dm, authenticated_profile_index = pidx, vu_execution = None\<rparr>
     | Some ex \<Rightarrow> bindR (verify_uki_execution P v \<lparr>vu_profile = up_profile policy, vu_algorithm = up_algorithm policy,
           vu_sections = sections,
           embedded_command_line = cmdline, os_release = osrel, kernel_release = uname,
           vu_dm_verity = dm, authenticated_profile_index = pidx, vu_execution = None\<rparr> ex) (\<lambda>e. Inr (
           \<lparr>vu_profile = up_profile policy, vu_algorithm = up_algorithm policy, vu_sections = sections,
           embedded_command_line = cmdline, os_release = osrel, kernel_release = uname,
           vu_dm_verity = dm, authenticated_profile_index = pidx, vu_execution = None\<rparr>\<lparr>vu_execution := Some e\<rparr>))) = Inr r"
    using assms unfolding verify_uki_def Let_def by - (elim result_elims, (rule that; assumption))
  have r: "vu_sections r = sections" "embedded_command_line r = cmdline" "vu_algorithm r = up_algorithm policy"
      "vu_dm_verity r = dm"
    using last by (auto simp: result_simps split: option.splits)
  have ex: "\<forall>ex. up_execution policy = Some ex \<longrightarrow> (\<exists>e. vu_execution r = Some e \<and>
        verify_uki_execution P v (r\<lparr>vu_execution := None\<rparr>) ex = Inr e)"
    using last by (auto simp: result_simps split: option.splits)
  show ?thesis
    by (rule that [of u chosen h stream sections cmdline]) (use f r ex in \<open>auto simp del: list.map\<close>)
qed

lemma verify_uki_sections:
  assumes "verify_uki P v bs policy = Inr r"
  obtains u chosen where
    "parse_uki bs = Inr u" "selected u (up_selection policy) = Inr chosen"
    "list_all2 (section_verified P v u policy) (measured_sections chosen) (vu_sections r)"
    "sorted_wrt (<) (event_indices (vu_sections r))"
    "name_event_index (hd (vu_sections r)) = first_section_event policy"
    "length (expected_sections policy) = length (measured_sections chosen)"
    "set (map pe_name (measured_sections chosen)) \<subseteq> set (bt_keys (expected_sections policy))"
    "measured_sections chosen \<noteq> []"
proof -
  from verify_uki_steps [OF assms] obtain u and h :: bytes and chosen stream sections cmdline where
    f: "parse_uki bs = Inr u" "selected u (up_selection policy) = Inr chosen"
      "length (expected_sections policy) = length (measured_sections chosen)"
      "\<forall>s \<in> set (measured_sections chosen). bt_get (expected_sections policy) (pe_name s) \<noteq> None"
      "foldR (verify_section P v u policy (length h)) (uki_stream v (first_section_event policy), [])
         (measured_sections chosen) = Inr (stream, sections)"
      "vu_sections r = sections"
    by metis
  obtain new used where loop: "sections = new" "uki_stream v (first_section_event policy) = used @ stream"
      "map fst used = event_indices new" "list_all2 (section_verified P v u policy) (measured_sections chosen) new"
      "measured_sections chosen \<noteq> [] \<longrightarrow> name_event_index (hd new) = first_section_event policy"
    using verify_sections_loop [OF f(5)] by auto
  have "lit ''.linux'' \<in> set MEASURED_SECTIONS" by (simp add: MEASURED_SECTIONS_def)
  then have ne: "measured_sections chosen \<noteq> []"
    using selected_overlay(3) [OF f(2)] by (auto simp: measured_sections_def List.map_filter_def filter_empty_conv)
  have "sorted_wrt (<) (event_indices new)"
    using uki_stream_sorted [of v "first_section_event policy"] unfolding loop(2) map_append loop(3)
    by (simp add: sorted_wrt_append)
  moreover have "set (map pe_name (measured_sections chosen)) \<subseteq> set (bt_keys (expected_sections policy))"
    using f(4) by (auto simp: map_of_eq_None_iff image_iff)
  ultimately show ?thesis
    using that [OF f(1,2)] loop f(3,6) ne by simp
qed

lemma verify_uki_names:
  assumes "verify_uki P v bs policy = Inr r" and "bt_invar (expected_sections policy)"
  shows "set (bt_keys (expected_sections policy)) = set (map vs_name (vu_sections r))"
    and "distinct (map vs_name (vu_sections r))"
proof -
  from verify_uki_sections [OF assms(1)] obtain u chosen where
    f: "selected u (up_selection policy) = Inr chosen"
      "list_all2 (section_verified P v u policy) (measured_sections chosen) (vu_sections r)"
      "length (expected_sections policy) = length (measured_sections chosen)"
      "set (map pe_name (measured_sections chosen)) \<subseteq> set (bt_keys (expected_sections policy))"
    by metis
  have names: "map pe_name (measured_sections chosen) = map vs_name (vu_sections r)"
    using f(2) by (auto simp: list_all2_conv_all_nth section_verified_def intro: nth_equalityI)
  have "map pe_name (measured_sections chosen) = filter (\<lambda>n. bt_get chosen n \<noteq> None) MEASURED_SECTIONS"
    using selected_overlay(1) [OF f(1)] overlay_SomeD(2) by (intro measured_names) metis
  then have d: "distinct (map pe_name (measured_sections chosen))"
    using distinct_MEASURED_SECTIONS by simp
  then show "distinct (map vs_name (vu_sections r))" by (simp only: names)
  have "distinct (bt_keys (expected_sections policy))"
    by (rule bt.keys_distinct) (rule assms(2))
  then have "card (set (bt_keys (expected_sections policy))) = card (set (map pe_name (measured_sections chosen)))"
    using d f(3) by (simp only: distinct_card length_map)
  then have "set (map pe_name (measured_sections chosen)) = set (bt_keys (expected_sections policy))"
    using f(4) by (intro card_subset_eq) auto
  then show "set (bt_keys (expected_sections policy)) = set (map vs_name (vu_sections r))"
    by (simp only: names)
qed

section \<open>The configuration register\<close>

definition authenticated :: "VerifiedBootLog \<Rightarrow> u16 \<Rightarrow> nat \<Rightarrow> bool" where
  "authenticated v algorithm index \<longleftrightarrow> is_ok (authenticated_digest v index algorithm)"

lemma authenticatedI:
  "verify_measured_bytes P v i a bs = Inr u \<Longrightarrow> authenticated v a i"
  "verify_expected_digest v i a d = Inr u \<Longrightarrow> authenticated v a i"
  by (auto simp: authenticated_def is_ok_iff verify_measured_bytes_def verify_expected_digest_def result_simps)

definition section_indices :: "VerifiedBootLog \<Rightarrow> VerifiedUkiSection list \<Rightarrow> nat set" where
  "section_indices v ss = (if log_kind (vb_log v) = TdxCcel then set (event_indices ss) else {})"

lemma bind_sections:
  "foldR (bind_section P v a) cov ss = Inr cov' \<Longrightarrow>
   set cov' = set cov \<union> section_indices v ss \<and>
   (\<forall>s \<in> set ss. authenticated v a (name_event_index s) \<and> authenticated v a (data_event_index s))"
proof (induction ss arbitrary: cov)
  case (Cons s ss)
  then obtain mid where step: "bind_section P v a cov s = Inr mid" and rest: "foldR (bind_section P v a) mid ss = Inr cov'"
    by (auto simp: result_simps)
  have "set mid = set cov \<union> section_indices v [s]"
      "authenticated v a (name_event_index s)" "authenticated v a (data_event_index s)"
    using step unfolding bind_section_def
    by (auto simp: result_simps section_indices_def event_indices_def dest: authenticatedI)
  then show ?case
    using Cons.IH [OF rest] by (auto simp: section_indices_def event_indices_def)
qed (auto simp: section_indices_def event_indices_def)

lemma record_text_Inr:
  assumes "record_text P v a st i txt = Inr st'"
  shows "verify_measured_bytes P v i a (utf16_z txt) = Inr ()" "canonical txt = Inr ()"
    "last_index st < i" "st' = \<lparr>covered = bts_insert i (covered st), last_index = i\<rparr>"
    "authenticated v a i"
  using assms unfolding record_text_def by (auto simp: result_simps dest: authenticatedI)

text \<open>The texts that a policy says were measured, in the order of the stub: the load options, the addons
  and the SMBIOS string.\<close>

definition base_text :: "VerifiedUki \<Rightarrow> UkiExecutionPolicy \<Rightarrow> str" where
  "base_text uki policy =
     (case ex_base policy of
        Embedded \<Rightarrow> mangle (case embedded_command_line uki of None \<Rightarrow> [] | Some l \<Rightarrow> l)
      | LoadOptions _ txt \<Rightarrow> txt)"

definition appended :: "UkiMeasuredAppend option \<Rightarrow> (nat \<times> str) list" where
  "appended app = (case app of
      None \<Rightarrow> []
    | Some a \<Rightarrow> (case append_text a of Inl _ \<Rightarrow> [] | Inr txt \<Rightarrow> [(ma_event_index a, txt)]))"

definition measured_texts :: "UkiExecutionPolicy \<Rightarrow> (nat \<times> str) list" where
  "measured_texts policy =
     (case ex_base policy of Embedded \<Rightarrow> [] | LoadOptions i txt \<Rightarrow> [(i, txt)]) @
     appended (ex_addons policy) @ appended (ex_smbios policy)"

definition join_line :: "str \<Rightarrow> str list \<Rightarrow> str" where
  "join_line base txts = foldl (\<lambda>line txt. (if line \<noteq> [] then line @ [32] else line) @ txt) base txts"

definition composed_line :: "VerifiedUki \<Rightarrow> UkiExecutionPolicy \<Rightarrow> str" where
  "composed_line uki policy =
     join_line (base_text uki policy) (map snd (appended (ex_addons policy) @ appended (ex_smbios policy)))"

definition texts_recorded ::
  "prims \<Rightarrow> VerifiedBootLog \<Rightarrow> u16 \<Rightarrow> exec_state \<Rightarrow> exec_state \<Rightarrow> (nat \<times> str) list \<Rightarrow> bool" where
  "texts_recorded P v a st st' txts \<longleftrightarrow>
     set (covered st') = set (covered st) \<union> fst ` set txts \<and>
     sorted_wrt (<) (last_index st # map fst txts) \<and> last_index st' = last (last_index st # map fst txts) \<and>
     (\<forall>(i, txt) \<in> set txts. verify_measured_bytes P v i a (utf16_z txt) = Inr () \<and> canonical txt = Inr ())"

lemma texts_recorded_Nil [simp]: "texts_recorded P v a st st []"
  by (simp add: texts_recorded_def)

lemma sorted_last_less:
  assumes "sorted_wrt (<) (x # xs)" and "last (x # xs) < (y :: nat)"
  shows "sorted_wrt (<) (x # xs @ [y])"
proof -
  have "z \<le> last (x # xs)" if "z \<in> set (x # xs)" for z
  proof -
    obtain ys w where ys: "x # xs = ys @ [w]" by (metis list.discI rev_exhaust)
    then have "\<forall>z \<in> set ys. z < w" using assms(1) by (auto simp: ys sorted_wrt_append)
    then show ?thesis using that unfolding ys by auto
  qed
  then have "\<forall>z \<in> set (x # xs). z < y" using assms(2) by (meson le_less_trans)
  then show ?thesis using assms(1) by (simp add: sorted_wrt_append)
qed

lemma texts_recorded_snoc:
  assumes "texts_recorded P v a st st' txts" and "record_text P v a st' i txt = Inr st''"
  shows "texts_recorded P v a st st'' (txts @ [(i, txt)])"
proof -
  note r = record_text_Inr [OF assms(2)]
  have "sorted_wrt (<) (last_index st # map fst txts @ [i])"
    using assms(1) r(3) by (intro sorted_last_less) (simp_all add: texts_recorded_def)
  then show ?thesis
    using assms(1) r(1,2,4) unfolding texts_recorded_def by simp
qed

lemma append_measured_Inr:
  assumes "append_measured P v a (st, line) (b, app) = Inr (st', line')" and "texts_recorded P v a st0 st txts"
  shows "texts_recorded P v a st0 st' (txts @ appended app)" and "line' = join_line line (map snd (appended app))"
  using assms unfolding append_measured_def
  by (auto simp: appended_def result_simps join_line_def split: option.splits if_splits intro: texts_recorded_snoc)

lemma join_line_append: "join_line base (xs @ ys) = join_line (join_line base xs) ys"
  by (simp add: join_line_def)

lemma verify_addons:
  "foldR (verify_addon P v a) st ads = Inr st' \<Longrightarrow>
   set (covered (as_exec st')) = set (covered (as_exec st)) \<union> am_event_index ` set ads \<and>
   (\<forall>ad \<in> set ads. \<exists>d. hex_decode P (am_expected_digest_hex ad) = Some d \<and>
      verify_expected_digest v (am_event_index ad) a d = Inr ())"
proof (induction ads arbitrary: st)
  case (Cons ad ads)
  then obtain mid where step: "verify_addon P v a st ad = Inr mid" and rest: "foldR (verify_addon P v a) mid ads = Inr st'"
    by (auto simp: result_simps)
  have "set (covered (as_exec mid)) = insert (am_event_index ad) (set (covered (as_exec st)))"
      "\<exists>d. hex_decode P (am_expected_digest_hex ad) = Some d \<and> verify_expected_digest v (am_event_index ad) a d = Inr ()"
    using step unfolding verify_addon_def Let_def by (auto simp: result_simps)
  then show ?case using Cons.IH [OF rest] by auto
qed simp

lemma cover_others:
  "foldR (cover_other P v a) cov others = Inr cov' \<Longrightarrow>
   set cov' = set cov \<union> fst ` set others \<and>
   (\<forall>(i, hex) \<in> set others. \<exists>d. hex_decode P hex = Some d \<and> verify_expected_digest v i a d = Inr ())"
proof (induction others arbitrary: cov)
  case (Cons x xs)
  obtain i hex where x: "x = (i, hex)" by (cases x)
  from Cons.prems obtain mid where step: "cover_other P v a cov x = Inr mid"
    and rest: "foldR (cover_other P v a) mid xs = Inr cov'"
    by (auto simp: result_simps)
  have "set mid = insert i (set cov)" "\<exists>d. hex_decode P hex = Some d \<and> verify_expected_digest v i a d = Inr ()"
    using step unfolding cover_other_def x by (auto simp: result_simps)
  then show ?case using Cons.IH [OF rest] by (auto simp: x)
qed simp

definition policy_indices :: "UkiExecutionPolicy \<Rightarrow> nat set" where
  "policy_indices policy =
     fst ` set (measured_texts policy) \<union> am_event_index ` set (binary_addons policy) \<union>
     fst ` set (other_config_events policy)"

lemma uncovered_iff:
  "uncovered v cov \<longleftrightarrow> (\<exists>i < length (log_events (vb_log v)).
     register_index (log_events (vb_log v) ! i) = config_register (log_kind (vb_log v)) \<and>
     reported_event_type (log_events (vb_log v) ! i) \<noteq> EV_NO_ACTION \<and> i \<notin> set cov)"
  by (auto simp: uncovered_def in_set_enumerate_eq)

lemma verify_uki_execution_Inr:
  assumes "verify_uki_execution P v uki policy = Inr r"
  shows "effective_command_line r = composed_line uki policy"
    and "composed_line uki policy = expected_effective_command_line policy"
    and "set (configuration_event_indices r) = section_indices v (vu_sections uki) \<union> policy_indices policy"
    and "\<not> uncovered v (configuration_event_indices r)"
    and "sorted_wrt (<) (Max (set (map data_event_index (vu_sections uki))) # map fst (measured_texts policy))"
    and "\<forall>(i, txt) \<in> set (measured_texts policy).
      verify_measured_bytes P v i (vu_algorithm uki) (utf16_z txt) = Inr () \<and> canonical txt = Inr ()"
    and "\<forall>i \<in> set (configuration_event_indices r). authenticated v (vu_algorithm uki) i"
proof -
  let ?a = "vu_algorithm uki" and ?max = "Max (set (map data_event_index (vu_sections uki)))"
  obtain u0 last_section cov base st line ads cov' dm where
    "execution_validate P policy ?a = Inr u0" and
    "\<not> vu_sections uki = []" and ls: "Inr ?max = (Inr last_section :: nat boot)" and
    secs: "foldR (bind_section P v ?a) [] (vu_sections uki) = Inr cov" and
    base: "(case ex_base policy of
               Embedded \<Rightarrow> Inr (\<lparr>covered = cov, last_index = last_section\<rparr>,
                 mangle (case embedded_command_line uki of None \<Rightarrow> [] | Some l \<Rightarrow> l))
             | LoadOptions index txt \<Rightarrow>
                 bindR (record_text P v ?a \<lparr>covered = cov, last_index = last_section\<rparr> index txt)
                   (\<lambda>st. Inr (st, txt))) = Inr base" and
    apps: "foldR (append_measured P v ?a) base [(False, ex_addons policy), (True, ex_smbios policy)] = Inr (st, line)" and
    ads: "foldR (verify_addon P v ?a) \<lparr>as_exec = st, as_stage = 0, as_addons = []\<rparr> (binary_addons policy) = Inr ads" and
    others: "foldR (cover_other P v ?a) (covered (as_exec ads)) (other_config_events policy) = Inr cov'" and
    cov': "\<not> uncovered v cov'" and line: "\<not> line \<noteq> expected_effective_command_line policy" and
    "(case ex_expected_verity_root policy of
               None \<Rightarrow> Inr None
             | Some root \<Rightarrow>
                 bindR (ok_or (hex_decode P root) (Uki ''invalid expected execution verity root'')) (\<lambda>root.
                 bindR (verify_dm_verity P \<lparr>mc_event_index = last_section, mc_algorithm = ?a,
                          mc_profile = SystemdUkiEmbedded, mc_command_line = line\<rparr> root) (\<lambda>d.
                 Inr (Some d)))) = Inr dm" and
    r: "Inr \<lparr>effective_command_line = line, configuration_event_indices = cov',
           ve_binary_addons = as_addons ads, ve_dm_verity = dm\<rparr> = (Inr r :: VerifiedUkiExecution boot)"
    using assms unfolding verify_uki_execution_def Let_def by - (elim result_elims, (rule that; assumption))
  let ?st0 = "\<lparr>covered = cov, last_index = last_section\<rparr>"
  have max: "last_section = ?max" using ls by simp
  obtain st1 where b: "texts_recorded P v ?a ?st0 st1
        (case ex_base policy of Embedded \<Rightarrow> [] | LoadOptions i txt \<Rightarrow> [(i, txt)])"
      and base': "base = (st1, base_text uki policy)"
    using base texts_recorded_snoc [OF texts_recorded_Nil, of P v ?a ?st0]
    by (auto simp: base_text_def result_simps split: UkiCommandLineBase.splits)
  obtain st2 line2 where s1: "append_measured P v ?a (st1, base_text uki policy) (False, ex_addons policy) = Inr (st2, line2)"
      and s2: "append_measured P v ?a (st2, line2) (True, ex_smbios policy) = Inr (st, line)"
    using apps by (auto simp: base' result_simps)
  note a1 = append_measured_Inr [OF s1 b]
  from a1(2) append_measured_Inr [OF s2 a1(1)]
  have rec: "texts_recorded P v ?a ?st0 st (measured_texts policy)"
    and line': "line = composed_line uki policy"
    by (simp_all add: measured_texts_def composed_line_def join_line_append)
  show "effective_command_line r = composed_line uki policy" using r line' by auto
  show "composed_line uki policy = expected_effective_command_line policy" using line line' by simp
  show idx: "set (configuration_event_indices r) = section_indices v (vu_sections uki) \<union> policy_indices policy"
    using r conjunct1 [OF bind_sections [OF secs]] rec conjunct1 [OF verify_addons [OF ads]]
      conjunct1 [OF cover_others [OF others]]
    by (auto simp only: texts_recorded_def policy_indices_def Un_assoc sum.inject
        VerifiedUkiExecution.simps exec_state.simps addon_state.simps list.set Un_empty_left)
  show "\<not> uncovered v (configuration_event_indices r)" using cov' r by auto
  show "sorted_wrt (<) (?max # map fst (measured_texts policy))"
    using rec max by (simp add: texts_recorded_def)
  show txts: "\<forall>(i, txt) \<in> set (measured_texts policy). verify_measured_bytes P v i ?a (utf16_z txt) = Inr () \<and> canonical txt = Inr ()"
    using rec by (simp add: texts_recorded_def)
  show "\<forall>i \<in> set (configuration_event_indices r). authenticated v ?a i"
    using txts conjunct2 [OF bind_sections [OF secs]] conjunct2 [OF verify_addons [OF ads]]
      conjunct2 [OF cover_others [OF others]]
    unfolding idx policy_indices_def section_indices_def event_indices_def
    by (auto split: if_splits) (blast intro: authenticatedI)+
qed

section \<open>No panic in the appraisal\<close>

lemma panic_free_lookups [no_error_intros]:
  "panic_free (authenticated_digest v i a)" "panic_free (verify_measured_bytes P v i a bs)"
  "panic_free (verify_expected_digest v i a d)" "panic_free (event_at v i)"
  unfolding authenticated_digest_def verify_measured_bytes_def verify_expected_digest_def event_at_def Let_def
  by (intro no_error_intros; simp)+

lemma panic_free_dm_verity [no_error_intros]: "panic_free (verify_dm_verity P m root)"
proof -
  have "panic_free (roothash_tokens P r ts)" for r ts
    by (induction P r ts rule: roothash_tokens.induct) (auto split: option.splits intro!: no_error_intros)
  then show ?thesis
    unfolding verify_dm_verity_def by (intro no_error_intros) (simp_all only: not_panic)
qed

lemma panic_free_texts [no_error_intros]: "panic_free (canonical txt)" "panic_free (append_text a)"
proof -
  show c: "panic_free (canonical t)" for t
    unfolding canonical_def by (intro no_error_intros) (simp_all only: not_panic)
  have "panic_free (append_fragment out t)" for out t
    unfolding append_fragment_def Let_def by (intro no_error_intros) (simp_all only: not_panic)
  then show "panic_free (append_text a)"
    unfolding append_text_def Let_def
    by (intro no_error_intros never_fails_foldR c) (simp_all only: not_panic)
qed

lemma panic_free_selection_validate [no_error_intros]: "panic_free (selection_validate p)"
  unfolding selection_validate_def by (intro no_error_intros never_fails_foldR) (simp_all only: not_panic)

lemma panic_free_execution_validate [no_error_intros]: "panic_free (execution_validate P policy a)"
proof -
  have "panic_free (case ex_base policy of Embedded \<Rightarrow> Inr () | LoadOptions _ txt \<Rightarrow> canonical txt)"
    by (cases "ex_base policy") (auto intro!: no_error_intros)
  then show ?thesis
    unfolding execution_validate_def Let_def
    by (intro no_error_intros never_fails_foldR) (simp_all only: not_panic)
qed

lemma panic_free_policy_validate [no_error_intros]: "panic_free (uki_policy_validate P policy)"
  unfolding uki_policy_validate_def Let_def by (intro no_error_intros) (simp_all only: not_panic)

lemma panic_free_record_text [no_error_intros]: "panic_free (record_text P v a st i txt)"
  unfolding record_text_def by (intro no_error_intros) (simp_all only: not_panic)

lemma panic_free_append_measured [no_error_intros]: "panic_free (append_measured P v a sl ba)"
  by (cases sl; cases ba) (auto simp: append_measured_def split: option.splits intro!: no_error_intros)

lemma panic_free_verify_addon [no_error_intros]: "panic_free (verify_addon P v a st ad)"
  unfolding verify_addon_def Let_def by (intro no_error_intros) (simp_all only: not_panic)

lemma panic_free_cover_other [no_error_intros]: "panic_free (cover_other P v a cov x)"
  unfolding cover_other_def by (intro no_error_intros) (simp_all only: not_panic)

lemma panic_free_bind_section [no_error_intros]: "panic_free (bind_section P v a cov s)"
  unfolding bind_section_def by (intro no_error_intros) (simp_all only: not_panic)

lemma panic_free_verify_uki_execution [no_error_intros]: "panic_free (verify_uki_execution P v uki policy)"
proof -
  have "panic_free (case ex_base policy of Embedded \<Rightarrow> Inr (st, l)
      | LoadOptions index txt \<Rightarrow> bindR (record_text P v a st index txt) (\<lambda>st. Inr (st, txt)))" for st l a
    by (cases "ex_base policy") (auto intro!: no_error_intros)
  then show ?thesis
    unfolding verify_uki_execution_def Let_def
    by (intro no_error_intros never_fails_foldR) (simp_all only: not_panic)
qed

lemma panic_free_verify_section:
  assumes "uki_wf u" "s \<in> set (uki_sections u)" "bt_get (expected_sections policy) (pe_name s) \<noteq> None"
  shows "panic_free (verify_section P v u policy n st s)"
proof (cases st)
  case (Pair stream secs)
  consider "stream = []" | x where "stream = [x]" | ni ne di de rest where "stream = (ni, ne) # (di, de) # rest"
    by (metis list.exhaust surj_pair)
  then show ?thesis
    using assms(3)
    by cases (auto simp: Pair verify_section_def section_digest_loaded [OF assms(1,2)] split: prod.splits
        intro!: no_error_intros)
qed

lemma panic_free_verify_uki: "panic_free (verify_uki P v bs policy)"
proof -
  have wf: "uki_wf u" if "parse_uki bs = Inr u" for u
    using that parse_pe_wf(1) unfolding parse_uki_def by blast
  have chosen: "s \<in> set (uki_sections u)" if "selected u p = Inr chosen" "bt_get chosen name = Some s" for u p chosen name s
    using that selected_overlay(1) [OF that(1)] overlay_SomeD(1) by metis
  have stxt: "panic_free (selected_text u chosen name)" if "parse_uki bs = Inr u" "selected u p = Inr chosen" for u p chosen name
    unfolding selected_text_def
    by (intro no_error_intros) (rule panic_free_section_text [OF wf [OF that(1)]], rule chosen [OF that(2)])
  have measured: "s \<in> set (uki_sections u)" if "selected u p = Inr chosen" "s \<in> set (measured_sections chosen)" for u p chosen s
    using that chosen [OF that(1)] by (auto simp: measured_sections_def List.map_filter_def)
  have approved: "f s \<noteq> None" if "\<not> (b \<or> (\<exists>s \<in> S. f s = None))" "s \<in> S" for b S s and f :: "UnverifiedPeSection \<Rightarrow> str option"
    using that by auto
  have parse: "panic_free (parse_uki bs)" unfolding parse_uki_def by (rule no_error_intros)
  have further: "panic_free (no_further_section P v a stream)" for a stream
    unfolding no_further_section_def
    by (cases stream) (auto intro!: no_error_intros never_fails_foldR)
  have dm: "panic_free (uki_dm_verity P policy secs c)" for secs c
    unfolding uki_dm_verity_def by (intro no_error_intros) (simp_all only: not_panic)
  have number: "panic_free (verify_uki_profile_number P v s a n)" for s a n
    unfolding verify_uki_profile_number_def Let_def by (intro no_error_intros) (simp_all only: not_panic)
  show ?thesis
    unfolding verify_uki_def Let_def
    by (intro no_error_intros parse further dm number panic_free_selected [OF wf] never_fails_foldR
        panic_free_verify_section [OF wf])
      (assumption | rule measured stxt, assumption+ | erule (1) approved | simp only: not_panic)+
qed

section \<open>What the appraisal reports\<close>

definition section_report ::
  "prims \<Rightarrow> VerifiedBootLog \<Rightarrow> UkiPolicy \<Rightarrow> UnverifiedUki \<Rightarrow> chosen \<Rightarrow> VerifiedUkiSection \<Rightarrow> bool" where
  "section_report P v policy u chosen vs \<longleftrightarrow> (\<exists>s digest hex.
     bt_get chosen (vs_name vs) = Some s \<and> measured_size vs = virtual_size s \<and>
     hash P (up_algorithm policy) (loaded_section u s) = Inr digest \<and>
     authenticated_digest v (data_event_index vs) (up_algorithm policy) = Inr digest \<and>
     verify_measured_bytes P v (name_event_index vs) (up_algorithm policy) (vs_name vs @ [0]) = Inr () \<and>
     bt_get (expected_sections policy) (vs_name vs) = Some hex \<and> hex_decode P hex = Some digest)"

lemma section_verified_report:
  assumes "uki_wf u" and "selected u p = Inr chosen" and "s \<in> set (measured_sections chosen)"
    and "section_verified P v u policy s vs"
  shows "section_report P v policy u chosen vs"
proof -
  obtain name where name: "bt_get chosen name = Some s"
    using assms(3) by (auto simp: measured_sections_def List.map_filter_def)
  then have s: "s \<in> set (uki_sections u)" "pe_name s = name"
    using selected_overlay(1) [OF assms(2)] overlay_SomeD by metis+
  then show ?thesis
    using name assms(4) unfolding section_verified_def section_report_def
    by (auto simp: section_digest_loaded [OF assms(1) s(1)] verify_expected_digest_Inr_iff)
qed

lemma verify_uki_reports:
  assumes "verify_uki P v bs policy = Inr r"
  obtains u chosen where "parse_uki bs = Inr u" "selected u (up_selection policy) = Inr chosen"
    "map vs_name (vu_sections r) = filter (\<lambda>n. bt_get chosen n \<noteq> None) MEASURED_SECTIONS"
    "\<forall>vs \<in> set (vu_sections r). section_report P v policy u chosen vs"
    "sorted_wrt (<) (event_indices (vu_sections r))"
    "name_event_index (hd (vu_sections r)) = first_section_event policy"
proof -
  from verify_uki_sections [OF assms] obtain u chosen where
    f: "parse_uki bs = Inr u" "selected u (up_selection policy) = Inr chosen"
      "list_all2 (section_verified P v u policy) (measured_sections chosen) (vu_sections r)"
      "sorted_wrt (<) (event_indices (vu_sections r))"
      "name_event_index (hd (vu_sections r)) = first_section_event policy"
    by metis
  have wf: "uki_wf u" using f(1) parse_pe_wf(1) unfolding parse_uki_def by blast
  have "map pe_name (measured_sections chosen) = map vs_name (vu_sections r)"
    using f(3) by (auto simp: list_all2_conv_all_nth section_verified_def intro: nth_equalityI)
  moreover have "map pe_name (measured_sections chosen) = filter (\<lambda>n. bt_get chosen n \<noteq> None) MEASURED_SECTIONS"
    using selected_overlay(1) [OF f(2)] overlay_SomeD(2) by (intro measured_names) metis
  moreover have "section_report P v policy u chosen vs" if vs: "vs \<in> set (vu_sections r)" for vs
  proof -
    obtain s where "s \<in> set (measured_sections chosen)" "section_verified P v u policy s vs"
      using f(3) vs by (metis in_set_conv_nth list_all2_conv_all_nth)
    then show ?thesis by (rule section_verified_report [OF wf f(2)])
  qed
  ultimately show ?thesis using that f by simp
qed

section \<open>A concrete appraisal\<close>

abbreviation demo_u :: UnverifiedUki where
  "demo_u \<equiv> \<lparr>uki_bytes = demo_uki_bytes, uki_sections = [demo_linux]\<rparr>"

definition demo_uki_event :: "u32 \<Rightarrow> bytes \<Rightarrow> Event" where
  "demo_uki_event register digest = \<lparr>ev_offset = 0, register_index = register, reported_event_type = EV_IPL,
     digests = [(TPM_ALG_SHA384, digest)], untrusted_event_data = []\<rparr>"

definition demo_uki_log :: VerifiedBootLog where
  "demo_uki_log = \<lparr>vb_log = \<lparr>log_kind = Tpm2, log_algorithms = [(TPM_ALG_SHA384, 48)],
     log_events = [demo_uki_event 11 (demo_digest 48 (lit ''.linux'' @ [0])),
                   demo_uki_event 11 (replicate 48 0),
                   demo_uki_event 12 (demo_digest 48 (utf16_z (lit ''ro'')))],
     consumed_bytes = 0\<rparr>, vb_covered = [(TPM_ALG_SHA384, 11), (TPM_ALG_SHA384, 12)]\<rparr>"

definition demo_execution :: UkiExecutionPolicy where
  "demo_execution = \<lparr>ex_base = LoadOptions 2 (lit ''ro''), ex_addons = None, ex_smbios = None, binary_addons = [],
     expected_effective_command_line = lit ''ro'', ex_expected_verity_root = None, other_config_events = []\<rparr>"

definition demo_uki_policy :: UkiPolicy where
  "demo_uki_policy = \<lparr>up_selection = None, up_execution = Some demo_execution, up_profile = SystemdStubV258,
     first_section_event = 0, up_algorithm = TPM_ALG_SHA384,
     expected_sections = [(lit ''.linux'', replicate 96 48)], expected_command_line = None, expected_verity_root = None\<rparr>"

definition demo_verified_section :: VerifiedUkiSection where
  "demo_verified_section = \<lparr>vs_name = lit ''.linux'', name_event_index = 0, data_event_index = 1,
     measured_size = 600, vs_digest_hex = hex_encode demo_prims (replicate 48 0)\<rparr>"

definition demo_verified_uki :: VerifiedUki where
  "demo_verified_uki = \<lparr>vu_profile = SystemdStubV258, vu_algorithm = TPM_ALG_SHA384,
     vu_sections = [demo_verified_section], embedded_command_line = None, os_release = None, kernel_release = None,
     vu_dm_verity = None, authenticated_profile_index = None, vu_execution = None\<rparr>"

definition demo_verified_execution :: VerifiedUkiExecution where
  "demo_verified_execution = \<lparr>effective_command_line = lit ''ro'', configuration_event_indices = [2],
     ve_binary_addons = [], ve_dm_verity = None\<rparr>"

lemma demo_execution_verifies:
  "verify_uki_execution demo_prims demo_uki_log demo_verified_uki demo_execution = Inr demo_verified_execution"
  by code_simp

lemma demo_section_digest: "section_digest demo_prims demo_u demo_linux TPM_ALG_SHA384 = Inr (replicate 48 0)"
proof -
  have "uki_wf demo_u" using parse_pe_wf(1) demo_uki_parses unfolding parse_uki_def by blast
  then have "section_digest demo_prims demo_u demo_linux TPM_ALG_SHA384 =
      hash demo_prims TPM_ALG_SHA384 (loaded_section demo_u demo_linux)"
    by (intro section_digest_loaded) simp_all
  also have "\<dots> = Inr (replicate 48 0)"
    by (simp add: loaded_section_def Let_def demo_linux_def demo_prims_def demo_digest_def)
  finally show ?thesis .
qed

lemma demo_measurements:
  "verify_measured_bytes demo_prims demo_uki_log 0 TPM_ALG_SHA384 (lit ''.linux'' @ [0]) = Inr ()"
  "verify_expected_digest demo_uki_log 1 TPM_ALG_SHA384 (replicate 48 0) = Inr ()"
  "hex_decode demo_prims (replicate 96 48) = Some (replicate 48 0)"
  "uki_stream demo_uki_log 0 = [(0, demo_uki_event 11 (demo_digest 48 (lit ''.linux'' @ [0]))),
     (1, demo_uki_event 11 (replicate 48 0))]"
  by code_simp+

lemma demo_policy_valid: "uki_policy_validate demo_prims demo_uki_policy = Inr ()"
  by code_simp

lemma demo_linux_simps [simp]: "pe_name demo_linux = lit ''.linux''" "virtual_size demo_linux = 600"
  by (simp_all only: demo_linux_def UnverifiedPeSection.simps)

lemma demo_policy_simps [simp]:
  "up_selection demo_uki_policy = None" "up_execution demo_uki_policy = Some demo_execution"
  "up_profile demo_uki_policy = SystemdStubV258" "first_section_event demo_uki_policy = 0"
  "up_algorithm demo_uki_policy = TPM_ALG_SHA384" "expected_sections demo_uki_policy = [(lit ''.linux'', replicate 96 48)]"
  "expected_command_line demo_uki_policy = None" "expected_verity_root demo_uki_policy = None"
  by (simp_all only: demo_uki_policy_def UkiPolicy.simps)

lemma demo_verify_section:
  "verify_section demo_prims demo_uki_log demo_u demo_uki_policy 48 (uki_stream demo_uki_log 0, []) demo_linux =
   Inr ([], [demo_verified_section])"
  unfolding verify_section_def demo_measurements(4)
  by (simp add: demo_measurements demo_uki_event_def demo_section_digest demo_verified_section_def ok_or_def
      del: list.map One_nat_def append_Cons append_Nil)

lemma demo_verify_uki:
  "verify_uki demo_prims demo_uki_log demo_uki_bytes demo_uki_policy =
   Inr (demo_verified_uki\<lparr>vu_execution := Some demo_verified_execution\<rparr>)"
proof -
  have m: "measured_sections [(lit ''.linux'', demo_linux)] = [demo_linux]"
    by (simp add: measured_sections_def MEASURED_SECTIONS_def List.map_filter_def)
  have t: "selected_text demo_u [(lit ''.linux'', demo_linux)] (lit name) = Inr None"
    if "lit name \<noteq> lit ''.linux''" for name
    using that unfolding selected_text_def map_of.simps fst_conv snd_conv by (simp only: fun_upd_apply if_False option.case)
  have h: "hash demo_prims TPM_ALG_SHA384 [] = Inr (demo_digest 48 [])"
    by (simp add: demo_prims_def)
  have d: "lit ''.cmdline'' \<noteq> lit ''.linux''" "lit ''.osrel'' \<noteq> lit ''.linux''" "lit ''.uname'' \<noteq> lit ''.linux''"
    by simp_all
  have e: "\<lparr>vu_profile = SystemdStubV258, vu_algorithm = TPM_ALG_SHA384, vu_sections = [demo_verified_section],
      embedded_command_line = None, os_release = None, kernel_release = None, vu_dm_verity = None,
      authenticated_profile_index = None, vu_execution = None\<rparr> = demo_verified_uki"
    by (simp only: demo_verified_uki_def)
  show ?thesis
    unfolding verify_uki_def demo_policy_valid demo_uki_parses demo_selected m h
    by (simp add: m h demo_selected demo_verify_section no_further_section_def t [OF d(1)] t [OF d(2)] t [OF d(3)]
        uki_dm_verity_def e demo_execution_verifies del: list.map) (simp add: demo_verified_uki_def)
qed

section \<open>Properties\<close>

text \<open>C16. Every section that an appraised image reports is a section that the selection chose from the
  parsed file, listed in the stub's order: a quoted register commits to its name and to its content as
  loaded, and the independent policy approves that digest. The measurements stand in ascending order in their
  register from the event the policy names, and the policy approves exactly these sections and no other.
  The appraisal never panics.\<close>

theorem verify_uki_sound:
  assumes "verify_uki P v bs policy = Inr r" and "bt_invar (expected_sections policy)"
  shows "panic_free (verify_uki P v bs' policy') \<and>
    set (bt_keys (expected_sections policy)) = set (map vs_name (vu_sections r)) \<and>
    sorted_wrt (<) (event_indices (vu_sections r)) \<and>
    name_event_index (hd (vu_sections r)) = first_section_event policy \<and>
    (\<exists>u chosen. parse_uki bs = Inr u \<and> selected u (up_selection policy) = Inr chosen \<and>
      map vs_name (vu_sections r) = filter (\<lambda>n. bt_get chosen n \<noteq> None) MEASURED_SECTIONS \<and>
      (\<forall>vs \<in> set (vu_sections r). section_report P v policy u chosen vs))"
  using verify_uki_reports [OF assms(1)] verify_uki_names(1) [OF assms] panic_free_verify_uki by metis

theorem verify_uki_sound_witness:
  "set (bt_keys (expected_sections demo_uki_policy)) = {lit ''.linux''} \<and>
   (\<exists>u chosen. parse_uki demo_uki_bytes = Inr u \<and>
      section_report demo_prims demo_uki_log demo_uki_policy u chosen demo_verified_section)"
proof -
  have "bt_invar (expected_sections demo_uki_policy)" by (simp add: bt_invar_def)
  from verify_uki_sound [OF demo_verify_uki this, of demo_uki_bytes demo_uki_policy] show ?thesis
    by (auto simp add: demo_verified_uki_def demo_verified_section_def)
qed

text \<open>C17. An accepted execution accounts for the whole configuration register: every event of it that is
  extended is one that the policy names (or, on TDX, a section measurement), and all of them are
  authenticated. The command line is the approved one, and it is composed from texts whose UTF-16
  preimages are measured in ascending order after the sections.\<close>

theorem verify_uki_execution_sound:
  assumes "verify_uki_execution P v uki policy = Inr r"
  shows "effective_command_line r = composed_line uki policy \<and>
    composed_line uki policy = expected_effective_command_line policy \<and>
    set (configuration_event_indices r) = section_indices v (vu_sections uki) \<union> policy_indices policy \<and>
    (\<forall>i < length (log_events (vb_log v)).
      register_index (log_events (vb_log v) ! i) = config_register (log_kind (vb_log v)) \<and>
      reported_event_type (log_events (vb_log v) ! i) \<noteq> EV_NO_ACTION \<longrightarrow> i \<in> set (configuration_event_indices r)) \<and>
    (\<forall>i \<in> set (configuration_event_indices r). authenticated v (vu_algorithm uki) i) \<and>
    sorted_wrt (<) (Max (set (map data_event_index (vu_sections uki))) # map fst (measured_texts policy)) \<and>
    (\<forall>(i, txt) \<in> set (measured_texts policy).
      verify_measured_bytes P v i (vu_algorithm uki) (utf16_z txt) = Inr ())"
  using verify_uki_execution_Inr [OF assms] unfolding uncovered_iff by blast

theorem verify_uki_execution_sound_witness:
  "composed_line demo_verified_uki demo_execution = lit ''ro'' \<and> authenticated demo_uki_log TPM_ALG_SHA384 2"
  using verify_uki_execution_sound [OF demo_execution_verifies]
  by (simp add: demo_execution_def demo_verified_execution_def demo_verified_uki_def)

end
