(* ===== verification/Closure.thy ===== *)
theory Closure
  imports UQ_Prims
begin

text \<open>
  The identity of an immutable system closure (\<open>v2/src/boot/closure.rs\<close>): path checks, the traversal
  that follows no symbolic link, the streamed content digest with its change detection, and the
  Merkle root over the measured files. \<open>openat\<close>, \<open>fstat\<close> and \<open>read\<close> are parameters. The lemmas show
  that the loops terminate, what a manifest contains, and that its root commits to the whole
  list of files as long as the hash does not collide on the values hashed.
\<close>

datatype ClosureError =
    Io string
  | InvalidPath str
  | Limit string
  | FileChanged str
  | RootMismatch
  | UnsupportedPlatform

record ClosureLimits =
  max_files :: nat
  max_file_bytes :: u64
  max_total_bytes :: u64

definition closure_default_limits :: ClosureLimits where
  "closure_default_limits = \<lparr>max_files = 100000, max_file_bytes = 8 * 1024 * 1024 * 1024,
     max_total_bytes = 64 * 1024 * 1024 * 1024\<rparr>"

record ClosureEntry =
  relative_path :: str
  entry_length :: u64
  mode :: u32
  content_sha384 :: str

record ClosureManifest =
  format :: str
  cm_files :: "ClosureEntry list"
  root_sha384 :: str

definition verify_expected_root :: "prims \<Rightarrow> ClosureManifest \<Rightarrow> bytes \<Rightarrow> ClosureError + unit" where
  "verify_expected_root P m expected =
     (if root_sha384 m \<noteq> hex_encode P expected then Inl RootMismatch else Inr ())"

section \<open>Paths and traversal\<close>

text \<open>\<open>Path::components\<close> on Unix.\<close>

datatype Component = RootDir | CurDir | ParentDir | Normal str

definition component_of :: "str \<Rightarrow> Component" where
  "component_of p = (if p = lit ''..'' then ParentDir else Normal p)"

definition path_components :: "str \<Rightarrow> Component list" where
  "path_components path =
     (let parts = split_on 47 path;
          skip = filter (\<lambda>p. p \<noteq> [] \<and> p \<noteq> lit ''.'') in
      if path = [] then []
      else if hd path = 47 then RootDir # map component_of (skip parts)
      else if hd parts = lit ''.'' then CurDir # map component_of (skip parts)
      else map component_of (skip parts))"

definition is_normal :: "Component \<Rightarrow> bool" where
  "is_normal c = (case c of Normal _ \<Rightarrow> True | _ \<Rightarrow> False)"

definition valid_name :: "str \<Rightarrow> bool" where
  "valid_name txt \<longleftrightarrow>
     txt \<noteq> [] \<and> length txt \<le> 4096 \<and> 0 \<notin> set txt \<and> 92 \<notin> set txt \<and>
     (\<forall>p \<in> set (split_on 47 txt). p \<noteq> [] \<and> p \<noteq> lit ''.'' \<and> p \<noteq> lit ''..'') \<and>
     (\<forall>c \<in> set (path_components txt). is_normal c)"

definition collect_names :: "bytes list \<Rightarrow> ClosureError + str list" where
  "collect_names files =
     foldR (\<lambda>names path.
         bindR (ok_or (from_utf8 path) (InvalidPath (lit ''non-UTF-8 path''))) (\<lambda>txt.
         if \<not> valid_name txt then Inl (InvalidPath txt)
         else if txt \<in> set names then Inl (InvalidPath (lit ''duplicate '' @ txt))
         else Inr (bts_insert txt names))) [] files"

text \<open>The operating system: \<open>dup\<close> of a handle, \<open>openat\<close> of a child (the flag asks for a directory) with
  \<open>O_NOFOLLOW\<close>, the base directory, the metadata before and after the reads, and the bytes of the
  \<open>k\<close>-th read (none at the end of the file).\<close>

record metadata =
  is_file :: bool
  md_len :: u64
  md_mode :: u32
  md_stamp :: "nat list"

record 'h closure_os =
  open_base :: "bool \<Rightarrow> ClosureError + 'h"
  try_clone :: "'h \<Rightarrow> ClosureError + 'h"
  openat :: "'h \<Rightarrow> str \<Rightarrow> bool \<Rightarrow> ClosureError + 'h"
  metadata_before :: "'h \<Rightarrow> ClosureError + metadata"
  metadata_after :: "'h \<Rightarrow> ClosureError + metadata"
  read_chunk :: "'h \<Rightarrow> nat \<Rightarrow> ClosureError + bytes"

definition open_child :: "'h closure_os \<Rightarrow> 'h \<Rightarrow> str \<Rightarrow> bool \<Rightarrow> ClosureError + 'h" where
  "open_child os parent name directory =
     (if 0 \<in> set name then Inl (InvalidPath (lit ''embedded NUL'')) else openat os parent name directory)"

definition open_root :: "'h closure_os \<Rightarrow> str \<Rightarrow> ClosureError + 'h" where
  "open_root os root =
     bindR (open_base os (root \<noteq> [] \<and> hd root = 47)) (\<lambda>base.
     foldR (\<lambda>current c. case c of
         RootDir \<Rightarrow> Inr current
       | CurDir \<Rightarrow> Inr current
       | Normal name \<Rightarrow> open_child os current name True
       | ParentDir \<Rightarrow> Inl (InvalidPath root)) base (path_components root))"

definition open_beneath :: "'h closure_os \<Rightarrow> 'h \<Rightarrow> str \<Rightarrow> ClosureError + 'h" where
  "open_beneath os root path =
     bindR (try_clone os root) (\<lambda>base.
     let components = path_components path in
     foldR (\<lambda>parent (index, c). case c of
         Normal name \<Rightarrow> open_child os parent name (index + 1 \<noteq> length components)
       | _ \<Rightarrow> Inl (InvalidPath path)) base (enumerate 0 components))"

section \<open>Measuring a file\<close>

definition file_mode :: "metadata \<Rightarrow> u32" where
  "file_mode m = take_bit 12 (md_mode m)"

definition same_metadata :: "metadata \<Rightarrow> metadata \<Rightarrow> bool" where
  "same_metadata a b \<longleftrightarrow> md_len a = md_len b \<and> md_mode a = md_mode b \<and> md_stamp a = md_stamp b"

text \<open>The read loop: at most \<open>len\<close> bytes are fed to the hasher, and every turn feeds at least one.\<close>

function read_loop :: "(nat \<Rightarrow> ClosureError + bytes) \<Rightarrow> str \<Rightarrow> u64 \<Rightarrow> nat \<Rightarrow> u64 \<Rightarrow> bytes \<Rightarrow> ClosureError + u64 \<times> bytes" where
  "read_loop reads name len k nread fed =
     (case reads k of
        Inl e \<Rightarrow> Inl e
      | Inr chunk \<Rightarrow>
          if chunk = [] then Inr (nread, fed)
          else (case checked_add nread (of_nat (min (length chunk) 65536)) of
              None \<Rightarrow> Inl (Limit ''file bytes'')
            | Some nread' \<Rightarrow>
                if nread' > len then Inl (FileChanged name)
                else read_loop reads name len (Suc k) nread' (fed @ take 65536 chunk)))"
  by auto
termination
proof (relation "measure (\<lambda>(reads, name, len, k, nread, fed). unat len - unat nread)", goal_cases)
  case (2 reads name len k nread fed chunk nread')
  have "unat nread' = unat nread + unat (of_nat (min (length chunk) 65536) :: u64)"
    using 2(3) by (rule unat_checked_add)
  moreover have "unat (of_nat (min (length chunk) 65536) :: u64) = min (length chunk) 65536"
    by (rule unat_of_nat_small) simp
  moreover have "unat nread' \<le> unat len" using 2(4) by (simp add: word_le_nat_alt not_less)
  moreover have "0 < min (length chunk) 65536" using 2(2) by simp
  ultimately show ?case by (simp del: min_less_iff_conj)
qed simp

declare read_loop.simps [simp del]

definition leaf_preimage :: "str \<Rightarrow> u32 \<Rightarrow> u64 \<Rightarrow> bytes \<Rightarrow> bytes" where
  "leaf_preimage name md len content_hash =
     lit ''uq-system-closure-v1'' @ [0] @ lit ''leaf'' @ [0] @ be_bytes 4 (length name) @ name @
     be_bytes 4 (unat md) @ be_bytes 8 (unat len) @ content_hash"

record closure_state =
  cs_total :: u64
  cs_entries :: "ClosureEntry list"
  cs_leaves :: "bytes list"

definition measure_file ::
  "prims \<Rightarrow> 'h closure_os \<Rightarrow> ClosureLimits \<Rightarrow> 'h \<Rightarrow> closure_state \<Rightarrow> str \<Rightarrow> ClosureError + closure_state" where
  "measure_file P os limits root st name =
     bindR (open_beneath os root name) (\<lambda>file.
     bindR (metadata_before os file) (\<lambda>before.
     if \<not> is_file before then Inl (InvalidPath (lit ''nonregular file '' @ name))
     else if md_len before > max_file_bytes limits then Inl (Limit ''file bytes'')
     else bindR (ok_or (checked_add (cs_total st) (md_len before)) (Limit ''total bytes'')) (\<lambda>total.
     if total > max_total_bytes limits then Inl (Limit ''total bytes'')
     else bindR (read_loop (read_chunk os file) name (md_len before) 0 0 []) (\<lambda>(nread, content).
     bindR (metadata_after os file) (\<lambda>after.
     if nread \<noteq> md_len before \<or> \<not> same_metadata before after then Inl (FileChanged name)
     else let content_hash = sha384 P content; md = file_mode before in
     Inr \<lparr>cs_total = total,
          cs_entries = cs_entries st @ [\<lparr>relative_path = name, entry_length = nread, mode = md,
             content_sha384 = hex_encode P content_hash\<rparr>],
          cs_leaves = cs_leaves st @ [sha384 P (leaf_preimage name md nread content_hash)]\<rparr>)))))"

section \<open>The Merkle root\<close>

definition branch_preimage :: "bytes list \<Rightarrow> bytes" where
  "branch_preimage vs = lit ''uq-system-closure-v1'' @ [0] @ lit ''branch'' @ [0] @ [of_nat (length vs)] @ concat vs"

fun chunks2 :: "'a list \<Rightarrow> 'a list list" where
  "chunks2 [] = []"
| "chunks2 [x] = [[x]]"
| "chunks2 (x # y # xs) = [x, y] # chunks2 xs"

lemma length_chunks2: "length (chunks2 xs) = (length xs + 1) div 2"
  by (induction xs rule: chunks2.induct) auto

function merkle :: "prims \<Rightarrow> bytes list \<Rightarrow> bytes list" where
  "merkle P leaves =
     (if length leaves > 1 then merkle P (map (\<lambda>pair. sha384 P (branch_preimage pair)) (chunks2 leaves)) else leaves)"
  by auto
termination
  by (relation "measure (\<lambda>(P, leaves). length leaves)") (auto simp: length_chunks2)

declare merkle.simps [simp del]

definition root_preimage :: "nat \<Rightarrow> bytes \<Rightarrow> bytes" where
  "root_preimage n peak = lit ''uq-system-closure-v1'' @ [0] @ lit ''root'' @ [0] @ be_bytes 8 n @ peak"

definition measure_closure ::
  "prims \<Rightarrow> 'h closure_os \<Rightarrow> str \<Rightarrow> bytes list \<Rightarrow> ClosureLimits \<Rightarrow> ClosureError + ClosureManifest" where
  "measure_closure P os root files limits =
     (if files = [] \<or> length files > max_files limits then Inl (Limit ''file count'')
      else bindR (collect_names files) (\<lambda>names.
      bindR (open_root os root) (\<lambda>root.
      bindR (foldR (measure_file P os limits root) \<lparr>cs_total = 0, cs_entries = [], cs_leaves = []\<rparr> names) (\<lambda>st.
      let root_hash = sha384 P (root_preimage (length (cs_entries st)) (hd (merkle P (cs_leaves st)))) in
      Inr \<lparr>format = lit ''uq-system-closure-v1'', cm_files = cs_entries st, root_sha384 = hex_encode P root_hash\<rparr>))))"

section \<open>What is measured\<close>

lemma collect_names_aux:
  "foldR (\<lambda>names path.
       bindR (ok_or (from_utf8 path) (InvalidPath (lit ''non-UTF-8 path''))) (\<lambda>txt.
       if \<not> valid_name txt then Inl (InvalidPath txt)
       else if txt \<in> set names then Inl (InvalidPath (lit ''duplicate '' @ txt))
       else Inr (bts_insert txt names))) acc files = Inr names \<Longrightarrow>
   sorted_wrt (<) acc \<Longrightarrow>
   sorted_wrt (<) names \<and> set names = set acc \<union> set files \<and> (\<forall>f \<in> set files. valid_name f) \<and>
   distinct files \<and> set files \<inter> set acc = {}"
proof (induction files arbitrary: acc)
  case (Cons f files)
  then have step: "from_utf8 f = Some f" "valid_name f" "f \<notin> set acc" and
    rest: "foldR (\<lambda>names path.
       bindR (ok_or (from_utf8 path) (InvalidPath (lit ''non-UTF-8 path''))) (\<lambda>txt.
       if \<not> valid_name txt then Inl (InvalidPath txt)
       else if txt \<in> set names then Inl (InvalidPath (lit ''duplicate '' @ txt))
       else Inr (bts_insert txt names))) (bts_insert f acc) files = Inr names"
    by (auto simp: result_simps from_utf8_Some_iff simp del: list.map)
  show ?case
    using Cons.IH [OF rest sorted_bts_insert [OF Cons.prems(2)]] step by auto
qed simp

lemma collect_names_Inr:
  assumes "collect_names files = Inr names"
  shows "sorted_wrt (<) names" "set names = set files" "\<forall>f \<in> set files. valid_name f" "distinct files"
  using collect_names_aux [OF assms [unfolded collect_names_def]] by simp_all

text \<open>The content of a file is what the reads return up to the first empty one.\<close>

definition reads_content :: "(nat \<Rightarrow> ClosureError + bytes) \<Rightarrow> nat \<Rightarrow> bytes \<Rightarrow> bool" where
  "reads_content reads k content \<longleftrightarrow> (\<exists>n chunks. length chunks = n \<and> reads (k + n) = Inr [] \<and>
     (\<forall>i < n. reads (k + i) = Inr (chunks ! i) \<and> chunks ! i \<noteq> []) \<and>
     content = concat (map (take 65536) chunks))"

lemma reads_content_Nil: "reads k = Inr [] \<Longrightarrow> reads_content reads k []"
  unfolding reads_content_def by (rule exI [of _ 0]) simp

lemma reads_content_Cons:
  assumes "reads k = Inr c" "c \<noteq> []" "reads_content reads (Suc k) content"
  shows "reads_content reads k (take 65536 c @ content)"
proof -
  obtain chunks where ch: "reads (Suc k + length chunks) = Inr []"
      "\<forall>i < length chunks. reads (Suc k + i) = Inr (chunks ! i) \<and> chunks ! i \<noteq> []"
      "content = concat (map (take 65536) chunks)"
    using assms(3) by (auto simp: reads_content_def)
  have "\<forall>i < Suc (length chunks). reads (k + i) = Inr ((c # chunks) ! i) \<and> (c # chunks) ! i \<noteq> []"
    using assms(1,2) ch(2) by (auto simp: less_Suc_eq_0_disj)
  then show ?thesis
    unfolding reads_content_def
    by (intro exI [of _ "Suc (length chunks)"] exI [of _ "c # chunks"]) (use ch in simp)
qed

lemma read_loop_content:
  "read_loop reads name len k nread fed = Inr (n, content) \<Longrightarrow> length fed = unat nread \<Longrightarrow>
   \<exists>rest. content = fed @ rest \<and> reads_content reads k rest \<and> length content = unat n"
proof (induction reads name len k nread fed rule: read_loop.induct)
  case (1 reads name len k nread fed)
  show ?case
  proof (cases "reads k")
    case (Inr chunk)
    show ?thesis
    proof (cases "chunk = []")
      case True
      then show ?thesis using 1(2,3) Inr by (subst (asm) read_loop.simps) (auto intro: reads_content_Nil)
    next
      case False
      let ?c = "of_nat (min (length chunk) 65536) :: u64"
      obtain nread' where nread': "checked_add nread ?c = Some nread'" "\<not> nread' > len"
          "read_loop reads name len (Suc k) nread' (fed @ take 65536 chunk) = Inr (n, content)"
        using 1(2) Inr False by (subst (asm) read_loop.simps) (auto split: option.splits if_splits)
      have "unat ?c = min (length chunk) 65536" by (rule unat_of_nat_small) simp
      then have "length (fed @ take 65536 chunk) = unat nread'"
        using 1(3) unat_checked_add [OF nread'(1)] by simp
      from 1(1) [OF Inr False nread'(1,2,3) this] show ?thesis
        using reads_content_Cons [of reads k chunk, OF Inr False] by auto
    qed
  qed (use 1(2) in \<open>subst (asm) read_loop.simps, simp\<close>)
qed

definition entry_leaf :: "prims \<Rightarrow> ClosureEntry \<Rightarrow> bytes" where
  "entry_leaf P e = sha384 P (leaf_preimage (relative_path e) (mode e) (entry_length e)
     (the (hex_decode P (content_sha384 e))))"

definition closure_root :: "prims \<Rightarrow> ClosureEntry list \<Rightarrow> bytes" where
  "closure_root P es = sha384 P (root_preimage (length es) (hd (merkle P (map (entry_leaf P) es))))"

text \<open>An entry describes a regular file that was opened below the root under its own name.\<close>

definition entry_measured :: "prims \<Rightarrow> 'h closure_os \<Rightarrow> ClosureLimits \<Rightarrow> 'h \<Rightarrow> ClosureEntry \<Rightarrow> bool" where
  "entry_measured P os limits root e \<longleftrightarrow> (\<exists>file before after content.
     open_beneath os root (relative_path e) = Inr file \<and>
     metadata_before os file = Inr before \<and> metadata_after os file = Inr after \<and>
     is_file before \<and> same_metadata before after \<and> entry_length e = md_len before \<and>
     entry_length e \<le> max_file_bytes limits \<and> mode e = file_mode before \<and>
     reads_content (read_chunk os file) 0 content \<and> length content = unat (entry_length e) \<and>
     content_sha384 e = hex_encode P (sha384 P content))"

definition closure_inv ::
  "prims \<Rightarrow> 'h closure_os \<Rightarrow> ClosureLimits \<Rightarrow> 'h \<Rightarrow> str list \<Rightarrow> closure_state \<Rightarrow> bool" where
  "closure_inv P os limits root names st \<longleftrightarrow>
     map relative_path (cs_entries st) = names \<and> cs_leaves st = map (entry_leaf P) (cs_entries st) \<and>
     (\<forall>e \<in> set (cs_entries st). entry_measured P os limits root e) \<and>
     unat (cs_total st) = sum_list (map (unat \<circ> entry_length) (cs_entries st)) \<and>
     (cs_entries st \<noteq> [] \<longrightarrow> cs_total st \<le> max_total_bytes limits)"

lemma measure_file_inv:
  assumes "hex_laws P" "measure_file P os limits root st name = Inr st'" "closure_inv P os limits root names st"
  shows "closure_inv P os limits root (names @ [name]) st'"
proof -
  obtain h before total nread content after where
    f: "open_beneath os root name = Inr h" "metadata_before os h = Inr before" "\<not> \<not> is_file before"
      "\<not> md_len before > max_file_bytes limits"
      "ok_or (checked_add (cs_total st) (md_len before)) (Limit ''total bytes'') = Inr total"
      "\<not> total > max_total_bytes limits"
      "read_loop (read_chunk os h) name (md_len before) 0 0 [] = Inr (nread, content)"
      "metadata_after os h = Inr after" "\<not> (nread \<noteq> md_len before \<or> \<not> same_metadata before after)" and
    st': "Inr \<lparr>cs_total = total,
          cs_entries = cs_entries st @ [\<lparr>relative_path = name, entry_length = nread, mode = file_mode before,
             content_sha384 = hex_encode P (sha384 P content)\<rparr>],
          cs_leaves = cs_leaves st @ [sha384 P (leaf_preimage name (file_mode before) nread (sha384 P content))]\<rparr> =
      (Inr st' :: ClosureError + closure_state)"
    using assms(2) unfolding measure_file_def Let_def by - (elim result_elims, (rule that; assumption))
  define e where "e = \<lparr>relative_path = name, entry_length = nread, mode = file_mode before,
      content_sha384 = hex_encode P (sha384 P content)\<rparr>"
  have "entry_measured P os limits root e"
    unfolding entry_measured_def e_def
    using f read_loop_content [OF f(7)] by (auto simp: not_less)
  moreover have "entry_leaf P e = sha384 P (leaf_preimage name (file_mode before) nread (sha384 P content))"
    by (simp add: entry_leaf_def e_def assms(1))
  moreover have "unat total = unat (cs_total st) + unat (entry_length e)"
    using f(5,9) by (auto simp: ok_or_Inr_iff e_def dest: unat_checked_add)
  ultimately show ?thesis
    using assms(3) st' f(6) unfolding closure_inv_def e_def by (auto simp: not_less)
qed

lemma measure_files_inv:
  "hex_laws P \<Longrightarrow> foldR (measure_file P os limits root) st rest = Inr st' \<Longrightarrow>
   closure_inv P os limits root names st \<Longrightarrow> closure_inv P os limits root (names @ rest) st'"
proof (induction rest arbitrary: st names)
  case (Cons n rest)
  then obtain mid where "measure_file P os limits root st n = Inr mid"
      and rest: "foldR (measure_file P os limits root) mid rest = Inr st'"
    by (auto simp: result_simps)
  with Cons.prems have "closure_inv P os limits root (names @ [n]) mid" by (blast intro: measure_file_inv)
  from Cons.IH [OF Cons.prems(1) rest this] show ?case by simp
qed simp

lemma measure_closure_Inr:
  assumes "hex_laws P" "measure_closure P os root files limits = Inr m"
  obtains h where "open_root os root = Inr h" "sorted_wrt (<) (map relative_path (cm_files m))"
    "set (map relative_path (cm_files m)) = set files" "distinct files" "\<forall>f \<in> set files. valid_name f"
    "cm_files m \<noteq> []" "length (cm_files m) \<le> max_files limits"
    "\<forall>e \<in> set (cm_files m). entry_measured P os limits h e"
    "sum_list (map (unat \<circ> entry_length) (cm_files m)) \<le> unat (max_total_bytes limits)"
    "root_sha384 m = hex_encode P (closure_root P (cm_files m))"
proof -
  obtain names h st where f: "\<not> (files = [] \<or> length files > max_files limits)" "collect_names files = Inr names"
      "open_root os root = Inr h"
      "foldR (measure_file P os limits h) \<lparr>cs_total = 0, cs_entries = [], cs_leaves = []\<rparr> names = Inr st"
      "Inr \<lparr>format = lit ''uq-system-closure-v1'', cm_files = cs_entries st,
         root_sha384 = hex_encode P (sha384 P (root_preimage (length (cs_entries st)) (hd (merkle P (cs_leaves st)))))\<rparr> =
       (Inr m :: ClosureError + ClosureManifest)"
    using assms(2) unfolding measure_closure_def Let_def by - (elim result_elims, (rule that; assumption))
  have inv: "closure_inv P os limits h names st"
    using measure_files_inv [OF assms(1) f(4), of "[]"] by (simp add: closure_inv_def)
  note n = collect_names_Inr [OF f(2)]
  have "distinct names" using n(1) by (simp add: strict_sorted_iff)
  then have "length names = length files" using n(2,4) by (metis distinct_card)
  moreover have "map relative_path (cs_entries st) = names" using inv by (simp add: closure_inv_def)
  ultimately have len: "length (cs_entries st) = length files" by (metis length_map)
  show ?thesis
    by (rule that [OF f(3)])
      (use inv n f(1,5) len in \<open>auto simp: closure_inv_def closure_root_def word_le_nat_alt\<close>)
qed

section \<open>The root commits to the files\<close>

lemma concat_chunks2 [simp]: "concat (chunks2 xs) = xs"
  by (induction xs rule: chunks2.induct) auto

lemma chunks2_sizes: "c \<in> set (chunks2 xs) \<Longrightarrow> length c \<le> 2 \<and> set c \<subseteq> set xs"
  by (induction xs rule: chunks2.induct) auto

lemma concat_same_sizes_inject:
  "length xs = length ys \<Longrightarrow> \<forall>x \<in> set xs \<union> set ys. length x = n \<Longrightarrow> concat xs = concat ys \<longleftrightarrow> xs = ys"
proof (induction xs ys rule: list_induct2)
  case (Cons x xs y ys)
  then have "length x = length y" by simp
  then show ?case using Cons by auto
qed simp

lemma branch_preimage_inject:
  assumes "length c \<le> 2" "length d \<le> 2" "\<forall>x \<in> set c \<union> set d. length x = 48"
  shows "branch_preimage c = branch_preimage d \<longleftrightarrow> c = d"
proof
  assume eq: "branch_preimage c = branch_preimage d"
  then have "(of_nat (length c) :: byte) = of_nat (length d)" and cc: "concat c = concat d"
    by (simp_all add: branch_preimage_def del: list.map)
  moreover have "unat (of_nat (length c) :: byte) = length c" "unat (of_nat (length d) :: byte) = length d"
    using assms(1,2) by (intro unat_of_nat_small; simp)+
  ultimately have "length c = length d" by metis
  then show "c = d" using cc concat_same_sizes_inject assms(3) by blast
qed simp

function merkle_hashed :: "prims \<Rightarrow> bytes list \<Rightarrow> bytes set" where
  "merkle_hashed P leaves =
     (if length leaves > 1
      then branch_preimage ` set (chunks2 leaves) \<union> merkle_hashed P (map (\<lambda>pair. sha384 P (branch_preimage pair)) (chunks2 leaves))
      else {})"
  by auto
termination
  by (relation "measure (\<lambda>(P, leaves). length leaves)") (auto simp: length_chunks2)

declare merkle_hashed.simps [simp del]

lemma map_inj_on_both:
  "inj_on f A \<Longrightarrow> map f xs = map f ys \<Longrightarrow> set xs \<subseteq> A \<Longrightarrow> set ys \<subseteq> A \<Longrightarrow> xs = ys"
  by (meson inj_on_map_eq_map inj_on_subset le_sup_iff)

lemma merkle_inject:
  "digest_sizes P \<Longrightarrow> length xs = length ys \<Longrightarrow> \<forall>x \<in> set xs \<union> set ys. length x = 48 \<Longrightarrow>
   inj_on (sha384 P) (merkle_hashed P xs \<union> merkle_hashed P ys) \<Longrightarrow> merkle P xs = merkle P ys \<Longrightarrow> xs = ys"
proof (induction P xs arbitrary: ys rule: merkle.induct)
  case (1 P xs)
  show ?case
  proof (cases "length xs > 1")
    case True
    let ?up = "\<lambda>zs. map (\<lambda>pair. sha384 P (branch_preimage pair)) (chunks2 zs)"
    have ys: "length ys > 1" using True "1.prems"(2) by simp
    have hx: "merkle_hashed P xs = branch_preimage ` set (chunks2 xs) \<union> merkle_hashed P (?up xs)"
      using True by (subst merkle_hashed.simps) simp
    have hy: "merkle_hashed P ys = branch_preimage ` set (chunks2 ys) \<union> merkle_hashed P (?up ys)"
      using ys by (subst merkle_hashed.simps) simp
    have "merkle P (?up xs) = merkle P (?up ys)"
      using "1.prems"(5) True ys merkle.simps [of P xs] merkle.simps [of P ys] by simp
    moreover have "inj_on (sha384 P) (merkle_hashed P (?up xs) \<union> merkle_hashed P (?up ys))"
      using "1.prems"(4) unfolding hx hy by (rule inj_on_subset) auto
    ultimately have "?up xs = ?up ys"
      using True "1.prems"(1,2) by (intro "1.IH") (auto simp: length_chunks2)
    then have "map (sha384 P) (map branch_preimage (chunks2 xs)) = map (sha384 P) (map branch_preimage (chunks2 ys))"
      by (simp add: comp_def)
    then have eq: "map branch_preimage (chunks2 xs) = map branch_preimage (chunks2 ys)"
      by (rule map_inj_on_both [OF "1.prems"(4)]) (auto simp: hx hy)
    have "inj_on branch_preimage (set (chunks2 xs) \<union> set (chunks2 ys))"
    proof (rule inj_onI)
      fix c d assume "c \<in> set (chunks2 xs) \<union> set (chunks2 ys)" "d \<in> set (chunks2 xs) \<union> set (chunks2 ys)"
        and cd: "branch_preimage c = branch_preimage d"
      then have "length c \<le> 2" "length d \<le> 2" "\<forall>x \<in> set c \<union> set d. length x = 48"
        using chunks2_sizes "1.prems"(3) by blast+
      then show "c = d" using cd branch_preimage_inject by blast
    qed
    then have "chunks2 xs = chunks2 ys" using eq by (rule map_inj_on_both) auto
    then show ?thesis by (metis concat_chunks2)
  next
    case False
    then show ?thesis using "1.prems"(2,5) merkle.simps [of P xs] merkle.simps [of P ys] by simp
  qed
qed

lemma length_merkle: "leaves \<noteq> [] \<Longrightarrow> length (merkle P leaves) = 1"
proof (induction P leaves rule: merkle.induct)
  case (1 P leaves)
  show ?case
  proof (cases "length leaves > 1")
    case True
    then have "chunks2 leaves \<noteq> []" by (metis concat.simps(1) concat_chunks2 list.size(3) not_less_zero)
    then show ?thesis using 1 True by (subst merkle.simps) simp
  next
    case False
    then show ?thesis using "1.prems" by (subst merkle.simps) (cases leaves, auto)
  qed
qed

definition entry_wf :: "prims \<Rightarrow> ClosureEntry \<Rightarrow> bool" where
  "entry_wf P e \<longleftrightarrow> length (relative_path e) < 2 ^ 32 \<and> (\<exists>h. length h = 48 \<and> content_sha384 e = hex_encode P h)"

definition entry_preimage :: "prims \<Rightarrow> ClosureEntry \<Rightarrow> bytes" where
  "entry_preimage P e = leaf_preimage (relative_path e) (mode e) (entry_length e) (the (hex_decode P (content_sha384 e)))"

definition closure_hashed :: "prims \<Rightarrow> ClosureEntry list \<Rightarrow> bytes set" where
  "closure_hashed P es =
     {root_preimage (length es) (hd (merkle P (map (entry_leaf P) es)))} \<union>
     merkle_hashed P (map (entry_leaf P) es) \<union> entry_preimage P ` set es"

lemma entry_preimage_inject:
  assumes "hex_laws P" "entry_wf P e" "entry_wf P e'" "entry_preimage P e = entry_preimage P e'"
  shows "e = e'"
proof -
  obtain h h' where h: "length h = 48" "content_sha384 e = hex_encode P h" "length h' = 48" "content_sha384 e' = hex_encode P h'"
    using assms(2,3) by (auto simp: entry_wf_def)
  have "be_bytes 4 (length (relative_path e)) @ relative_path e @ be_bytes 4 (unat (mode e)) @ be_bytes 8 (unat (entry_length e)) @ h =
      be_bytes 4 (length (relative_path e')) @ relative_path e' @ be_bytes 4 (unat (mode e')) @ be_bytes 8 (unat (entry_length e')) @ h'"
    using assms(1,4) h by (simp add: entry_preimage_def leaf_preimage_def del: list.map)
  moreover have "length (relative_path e) < 2 ^ 32" "length (relative_path e') < 2 ^ 32"
    using assms(2,3) by (simp_all add: entry_wf_def)
  ultimately have "relative_path e = relative_path e' \<and>
      be_bytes 4 (unat (mode e)) @ be_bytes 8 (unat (entry_length e)) @ h =
      be_bytes 4 (unat (mode e')) @ be_bytes 8 (unat (entry_length e')) @ h'"
    by (simp only: length_prefixed_inject)
  then show ?thesis using h by (cases e; cases e') simp
qed

lemma singleton_hd: "length xs = 1 \<Longrightarrow> xs = [hd xs]"
  by (cases xs) simp_all

lemma closure_root_inject:
  assumes laws: "digest_sizes P" "hex_laws P" and es: "es \<noteq> []" "es' \<noteq> []" "length es < 2 ^ 64" "length es' < 2 ^ 64"
    and wf: "\<forall>e \<in> set es \<union> set es'. entry_wf P e"
    and inj: "inj_on (sha384 P) (closure_hashed P es \<union> closure_hashed P es')"
    and root: "closure_root P es = closure_root P es'"
  shows "es = es'"
proof -
  let ?l = "map (entry_leaf P) es" and ?l' = "map (entry_leaf P) es'"
  have "root_preimage (length es) (hd (merkle P ?l)) = root_preimage (length es') (hd (merkle P ?l'))"
    using root unfolding closure_root_def by (rule inj_onD [OF inj]) (simp_all add: closure_hashed_def)
  then have "be_bytes 8 (length es) = be_bytes 8 (length es')" and hd: "hd (merkle P ?l) = hd (merkle P ?l')"
    by (simp_all add: root_preimage_def del: list.map)
  then have len: "length es = length es'"
    using be_bytes_inject [of "length es" 8 "length es'"] es(3,4) by simp
  have "length (merkle P ?l) = 1" "length (merkle P ?l') = 1"
    by (rule length_merkle, use es(1,2) in simp)+
  then have "merkle P ?l = [hd (merkle P ?l)]" "merkle P ?l' = [hd (merkle P ?l')]"
    by (blast intro: singleton_hd)+
  then have "merkle P ?l = merkle P ?l'" using hd by metis
  moreover have "inj_on (sha384 P) (merkle_hashed P ?l \<union> merkle_hashed P ?l')"
    using inj by (rule inj_on_subset) (auto simp: closure_hashed_def)
  moreover have "\<forall>x \<in> set ?l \<union> set ?l'. length x = 48"
    using digest_sizesD(2) [OF laws(1)] by (auto simp: entry_leaf_def)
  moreover have "length ?l = length ?l'" using len by simp
  ultimately have "?l = ?l'" using merkle_inject [OF laws(1)] by blast
  moreover have "entry_leaf P = sha384 P \<circ> entry_preimage P"
    by (simp add: fun_eq_iff entry_leaf_def entry_preimage_def)
  ultimately have "map (sha384 P) (map (entry_preimage P) es) = map (sha384 P) (map (entry_preimage P) es')"
    by simp
  then have eq: "map (entry_preimage P) es = map (entry_preimage P) es'"
    by (rule map_inj_on_both [OF inj]) (auto simp: closure_hashed_def)
  have "inj_on (entry_preimage P) (set es \<union> set es')"
    by (rule inj_onI, rule entry_preimage_inject [OF laws(2)]) (use wf in simp_all)
  then show ?thesis using eq by (rule map_inj_on_both) auto
qed

lemma measured_entry_wf:
  assumes "digest_sizes P" "entry_measured P os limits root e" "valid_name (relative_path e)"
  shows "entry_wf P e"
proof -
  obtain content where "content_sha384 e = hex_encode P (sha384 P content)"
    using assms(2) by (auto simp: entry_measured_def)
  moreover have "length (relative_path e) \<le> 4096" using assms(3) by (simp add: valid_name_def)
  ultimately show ?thesis using digest_sizesD(2) [OF assms(1)] unfolding entry_wf_def by fastforce
qed

lemma measured_wf:
  assumes "digest_sizes P" "hex_laws P" "measure_closure P os root files limits = Inr m"
  shows "\<forall>e \<in> set (cm_files m). entry_wf P e" and "cm_files m \<noteq> []"
    and "root_sha384 m = hex_encode P (closure_root P (cm_files m))"
proof -
  from measure_closure_Inr [OF assms(2,3)] obtain h where
    h: "set (map relative_path (cm_files m)) = set files" "\<forall>f \<in> set files. valid_name f" "cm_files m \<noteq> []"
      "\<forall>e \<in> set (cm_files m). entry_measured P os limits h e"
      "root_sha384 m = hex_encode P (closure_root P (cm_files m))"
    by metis
  show "\<forall>e \<in> set (cm_files m). entry_wf P e"
    using h(1,2,4) measured_entry_wf [OF assms(1)] by (metis image_eqI set_map)
  show "cm_files m \<noteq> []" "root_sha384 m = hex_encode P (closure_root P (cm_files m))" using h by simp_all
qed

section \<open>A concrete closure\<close>

text \<open>A root with one regular file \<open>a\<close> whose only read returns two bytes.\<close>

definition demo_os :: "byte \<Rightarrow> str closure_os" where
  "demo_os b = \<lparr>open_base = (\<lambda>_. Inr []), try_clone = Inr, openat = (\<lambda>_ name _. Inr name),
     metadata_before = (\<lambda>_. Inr \<lparr>is_file = True, md_len = 2, md_mode = 0, md_stamp = []\<rparr>),
     metadata_after = (\<lambda>_. Inr \<lparr>is_file = True, md_len = 2, md_mode = 0, md_stamp = []\<rparr>),
     read_chunk = (\<lambda>_ k. Inr (if k = 0 then [1, b] else []))\<rparr>"

definition demo_content_hash :: "byte \<Rightarrow> bytes" where
  "demo_content_hash b = b # 1 # replicate 46 0"

definition demo_closure_entry :: "byte \<Rightarrow> ClosureEntry" where
  "demo_closure_entry b = \<lparr>relative_path = [97], entry_length = 2, mode = 0,
     content_sha384 = hex_encode demo_prims (demo_content_hash b)\<rparr>"

definition demo_closure :: "byte \<Rightarrow> ClosureManifest" where
  "demo_closure b = \<lparr>format = lit ''uq-system-closure-v1'', cm_files = [demo_closure_entry b],
     root_sha384 = hex_encode demo_prims (closure_root demo_prims [demo_closure_entry b])\<rparr>"

lemma demo_name: "collect_names [[97]] = Inr [[97]]" "path_components [97] = [Normal [97]]"
  by code_simp+

lemma demo_reads: "read_loop (read_chunk (demo_os b) file) name 2 0 0 [] = Inr (2, [1, b])"
proof -
  have "checked_add 0 (2 :: u64) = Some 2" by code_simp
  then show ?thesis by (simp add: read_loop.simps demo_os_def)
qed

lemma demo_sha384: "sha384 demo_prims [1, b] = demo_content_hash b"
  by (simp add: demo_prims_def demo_digest_def demo_content_hash_def numeral_eq_Suc)

lemma demo_open: "open_root (demo_os b) [] = Inr []" "open_beneath (demo_os b) [] [97] = Inr [97]"
  by (simp_all add: open_root_def open_beneath_def path_components_def [of "[]"] demo_name open_child_def demo_os_def)

lemma demo_measure: "measure_closure demo_prims (demo_os b) [] [[97]] closure_default_limits = Inr (demo_closure b)"
proof -
  have lim: "\<not> (2 :: u64) > max_file_bytes closure_default_limits" "checked_add 0 (2 :: u64) = Some 2"
      "\<not> (2 :: u64) > max_total_bytes closure_default_limits" "max_files closure_default_limits = 100000"
    by code_simp+
  have leaf: "sha384 demo_prims (leaf_preimage [97] 0 2 (demo_content_hash b)) = entry_leaf demo_prims (demo_closure_entry b)"
    by (simp add: entry_leaf_def demo_closure_entry_def del: list.map)
  have md: "metadata_before (demo_os b) f = Inr \<lparr>is_file = True, md_len = 2, md_mode = 0, md_stamp = []\<rparr>"
      "metadata_after (demo_os b) f = Inr \<lparr>is_file = True, md_len = 2, md_mode = 0, md_stamp = []\<rparr>" for f
    by (simp_all add: demo_os_def)
  have "measure_file demo_prims (demo_os b) closure_default_limits [] \<lparr>cs_total = 0, cs_entries = [], cs_leaves = []\<rparr> [97] =
      Inr \<lparr>cs_total = 2, cs_entries = [demo_closure_entry b], cs_leaves = [entry_leaf demo_prims (demo_closure_entry b)]\<rparr>"
    unfolding measure_file_def
    by (simp add: demo_open md lim demo_reads demo_sha384 ok_or_def same_metadata_def file_mode_def leaf)
      (simp add: demo_closure_entry_def)
  then show ?thesis
    by (simp add: measure_closure_def demo_name demo_open lim demo_closure_def closure_root_def)
qed

lemma length_demo_content_hash [simp]: "length (demo_content_hash b) = 48"
  by (simp add: demo_content_hash_def)

lemma demo_leaf: "sha384 demo_prims (entry_preimage demo_prims (demo_closure_entry b)) = rev (demo_content_hash b)"
proof -
  have "entry_preimage demo_prims (demo_closure_entry b) =
      (lit ''uq-system-closure-v1'' @ [0] @ lit ''leaf'' @ [0] @ be_bytes 4 1 @ [97] @ be_bytes 4 0 @ be_bytes 8 2) @
      demo_content_hash b"
    by (simp add: entry_preimage_def leaf_preimage_def demo_closure_entry_def del: list.map)
  then show ?thesis by (simp only: demo_prims_def prims.simps demo_digest_suffix length_demo_content_hash)
qed

lemma demo_root:
  "closure_hashed demo_prims [demo_closure_entry b] =
     {root_preimage (Suc 0) (rev (demo_content_hash b)), entry_preimage demo_prims (demo_closure_entry b)}"
  "sha384 demo_prims (root_preimage (Suc 0) (rev (demo_content_hash b))) = demo_content_hash b"
proof -
  have "merkle demo_prims [x] = [x]" "merkle_hashed demo_prims [x] = {}" for x
    by (simp_all add: merkle.simps merkle_hashed.simps)
  then show "closure_hashed demo_prims [demo_closure_entry b] =
     {root_preimage (Suc 0) (rev (demo_content_hash b)), entry_preimage demo_prims (demo_closure_entry b)}"
    using demo_leaf by (simp add: closure_hashed_def entry_leaf_def entry_preimage_def insert_commute)
  show "sha384 demo_prims (root_preimage (Suc 0) (rev (demo_content_hash b))) = demo_content_hash b"
    using demo_digest_suffix [of "rev (demo_content_hash b)" 48
        "lit ''uq-system-closure-v1'' @ [0] @ lit ''root'' @ [0] @ be_bytes 8 (Suc 0)"]
    by (simp add: root_preimage_def demo_prims_def del: list.map)
qed

lemma demo_closure_collision_free:
  "inj_on (sha384 demo_prims) (closure_hashed demo_prims [demo_closure_entry 5] \<union> closure_hashed demo_prims [demo_closure_entry 6])"
proof -
  have "rev (demo_content_hash b) ! 0 = 0" "demo_content_hash b ! 0 = b" "rev (demo_content_hash b) ! 47 = b" for b
    by (simp_all add: demo_content_hash_def rev_nth nth_append)
  then have "distinct [demo_content_hash 5, demo_content_hash 6, rev (demo_content_hash 5), rev (demo_content_hash 6)]"
    by (auto dest: arg_cong [of _ _ "\<lambda>x. x ! 0"] arg_cong [of _ _ "\<lambda>x. x ! 47"])
  then show ?thesis
    unfolding demo_root(1) inj_on_def by (auto simp: demo_root(2) demo_leaf)
qed

section \<open>Properties\<close>

text \<open>C24. A manifest lists exactly the requested files, each once and in order of their names, all of them
  normal relative paths; every entry is a regular file opened below the root whose metadata did not
  change during the reads, with the digest of the bytes read; the sizes respect the limits; and the
  root is the Merkle root over the entries.\<close>

theorem measure_closure_sound:
  assumes "hex_laws P" and "measure_closure P os root files limits = Inr m"
  shows "sorted_wrt (<) (map relative_path (cm_files m)) \<and>
    set (map relative_path (cm_files m)) = set files \<and> distinct files \<and> (\<forall>f \<in> set files. valid_name f) \<and>
    length (cm_files m) \<le> max_files limits \<and>
    sum_list (map (unat \<circ> entry_length) (cm_files m)) \<le> unat (max_total_bytes limits) \<and>
    (\<exists>h. open_root os root = Inr h \<and> (\<forall>e \<in> set (cm_files m). entry_measured P os limits h e)) \<and>
    root_sha384 m = hex_encode P (closure_root P (cm_files m))"
  using measure_closure_Inr [OF assms] by metis

theorem measure_closure_sound_witness:
  "valid_name [97] \<and> (\<exists>h. entry_measured demo_prims (demo_os 5) closure_default_limits h (demo_closure_entry 5))"
  using measure_closure_sound [OF demo_hex_laws demo_measure, of 5] by (auto simp: demo_closure_def)

text \<open>C25. The root commits to the closure: two manifests with the same root list the same files, with the
  same sizes, modes and content digests, as long as the hash does not collide on the leaves, branches
  and roots hashed for them.\<close>

theorem closure_root_commits:
  assumes "digest_sizes P" and "hex_laws P"
    and "measure_closure P os root files limits = Inr m" and "measure_closure P os' root' files' limits' = Inr m'"
    and "length (cm_files m) < 2 ^ 64" and "length (cm_files m') < 2 ^ 64"
    and "inj_on (sha384 P) (closure_hashed P (cm_files m) \<union> closure_hashed P (cm_files m'))"
  shows "root_sha384 m = root_sha384 m' \<longleftrightarrow> cm_files m = cm_files m'"
proof
  note wf = measured_wf [OF assms(1,2,3)] measured_wf [OF assms(1,2,4)]
  assume "root_sha384 m = root_sha384 m'"
  then have "closure_root P (cm_files m) = closure_root P (cm_files m')" using wf assms(2) by simp
  then show "cm_files m = cm_files m'"
    using closure_root_inject [OF assms(1,2) wf(2,5) assms(5,6) _ assms(7)] wf(1,4) by blast
qed (use measured_wf(3) [OF assms(1,2,3)] measured_wf(3) [OF assms(1,2,4)] in simp)

theorem closure_root_commits_witness: "root_sha384 (demo_closure 5) \<noteq> root_sha384 (demo_closure 6)"
proof -
  have "demo_closure_entry 5 \<noteq> demo_closure_entry 6"
    by (simp add: demo_closure_entry_def demo_content_hash_def)
  then show ?thesis
    using closure_root_commits [OF demo_digest_sizes demo_hex_laws demo_measure demo_measure, of 5 6]
      demo_closure_collision_free by (simp add: demo_closure_def)
qed

end
