(* ===== verification/Eat.thy ===== *)
theory Eat
  imports UQ_Prims
begin

text \<open>
  The attestation token (\<open>v2/src/eat.rs\<close>): its fields, the binding that goes into the report data of
  the hardware quote, the second commitment, the checks on decoding, and its construction by a
  build, and its wire format. The CBOR codec (\<open>ciborium\<close>) is a parameter; what serde derives from the
  attributes of the struct is modelled. The lemmas show that the binding commits to every
  claim that the quote itself does not carry, across all binding suites, as long as the hash does
  not collide on the values hashed.
\<close>

section \<open>Tokens\<close>

datatype Platform = Nitro | SevSnp | Tdx | AzureSnpVtpm | AwsSnpNitroTpm

definition platform_to_u8 :: "Platform \<Rightarrow> byte" where
  "platform_to_u8 p = (case p of Nitro \<Rightarrow> 1 | SevSnp \<Rightarrow> 2 | Tdx \<Rightarrow> 3 | AzureSnpVtpm \<Rightarrow> 4 | AwsSnpNitroTpm \<Rightarrow> 5)"

definition EAT_VERSION :: u32 where
  "EAT_VERSION = 2"

definition EAT_PROFILE :: str where
  "EAT_PROFILE = lit ''https://uq.secure.build/eat/v2''"

definition EAT_PROFILE_ACCEPTED :: "str list" where
  "EAT_PROFILE_ACCEPTED = [EAT_PROFILE, lit ''https://bountynet.dev/eat/v2'']"

abbreviation BINDING_SUITE_V2_SHA256 :: u16 where "BINDING_SUITE_V2_SHA256 \<equiv> 0"
abbreviation BINDING_SUITE_V3_SHA256_DUAL :: u16 where "BINDING_SUITE_V3_SHA256_DUAL \<equiv> 1"
abbreviation BINDING_SUITE_COMPOSITE :: u16 where "BINDING_SUITE_COMPOSITE \<equiv> 2"

datatype EatError =
    Shape string
  | Encode string
  | Decode string
  | VersionMismatch u32 u32
  | ProfileMismatch str str
  | LengthMismatch string nat nat

record EatToken =
  version :: u32
  eat_profile :: str
  binding_suite :: u16
  value_x :: bytes
  platform :: byte
  platform_measurement :: bytes
  platform_quote :: bytes
  tls_spki_hash :: bytes
  source_hash :: bytes
  artifact_hash :: bytes
  iat :: u64
  eat_nonce :: bytes
  previous_attestation :: bytes
  gpu_evidence :: bytes
  boot_evidence :: bytes

definition platform_enum :: "EatToken \<Rightarrow> Platform option" where
  "platform_enum t =
     (if platform t = 1 then Some Nitro else if platform t = 2 then Some SevSnp
      else if platform t = 3 then Some Tdx else if platform t = 4 then Some AzureSnpVtpm
      else if platform t = 5 then Some AwsSnpNitroTpm else None)"

section \<open>The binding\<close>

definition previous_hash :: "prims \<Rightarrow> EatToken \<Rightarrow> bytes" where
  "previous_hash P t =
     (if previous_attestation t = [] then replicate 32 0 else sha256 P (previous_attestation t))"

definition has_previous :: "EatToken \<Rightarrow> bool" where
  "has_previous t \<longleftrightarrow> previous_attestation t \<noteq> []"

definition binding_bytes_v2 :: "prims \<Rightarrow> EatToken \<Rightarrow> bytes" where
  "binding_bytes_v2 P t = sha256 P
     (be_bytes 4 (unat (version t)) @ be_bytes 4 (length (eat_profile t)) @ eat_profile t @ value_x t @
      [platform t] @ tls_spki_hash t @ source_hash t @ artifact_hash t @ be_bytes 8 (unat (iat t)) @
      eat_nonce t @ previous_hash P t)"

definition binding_bytes_v3 :: "prims \<Rightarrow> EatToken \<Rightarrow> bytes" where
  "binding_bytes_v3 P t = sha256 P
     (lit ''uq/eat/binding/v3'' @ [0] @ be_bytes 2 (unat (binding_suite t)) @
      be_bytes 4 (unat (version t)) @ be_bytes 4 (length (eat_profile t)) @ eat_profile t @ value_x t @
      [platform t] @ tls_spki_hash t @ source_hash t @ artifact_hash t @ be_bytes 8 (unat (iat t)) @
      eat_nonce t @ previous_hash P t)"

definition binding_bytes :: "prims \<Rightarrow> EatToken \<Rightarrow> bytes" where
  "binding_bytes P t =
     (if binding_suite t = BINDING_SUITE_COMPOSITE then
        sha256 P (lit ''uq/eat/composite/v1'' @ [0] @ binding_bytes_v3 P t @
          be_bytes 8 (length (gpu_evidence t)) @ sha256 P (gpu_evidence t) @
          be_bytes 8 (length (boot_evidence t)) @ sha256 P (boot_evidence t))
      else if binding_suite t = BINDING_SUITE_V3_SHA256_DUAL then binding_bytes_v3 P t
      else if binding_suite t = BINDING_SUITE_V2_SHA256 then binding_bytes_v2 P t
      else sha256 P (lit ''uq/eat/unsupported-suite'' @ [0] @ be_bytes 2 (unat (binding_suite t)) @
             binding_bytes_v3 P t))"

definition SECOND_COMMITMENT_DOMAIN :: bytes where
  "SECOND_COMMITMENT_DOMAIN = lit ''uq/eat/report-data-2'' @ [0]"

definition second_commitment :: "prims \<Rightarrow> EatToken \<Rightarrow> bytes option \<Rightarrow> bytes" where
  "second_commitment P t challenge =
     (case challenge of
        None \<Rightarrow> take 32 (value_x t)
      | Some ch \<Rightarrow> sha256 P (SECOND_COMMITMENT_DOMAIN @ ch @ take 32 (value_x t)))"

definition report_data_64 :: "prims \<Rightarrow> EatToken \<Rightarrow> bytes option \<Rightarrow> bytes" where
  "report_data_64 P t challenge = binding_bytes P t @ second_commitment P t challenge"

section \<open>Checks and CBOR\<close>

definition validate_shape :: "EatToken \<Rightarrow> EatError + unit" where
  "validate_shape t =
     (if version t \<noteq> EAT_VERSION then Inl (VersionMismatch EAT_VERSION (version t))
      else if eat_profile t \<notin> set EAT_PROFILE_ACCEPTED then Inl (ProfileMismatch EAT_PROFILE (eat_profile t))
      else if \<not> binding_suite t \<le> 2 then Inl (Shape ''unknown binding suite'')
      else if binding_suite t \<noteq> BINDING_SUITE_COMPOSITE \<and> (gpu_evidence t \<noteq> [] \<or> boot_evidence t \<noteq> [])
      then Inl (Shape ''composite evidence requires binding suite 2'')
      else if platform_enum t = None then Inl (Shape ''unknown platform'')
      else if platform t \<in> {4, 5} \<and> binding_suite t \<noteq> BINDING_SUITE_COMPOSITE
      then Inl (Shape ''TPM composite profiles require binding suite 2'')
      else if length (gpu_evidence t) > 8 * 1024 * 1024 \<or> length (boot_evidence t) > 16 * 1024 * 1024
      then Inl (Shape ''evidence exceeds size limit'')
      else if length (platform_quote t) > 4 * 1024 * 1024 \<or> length (previous_attestation t) > 8 * 1024 * 1024
      then Inl (Shape ''CPU quote or preceding stage exceeds size limit'')
      else Inr ())"

text \<open>
  The wire format. \<open>ciborium\<close> turns a value of the CBOR data model into bytes and back (the second
  component is the number of bytes read) and gives what serde asks it for: the entries of a map, an
  identifier, a string, an unsigned integer below a bound, a byte buffer (\<open>serde_bytes\<close>) and the
  \<open>Vec<u8>\<close> of a sequence. These are parameters. What the derive and its attributes do with them is
  modelled: the field names and their order, \<open>skip_serializing_if\<close> and \<open>default\<close>, the fixed lengths of the
  two byte helpers, \<open>deny_unknown_fields\<close> and the refusal of duplicate and missing fields. The derive
  reads the entries as they are decoded, so on input with several faults only the message differs.
\<close>

datatype cbor_value =
    CInteger int
  | CBytes bytes
  | CText str
  | CArray "cbor_value list"
  | CMap "(cbor_value \<times> cbor_value) list"
  | CTag u64 cbor_value
  | CBool bool
  | CNull
  | CFloat u64

record cbor =
  encode_value :: "cbor_value \<Rightarrow> string + bytes"
  decode_value :: "bytes \<Rightarrow> string + cbor_value \<times> nat"
  de_map :: "cbor_value \<Rightarrow> string + (cbor_value \<times> cbor_value) list"
  de_identifier :: "cbor_value \<Rightarrow> string + str"
  de_string :: "cbor_value \<Rightarrow> string + str"
  de_unsigned :: "nat \<Rightarrow> cbor_value \<Rightarrow> string + nat"
  de_byte_buf :: "cbor_value \<Rightarrow> string + bytes"
  de_u8_seq :: "cbor_value \<Rightarrow> string + bytes"

datatype eat_field =
    F_version
  | F_eat_profile
  | F_binding_suite
  | F_value_x
  | F_platform
  | F_platform_measurement
  | F_platform_quote
  | F_tls_spki_hash
  | F_source_hash
  | F_artifact_hash
  | F_iat
  | F_eat_nonce
  | F_previous_attestation
  | F_gpu_evidence
  | F_boot_evidence

fun field_name :: "eat_field \<Rightarrow> str" where
  "field_name F_version = lit ''version''"
| "field_name F_eat_profile = lit ''eat_profile''"
| "field_name F_binding_suite = lit ''binding_suite''"
| "field_name F_value_x = lit ''value_x''"
| "field_name F_platform = lit ''platform''"
| "field_name F_platform_measurement = lit ''platform_measurement''"
| "field_name F_platform_quote = lit ''platform_quote''"
| "field_name F_tls_spki_hash = lit ''tls_spki_hash''"
| "field_name F_source_hash = lit ''source_hash''"
| "field_name F_artifact_hash = lit ''artifact_hash''"
| "field_name F_iat = lit ''iat''"
| "field_name F_eat_nonce = lit ''eat_nonce''"
| "field_name F_previous_attestation = lit ''previous_attestation''"
| "field_name F_gpu_evidence = lit ''gpu_evidence''"
| "field_name F_boot_evidence = lit ''boot_evidence''"

definition all_fields :: "eat_field list" where
  "all_fields = [F_version, F_eat_profile, F_binding_suite, F_value_x, F_platform, F_platform_measurement, F_platform_quote, F_tls_spki_hash, F_source_hash, F_artifact_hash, F_iat, F_eat_nonce, F_previous_attestation, F_gpu_evidence, F_boot_evidence]"

definition field_of_name :: "str \<Rightarrow> eat_field option" where
  "field_of_name s = find (\<lambda>f. field_name f = s) all_fields"

datatype wire_type = FUint nat | FString | FBytes | FArray nat

fun field_type :: "eat_field \<Rightarrow> wire_type" where
  "field_type F_version = FUint 32"
| "field_type F_eat_profile = FString"
| "field_type F_binding_suite = FUint 16"
| "field_type F_value_x = FArray 48"
| "field_type F_platform = FUint 8"
| "field_type F_platform_measurement = FBytes"
| "field_type F_platform_quote = FBytes"
| "field_type F_tls_spki_hash = FArray 32"
| "field_type F_source_hash = FArray 48"
| "field_type F_artifact_hash = FArray 48"
| "field_type F_iat = FUint 64"
| "field_type F_eat_nonce = FArray 32"
| "field_type F_previous_attestation = FBytes"
| "field_type F_gpu_evidence = FBytes"
| "field_type F_boot_evidence = FBytes"

definition is_default_suite :: "u16 \<Rightarrow> bool" where
  "is_default_suite s \<longleftrightarrow> s = BINDING_SUITE_V2_SHA256"

definition serialize_fields :: "EatToken \<Rightarrow> (eat_field \<times> cbor_value) list" where
  "serialize_fields t =
     [(F_version, CInteger (uint (version t))), (F_eat_profile, CText (eat_profile t))] @
     (if is_default_suite (binding_suite t) then [] else [(F_binding_suite, CInteger (uint (binding_suite t)))]) @
     [(F_value_x, CBytes (value_x t)),
      (F_platform, CInteger (uint (platform t))),
      (F_platform_measurement, CBytes (platform_measurement t)),
      (F_platform_quote, CBytes (platform_quote t)),
      (F_tls_spki_hash, CBytes (tls_spki_hash t)),
      (F_source_hash, CBytes (source_hash t)),
      (F_artifact_hash, CBytes (artifact_hash t)),
      (F_iat, CInteger (uint (iat t))),
      (F_eat_nonce, CBytes (eat_nonce t))] @
     (if previous_attestation t = [] then [] else [(F_previous_attestation, CBytes (previous_attestation t))]) @
     (if gpu_evidence t = [] then [] else [(F_gpu_evidence, CBytes (gpu_evidence t))]) @
     (if boot_evidence t = [] then [] else [(F_boot_evidence, CBytes (boot_evidence t))])"

definition serialize_token :: "EatToken \<Rightarrow> cbor_value" where
  "serialize_token t = CMap (map (\<lambda>(f, v). (CText (field_name f), v)) (serialize_fields t))"

text \<open>\<open>serde_bytes_32\<close> and \<open>serde_bytes_48\<close>.\<close>

definition de_array :: "cbor \<Rightarrow> nat \<Rightarrow> cbor_value \<Rightarrow> string + bytes" where
  "de_array C n v = bindR (de_u8_seq C v) (\<lambda>bs. if length bs \<noteq> n then Inl ''invalid length'' else Inr bs)"

datatype field_value = VNum nat | VBytes bytes

definition deserialize_field :: "cbor \<Rightarrow> eat_field \<Rightarrow> cbor_value \<Rightarrow> string + field_value" where
  "deserialize_field C f v =
     (case field_type f of
        FUint w \<Rightarrow> bindR (de_unsigned C (2 ^ w) v) (\<lambda>n. Inr (VNum n))
      | FString \<Rightarrow> bindR (de_string C v) (\<lambda>s. Inr (VBytes s))
      | FBytes \<Rightarrow> bindR (de_byte_buf C v) (\<lambda>b. Inr (VBytes b))
      | FArray n \<Rightarrow> bindR (de_array C n v) (\<lambda>b. Inr (VBytes b)))"

type_synonym token_fields = "(eat_field \<times> field_value) list"

definition visit_entry :: "cbor \<Rightarrow> token_fields \<Rightarrow> cbor_value \<times> cbor_value \<Rightarrow> string + token_fields" where
  "visit_entry C fs = (\<lambda>(k, v).
     bindR (de_identifier C k) (\<lambda>name.
     bindR (ok_or (field_of_name name) ''unknown field'') (\<lambda>f.
     if map_of fs f \<noteq> None then Inl ''duplicate field''
     else bindR (deserialize_field C f v) (\<lambda>x. Inr (fs @ [(f, x)])))))"

definition field_num :: "token_fields \<Rightarrow> eat_field \<Rightarrow> nat option" where
  "field_num fs f = (case map_of fs f of Some (VNum n) \<Rightarrow> Some n | _ \<Rightarrow> None)"

definition field_bytes :: "token_fields \<Rightarrow> eat_field \<Rightarrow> bytes option" where
  "field_bytes fs f = (case map_of fs f of Some (VBytes b) \<Rightarrow> Some b | _ \<Rightarrow> None)"

definition need :: "'a option \<Rightarrow> string + 'a" where
  "need v = ok_or v ''missing field''"

definition or_default :: "bytes option \<Rightarrow> bytes" where
  "or_default v = (case v of None \<Rightarrow> [] | Some b \<Rightarrow> b)"

definition deserialize_token :: "cbor \<Rightarrow> cbor_value \<Rightarrow> string + EatToken" where
  "deserialize_token C v =
     bindR (de_map C v) (\<lambda>entries.
     bindR (foldR (visit_entry C) [] entries) (\<lambda>fs.
     bindR (need (field_num fs F_version)) (\<lambda>ver.
     bindR (need (field_bytes fs F_eat_profile)) (\<lambda>prof.
     bindR (need (field_bytes fs F_value_x)) (\<lambda>vx.
     bindR (need (field_num fs F_platform)) (\<lambda>pl.
     bindR (need (field_bytes fs F_platform_measurement)) (\<lambda>pm.
     bindR (need (field_bytes fs F_platform_quote)) (\<lambda>pq.
     bindR (need (field_bytes fs F_tls_spki_hash)) (\<lambda>spki.
     bindR (need (field_bytes fs F_source_hash)) (\<lambda>src.
     bindR (need (field_bytes fs F_artifact_hash)) (\<lambda>art.
     bindR (need (field_num fs F_iat)) (\<lambda>issued.
     bindR (need (field_bytes fs F_eat_nonce)) (\<lambda>nonce.
     Inr \<lparr>version = of_nat ver, eat_profile = prof,
          binding_suite = (case field_num fs F_binding_suite of None \<Rightarrow> 0 | Some n \<Rightarrow> of_nat n),
          value_x = vx, platform = of_nat pl, platform_measurement = pm, platform_quote = pq,
          tls_spki_hash = spki, source_hash = src, artifact_hash = art, iat = of_nat issued,
          eat_nonce = nonce, previous_attestation = or_default (field_bytes fs F_previous_attestation),
          gpu_evidence = or_default (field_bytes fs F_gpu_evidence),
          boot_evidence = or_default (field_bytes fs F_boot_evidence)\<rparr>)))))))))))))"

definition to_cbor :: "cbor \<Rightarrow> EatToken \<Rightarrow> EatError + bytes" where
  "to_cbor C t = map_err Encode (encode_value C (serialize_token t))"

definition from_cbor :: "cbor \<Rightarrow> bytes \<Rightarrow> EatError + EatToken" where
  "from_cbor C bs =
     (if length bs > 32 * 1024 * 1024 then Inl (Shape ''token exceeds 32 MiB'')
      else bindR (map_err Decode (bindR (decode_value C bs) (\<lambda>(v, position).
             bindR (deserialize_token C v) (\<lambda>token. Inr (token, position))))) (\<lambda>(token, position).
      if position \<noteq> length bs then Inl (Shape ''trailing CBOR data'')
      else bindR (validate_shape token) (\<lambda>_. Inr token)))"

definition decode_previous :: "cbor \<Rightarrow> EatToken \<Rightarrow> EatError + EatToken option" where
  "decode_previous C t =
     (if previous_attestation t = [] then Inr None
      else bindR (from_cbor C (previous_attestation t)) (\<lambda>p. Inr (Some p)))"

definition set_previous :: "EatToken \<Rightarrow> bytes \<Rightarrow> EatToken" where
  "set_previous t previous_cbor = t\<lparr>previous_attestation := previous_cbor\<rparr>"

section \<open>Construction\<close>

record BuildComponents =
  bc_platform :: Platform
  bc_value_x :: bytes
  bc_source_hash :: bytes
  bc_artifact_hash :: bytes
  bc_platform_measurement :: bytes
  bc_platform_quote :: bytes

text \<open>The clock (seconds since the epoch, 0 before it), the environment variable and the random
  generator are arguments.\<close>

definition from_build_with_nonce :: "u64 \<Rightarrow> BuildComponents \<Rightarrow> bytes \<Rightarrow> EatToken" where
  "from_build_with_nonce now c nonce =
     \<lparr>version = EAT_VERSION, eat_profile = EAT_PROFILE, binding_suite = BINDING_SUITE_V2_SHA256,
      value_x = bc_value_x c, platform = platform_to_u8 (bc_platform c),
      platform_measurement = bc_platform_measurement c, platform_quote = bc_platform_quote c,
      tls_spki_hash = replicate 32 0, source_hash = bc_source_hash c, artifact_hash = bc_artifact_hash c,
      iat = now, eat_nonce = nonce, previous_attestation = [], gpu_evidence = [], boot_evidence = []\<rparr>"

definition nonce_from_env :: "prims \<Rightarrow> str option \<Rightarrow> bytes option" where
  "nonce_from_env P env =
     (case env of
        None \<Rightarrow> None
      | Some hexv \<Rightarrow>
          let hexv = str_trim hexv in
          if hexv = [] then None
          else (case hex_decode P hexv of
              Some b \<Rightarrow> if length b = 32 then Some b else None
            | None \<Rightarrow> None))"

definition from_build :: "prims \<Rightarrow> str option \<Rightarrow> bytes \<Rightarrow> u64 \<Rightarrow> BuildComponents \<Rightarrow> EatToken" where
  "from_build P env random_nonce now c =
     from_build_with_nonce now c (case nonce_from_env P env of Some n \<Rightarrow> n | None \<Rightarrow> random_nonce)"

section \<open>What the binding commits to\<close>

text \<open>The fixed-size arrays of the code; the claims are the token without the quote and the measurement
  taken from it.\<close>

definition token_typed :: "EatToken \<Rightarrow> bool" where
  "token_typed t \<longleftrightarrow> length (value_x t) = 48 \<and> length (tls_spki_hash t) = 32 \<and> length (source_hash t) = 48 \<and>
     length (artifact_hash t) = 48 \<and> length (eat_nonce t) = 32"

definition claims :: "EatToken \<Rightarrow> EatToken" where
  "claims t = t\<lparr>platform_measurement := [], platform_quote := []\<rparr>"

definition eat_fields :: "prims \<Rightarrow> EatToken \<Rightarrow> bytes" where
  "eat_fields P t =
     be_bytes 4 (unat (version t)) @ be_bytes 4 (length (eat_profile t)) @ eat_profile t @ value_x t @
      [platform t] @ tls_spki_hash t @ source_hash t @ artifact_hash t @ be_bytes 8 (unat (iat t)) @
      eat_nonce t @ previous_hash P t"

lemma eat_fields_inject:
  assumes "token_typed t" "token_typed t'" "length (eat_profile t) < 2 ^ 32" "length (eat_profile t') < 2 ^ 32"
  shows "eat_fields P t = eat_fields P t' \<longleftrightarrow>
    version t = version t' \<and> eat_profile t = eat_profile t' \<and> value_x t = value_x t' \<and> platform t = platform t' \<and>
    tls_spki_hash t = tls_spki_hash t' \<and> source_hash t = source_hash t' \<and> artifact_hash t = artifact_hash t' \<and>
    iat t = iat t' \<and> eat_nonce t = eat_nonce t' \<and> previous_hash P t = previous_hash P t'"
  using assms(1,2) unfolding eat_fields_def token_typed_def
  by (auto simp: length_prefixed_inject [OF assms(3,4)])

definition binding_preimage :: "prims \<Rightarrow> EatToken \<Rightarrow> bytes" where
  "binding_preimage P t =
     (if binding_suite t = BINDING_SUITE_COMPOSITE then
        lit ''uq/eat/composite/v1'' @ [0] @ binding_bytes_v3 P t @
          be_bytes 8 (length (gpu_evidence t)) @ sha256 P (gpu_evidence t) @
          be_bytes 8 (length (boot_evidence t)) @ sha256 P (boot_evidence t)
      else if binding_suite t = BINDING_SUITE_V3_SHA256_DUAL then
        lit ''uq/eat/binding/v3'' @ [0] @ be_bytes 2 (unat (binding_suite t)) @ eat_fields P t
      else eat_fields P t)"

text \<open>The values that the code hashes for a token of a known suite.\<close>

definition hashed_values :: "prims \<Rightarrow> EatToken \<Rightarrow> bytes set" where
  "hashed_values P t =
     {binding_preimage P t} \<union> (if has_previous t then {previous_attestation t} else {}) \<union>
     (if binding_suite t = BINDING_SUITE_COMPOSITE
      then {gpu_evidence t, boot_evidence t,
            lit ''uq/eat/binding/v3'' @ [0] @ be_bytes 2 (unat (binding_suite t)) @ eat_fields P t}
      else {})"

definition no_zero_digest :: "prims \<Rightarrow> EatToken \<Rightarrow> bool" where
  "no_zero_digest P t \<longleftrightarrow> (has_previous t \<longrightarrow> sha256 P (previous_attestation t) \<noteq> replicate 32 0)"

lemma validate_shape_suite: "validate_shape t = Inr u \<Longrightarrow> binding_suite t \<in> {0, 1, 2}"
proof -
  assume "validate_shape t = Inr u"
  then have "binding_suite t \<le> 2" by (auto simp: validate_shape_def split: if_splits)
  then have "unat (binding_suite t) \<le> 2" by (simp add: word_le_nat_alt)
  then have "unat (binding_suite t) \<in> {unat (0 :: u16), unat (1 :: u16), unat (2 :: u16)}" by auto
  then show ?thesis by (auto simp only: word_unat_eq_iff insert_iff empty_iff)
qed

lemma validate_shape_Inr:
  assumes "validate_shape t = Inr u"
  shows "version t = 2" "length (eat_profile t) < 2 ^ 32"
    "binding_suite t \<noteq> 2 \<Longrightarrow> gpu_evidence t = [] \<and> boot_evidence t = []"
  using assms unfolding validate_shape_def EAT_VERSION_def EAT_PROFILE_ACCEPTED_def EAT_PROFILE_def
  by (auto split: if_splits)

lemma binding_bytes_preimage: "binding_suite t \<in> {0, 1, 2} \<Longrightarrow> binding_bytes P t = sha256 P (binding_preimage P t)"
  by (auto simp: binding_bytes_def binding_preimage_def binding_bytes_v2_def binding_bytes_v3_def eat_fields_def)

lemma binding_bytes_v3_fields:
  "binding_bytes_v3 P t = sha256 P (lit ''uq/eat/binding/v3'' @ [0] @ be_bytes 2 (unat (binding_suite t)) @ eat_fields P t)"
  by (simp add: binding_bytes_v3_def eat_fields_def)

text \<open>The suites are separated: the preimages start with the domain string of the suite, or with the
  version number for suite 0.\<close>

lemma eat_fields_hd: "version t = 2 \<Longrightarrow> eat_fields P t ! 0 = 0"
proof -
  have "be_bytes 4 2 = [0, 0, 0, 2]" by code_simp
  then show "version t = 2 \<Longrightarrow> ?thesis" by (simp add: eat_fields_def)
qed

lemma binding_preimage_tags:
  "binding_suite t = 2 \<Longrightarrow> binding_preimage P t ! 0 = 117 \<and> binding_preimage P t ! 7 = 99"
  "binding_suite t = 1 \<Longrightarrow> binding_preimage P t ! 0 = 117 \<and> binding_preimage P t ! 7 = 98"
  "binding_suite t = 0 \<Longrightarrow> version t = 2 \<Longrightarrow> binding_preimage P t ! 0 = 0"
  using eat_fields_hd [of t P] by (simp_all add: binding_preimage_def)

lemma binding_preimage_suite:
  assumes "binding_suite t \<in> {0, 1, 2}" "binding_suite t' \<in> {0, 1, 2}" "version t = 2" "version t' = 2"
    and eq: "binding_preimage P t = binding_preimage P t'"
  shows "binding_suite t = binding_suite t'"
proof -
  have "(117 :: byte) \<noteq> 0" "(99 :: byte) \<noteq> 98" by simp_all
  then show ?thesis
    using assms(1-4) binding_preimage_tags [of t P] binding_preimage_tags [of t' P]
    unfolding eq insert_iff empty_iff by metis
qed

lemma previous_hash_inject:
  assumes "inj_on (sha256 P) (hashed_values P t \<union> hashed_values P t')" "no_zero_digest P t" "no_zero_digest P t'"
    and "previous_hash P t = previous_hash P t'"
  shows "previous_attestation t = previous_attestation t'"
  using assms(2-) inj_onD [OF assms(1), of "previous_attestation t" "previous_attestation t'"]
  by (auto simp: previous_hash_def no_zero_digest_def hashed_values_def has_previous_def split: if_splits)

lemma binding_bytes_claims: "binding_bytes P (claims t) = binding_bytes P t"
  by (simp add: claims_def binding_bytes_def binding_bytes_v2_def binding_bytes_v3_def previous_hash_def)

lemma claims_eqI:
  assumes "version t = version t'" "eat_profile t = eat_profile t'" "binding_suite t = binding_suite t'"
    "value_x t = value_x t'" "platform t = platform t'" "tls_spki_hash t = tls_spki_hash t'"
    "source_hash t = source_hash t'" "artifact_hash t = artifact_hash t'" "iat t = iat t'"
    "eat_nonce t = eat_nonce t'" "previous_attestation t = previous_attestation t'"
    "gpu_evidence t = gpu_evidence t'" "boot_evidence t = boot_evidence t'"
  shows "claims t = claims t'"
  using assms by (cases t; cases t') (simp add: claims_def)

definition commits :: "prims \<Rightarrow> EatToken \<Rightarrow> EatToken \<Rightarrow> bool" where
  "commits P t t' \<longleftrightarrow>
     token_typed t \<and> token_typed t' \<and> validate_shape t = Inr () \<and> validate_shape t' = Inr () \<and>
     no_zero_digest P t \<and> no_zero_digest P t' \<and> inj_on (sha256 P) (hashed_values P t \<union> hashed_values P t')"

lemma length_binding_bytes_v3: "digest_sizes P \<Longrightarrow> length (binding_bytes_v3 P t) = 32"
  by (simp add: binding_bytes_v3_def)

lemma commits_evidence:
  assumes "digest_sizes P" "commits P t t'" "binding_preimage P t = binding_preimage P t'" "binding_suite t = 2" "binding_suite t' = 2"
  shows "eat_fields P t = eat_fields P t' \<and> gpu_evidence t = gpu_evidence t' \<and> boot_evidence t = boot_evidence t'"
proof -
  have eq: "binding_bytes_v3 P t = binding_bytes_v3 P t'" "sha256 P (gpu_evidence t) = sha256 P (gpu_evidence t')"
      "sha256 P (boot_evidence t) = sha256 P (boot_evidence t')"
    using assms(3,4,5) length_binding_bytes_v3 [OF assms(1), of t] length_binding_bytes_v3 [OF assms(1), of t']
      digest_sizesD(1) [OF assms(1)]
    by (simp_all add: binding_preimage_def)
  have inj: "inj_on (sha256 P) (hashed_values P t \<union> hashed_values P t')" using assms(2) by (simp add: commits_def)
  have "gpu_evidence t = gpu_evidence t'"
    using eq(2) by (rule inj_onD [OF inj]) (simp_all add: hashed_values_def assms(4,5))
  moreover have "boot_evidence t = boot_evidence t'"
    using eq(3) by (rule inj_onD [OF inj]) (simp_all add: hashed_values_def assms(4,5))
  moreover have "lit ''uq/eat/binding/v3'' @ [0] @ be_bytes 2 (unat (binding_suite t)) @ eat_fields P t =
      lit ''uq/eat/binding/v3'' @ [0] @ be_bytes 2 (unat (binding_suite t')) @ eat_fields P t'"
    using eq(1) unfolding binding_bytes_v3_fields by (rule inj_onD [OF inj]) (simp_all only: hashed_values_def Un_iff insert_iff simp_thms assms(4,5) if_True)
  ultimately show ?thesis using assms(4,5) by simp
qed

lemma commits_claims:
  assumes "digest_sizes P" "commits P t t'" "binding_bytes P t = binding_bytes P t'"
  shows "claims t = claims t'"
proof -
  note v = assms(2) [unfolded commits_def]
  note s = validate_shape_Inr [of t "()"] validate_shape_Inr [of t' "()"] validate_shape_suite [of t "()"] validate_shape_suite [of t' "()"]
  have pre: "binding_preimage P t = binding_preimage P t'"
    using assms(3) v s inj_onD [of "sha256 P" "hashed_values P t \<union> hashed_values P t'" "binding_preimage P t" "binding_preimage P t'"]
    by (simp add: binding_bytes_preimage) (simp add: hashed_values_def)
  have suite: "binding_suite t = binding_suite t'"
    by (rule binding_preimage_suite [OF _ _ _ _ pre]) (use v s in blast)+
  have "eat_fields P t = eat_fields P t' \<and> gpu_evidence t = gpu_evidence t' \<and> boot_evidence t = boot_evidence t'"
  proof (cases "binding_suite t = 2")
    case True
    with commits_evidence [OF assms(1,2) pre] suite show ?thesis by simp
  next
    case False
    then show ?thesis using pre suite v s by (auto simp: binding_preimage_def split: if_splits)
  qed
  moreover have "eat_fields P t = eat_fields P t' \<Longrightarrow> previous_attestation t = previous_attestation t'"
    using v s previous_hash_inject [of P t t'] eat_fields_inject [of t t' P] by blast
  ultimately show ?thesis
    using suite v s eat_fields_inject [of t t' P] by (intro claims_eqI) blast+
qed

text \<open>The second half of the report data: the values hashed for a challenge, and that a challenge digest
  is not mistaken for the plain identity prefix of a token without one.\<close>

definition challenge_inputs :: "EatToken \<Rightarrow> bytes option \<Rightarrow> bytes set" where
  "challenge_inputs t ch = (case ch of None \<Rightarrow> {} | Some c \<Rightarrow> {SECOND_COMMITMENT_DOMAIN @ c @ take 32 (value_x t)})"

definition challenge_commits :: "prims \<Rightarrow> EatToken \<Rightarrow> EatToken \<Rightarrow> bytes option \<Rightarrow> bytes option \<Rightarrow> bool" where
  "challenge_commits P t t' ch ch' \<longleftrightarrow>
     (\<forall>c. ch = Some c \<or> ch' = Some c \<longrightarrow> length c = 32) \<and>
     inj_on (sha256 P) (challenge_inputs t ch \<union> challenge_inputs t' ch') \<and>
     (\<forall>x \<in> challenge_inputs t ch \<union> challenge_inputs t' ch'.
        sha256 P x \<noteq> take 32 (value_x t) \<and> sha256 P x \<noteq> take 32 (value_x t'))"

lemma length_binding_bytes: "digest_sizes P \<Longrightarrow> length (binding_bytes P t) = 32"
  by (simp add: binding_bytes_def binding_bytes_v2_def binding_bytes_v3_def)

lemma report_data_length: "digest_sizes P \<Longrightarrow> token_typed t \<Longrightarrow> length (report_data_64 P t ch) = 64"
  by (auto simp: report_data_64_def length_binding_bytes second_commitment_def token_typed_def split: option.splits)

lemma second_commitment_challenge:
  assumes cc: "challenge_commits P t t' ch ch'" and eq: "second_commitment P t ch = second_commitment P t' ch'"
  shows "ch = ch'"
proof -
  let ?in = "\<lambda>u c. SECOND_COMMITMENT_DOMAIN @ c @ take 32 (value_x u)"
  have inj: "inj_on (sha256 P) (challenge_inputs t ch \<union> challenge_inputs t' ch')"
    and len: "\<And>c. ch = Some c \<or> ch' = Some c \<Longrightarrow> length c = 32"
    and plain: "\<And>x. x \<in> challenge_inputs t ch \<union> challenge_inputs t' ch' \<Longrightarrow>
      sha256 P x \<noteq> take 32 (value_x t) \<and> sha256 P x \<noteq> take 32 (value_x t')"
    using cc unfolding challenge_commits_def by blast+
  consider "ch = None" "ch' = None" | c where "ch = Some c" "ch' = None" | c' where "ch = None" "ch' = Some c'"
    | c c' where "ch = Some c" "ch' = Some c'"
    by (cases ch; cases ch') auto
  then show ?thesis
  proof cases
    case (2 c)
    have "?in t c \<in> challenge_inputs t ch \<union> challenge_inputs t' ch'" by (simp add: challenge_inputs_def 2)
    from plain [OF this] show ?thesis using eq by (simp add: second_commitment_def 2)
  next
    case (3 c')
    have "?in t' c' \<in> challenge_inputs t ch \<union> challenge_inputs t' ch'" by (simp add: challenge_inputs_def 3)
    from plain [OF this] show ?thesis using eq by (simp add: second_commitment_def 3)
  next
    case (4 c c')
    have "sha256 P (?in t c) = sha256 P (?in t' c')" using eq by (simp add: second_commitment_def 4)
    then have "?in t c = ?in t' c'"
      by (rule inj_onD [OF inj]) (simp_all add: challenge_inputs_def 4)
    then show ?thesis using len [of c] len [of c'] 4 by simp
  qed simp
qed

lemma report_data_claims:
  assumes "digest_sizes P" and "commits P t t'" and "challenge_commits P t t' ch ch'"
  shows "report_data_64 P t ch = report_data_64 P t' ch' \<longleftrightarrow> claims t = claims t' \<and> ch = ch'"
proof
  assume "report_data_64 P t ch = report_data_64 P t' ch'"
  then have "binding_bytes P t = binding_bytes P t'" "second_commitment P t ch = second_commitment P t' ch'"
    using length_binding_bytes [OF assms(1)] by (simp_all add: report_data_64_def)
  then show "claims t = claims t' \<and> ch = ch'"
    using commits_claims [OF assms(1,2)] second_commitment_challenge [OF assms(3)] by simp
next
  assume eq: "claims t = claims t' \<and> ch = ch'"
  then have "value_x (claims t) = value_x (claims t')" by simp
  then have "value_x t = value_x t'" by (simp add: claims_def)
  moreover have "binding_bytes P t = binding_bytes P t'"
    using eq binding_bytes_claims [of P t] binding_bytes_claims [of P t'] by simp
  ultimately show "report_data_64 P t ch = report_data_64 P t' ch'"
    using eq by (cases ch') (simp_all add: report_data_64_def second_commitment_def)
qed

section \<open>Decoding and building\<close>

text \<open>What the code relies on of \<open>ciborium\<close> and \<open>serde_bytes\<close>: a written value is read back whole, no
  value has an empty encoding, and a map or a scalar of the requested kind is given back.\<close>

definition cbor_laws :: "cbor \<Rightarrow> bool" where
  "cbor_laws C \<longleftrightarrow>
     (\<forall>v bs. encode_value C v = Inr bs \<longrightarrow> decode_value C bs = Inr (v, length bs) \<and> bs \<noteq> []) \<and>
     (\<forall>es. de_map C (CMap es) = Inr es) \<and> (\<forall>s. de_identifier C (CText s) = Inr s \<and> de_string C (CText s) = Inr s) \<and>
     (\<forall>b n. n < b \<longrightarrow> de_unsigned C b (CInteger (int n)) = Inr n) \<and>
     (\<forall>b. de_byte_buf C (CBytes b) = Inr b \<and> de_u8_seq C (CBytes b) = Inr b)"

lemma field_of_field_name: "field_of_name (field_name f) = Some f"
  by (cases f) (simp_all add: field_of_name_def all_fields_def)

definition plain_value :: "cbor_value \<Rightarrow> field_value" where
  "plain_value v = (case v of CInteger n \<Rightarrow> VNum (nat n) | CBytes b \<Rightarrow> VBytes b | CText s \<Rightarrow> VBytes s | _ \<Rightarrow> VNum 0)"

definition plain_entries :: "(eat_field \<times> cbor_value) list \<Rightarrow> token_fields" where
  "plain_entries es = map (\<lambda>(f, v). (f, plain_value v)) es"

lemma plain_entries_simps [simp]:
  "plain_entries [] = []" "plain_entries ((f, v) # es) = (f, plain_value v) # plain_entries es"
  "plain_entries (es @ es') = plain_entries es @ plain_entries es'"
  by (simp_all add: plain_entries_def)

lemma plain_entries_keys: "fst ` set (plain_entries es) = fst ` set es"
  by (force simp: plain_entries_def)

text \<open>Every field is written once, in a form that its reader accepts.\<close>

lemma deserialize_field_plain:
  assumes "cbor_laws C"
  shows "field_type f = FUint w \<Longrightarrow> unat x < 2 ^ w \<Longrightarrow> deserialize_field C f (CInteger (uint x)) = Inr (plain_value (CInteger (uint x)))"
    "field_type f = FString \<Longrightarrow> deserialize_field C f (CText s) = Inr (plain_value (CText s))"
    "field_type f = FBytes \<Longrightarrow> deserialize_field C f (CBytes b) = Inr (plain_value (CBytes b))"
    "field_type f = FArray k \<Longrightarrow> length b = k \<Longrightarrow> deserialize_field C f (CBytes b) = Inr (plain_value (CBytes b))"
proof -
  assume f: "field_type f = FUint w" "unat x < 2 ^ w"
  have "de_unsigned C (2 ^ w) (CInteger (int (unat x))) = Inr (unat x)"
    using assms f(2) unfolding cbor_laws_def by blast
  then show "deserialize_field C f (CInteger (uint x)) = Inr (plain_value (CInteger (uint x)))"
    using f(1) by (simp add: deserialize_field_def plain_value_def)
qed (use assms in \<open>simp_all add: deserialize_field_def de_array_def plain_value_def cbor_laws_def\<close>)

lemma serialize_fields_read:
  assumes "cbor_laws C" and "token_typed t" and "(f, v) \<in> set (serialize_fields t)"
  shows "deserialize_field C f v = Inr (plain_value v)"
proof -
  have u: "unat (version t) < 2 ^ 32" "unat (binding_suite t) < 2 ^ 16" "unat (platform t) < 2 ^ 8" "unat (iat t) < 2 ^ 64"
    using unat_bound [of "version t"] unat_bound [of "binding_suite t"] unat_bound [of "platform t"] unat_bound [of "iat t"]
    by simp_all
  note read = deserialize_field_plain [OF assms(1)]
  have len: "length (value_x t) = 48" "length (tls_spki_hash t) = 32" "length (source_hash t) = 48"
      "length (artifact_hash t) = 48" "length (eat_nonce t) = 32"
    using assms(2) by (simp_all add: token_typed_def)
  let ?ok = "\<lambda>(f, v). deserialize_field C f v = Inr (plain_value v)"
  have "list_all ?ok (serialize_fields t)"
    unfolding serialize_fields_def list_all_append
    by (simp add: read(1) [OF _ u(1)] read(1) [OF _ u(2)] read(1) [OF _ u(3)] read(1) [OF _ u(4)] read(2,3)
        read(4) [OF _ len(1)] read(4) [OF _ len(2)] read(4) [OF _ len(3)] read(4) [OF _ len(4)] read(4) [OF _ len(5)])
  then show ?thesis
    using assms(3) by (auto simp: list_all_iff)
qed

lemma serialize_fields_distinct: "distinct (map fst (serialize_fields t))"
  by (simp add: serialize_fields_def)

lemma visit_entries:
  assumes "cbor_laws C" and "distinct (map fst (fs @ es))"
    and "\<And>f v. (f, v) \<in> set es \<Longrightarrow> deserialize_field C f v = Inr (plain_value v)"
  shows "foldR (visit_entry C) (plain_entries fs) (map (\<lambda>(f, v). (CText (field_name f), v)) es) =
    Inr (plain_entries (fs @ es))"
  using assms(2,3)
proof (induction es arbitrary: fs)
  case (Cons e es)
  obtain f v where e: "e = (f, v)" by (cases e)
  have new: "map_of (plain_entries fs) f = None"
    using Cons.prems(1) by (auto simp: e map_of_eq_None_iff plain_entries_keys)
  have id: "de_identifier C (CText s) = Inr s" for s
    using assms(1) by (simp add: cbor_laws_def)
  have step: "visit_entry C (plain_entries fs) (CText (field_name f), v) =
      Inr (plain_entries (fs @ [(f, v)]))"
    using Cons.prems(2) [of f v] by (simp add: visit_entry_def id ok_or_def field_of_field_name new e)
  show ?case
    using Cons.IH [of "fs @ [(f, v)]"] Cons.prems by (simp add: step [simplified] e)
qed simp

text \<open>The derive gives back the token that was serialized.\<close>

lemma deserialize_serialize:
  assumes "cbor_laws C" and "token_typed t"
  shows "deserialize_token C (serialize_token t) = Inr t"
proof -
  let ?fs = "plain_entries (serialize_fields t)"
  have fold: "foldR (visit_entry C) [] (map (\<lambda>(f, v). (CText (field_name f), v)) (serialize_fields t)) = Inr ?fs"
    using visit_entries [OF assms(1), of "[]" "serialize_fields t"] serialize_fields_distinct
      serialize_fields_read [OF assms] by simp
  have num: "field_num ?fs F_version = Some (unat (version t))" "field_num ?fs F_platform = Some (unat (platform t))"
      "field_num ?fs F_iat = Some (unat (iat t))"
      "field_num ?fs F_binding_suite = (if is_default_suite (binding_suite t) then None else Some (unat (binding_suite t)))"
    by (simp_all add: field_num_def serialize_fields_def plain_value_def)
  have bytes: "field_bytes ?fs F_eat_profile = Some (eat_profile t)" "field_bytes ?fs F_value_x = Some (value_x t)"
      "field_bytes ?fs F_platform_measurement = Some (platform_measurement t)"
      "field_bytes ?fs F_platform_quote = Some (platform_quote t)" "field_bytes ?fs F_tls_spki_hash = Some (tls_spki_hash t)"
      "field_bytes ?fs F_source_hash = Some (source_hash t)" "field_bytes ?fs F_artifact_hash = Some (artifact_hash t)"
      "field_bytes ?fs F_eat_nonce = Some (eat_nonce t)"
    by (simp_all add: field_bytes_def serialize_fields_def plain_value_def)
  have opt: "or_default (field_bytes ?fs F_previous_attestation) = previous_attestation t"
      "or_default (field_bytes ?fs F_gpu_evidence) = gpu_evidence t"
      "or_default (field_bytes ?fs F_boot_evidence) = boot_evidence t"
    by (simp_all add: or_default_def field_bytes_def serialize_fields_def plain_value_def)
  have "de_map C (CMap es) = Inr es" for es
    using assms(1) by (simp add: cbor_laws_def)
  then show ?thesis
    by (simp add: serialize_token_def deserialize_token_def fold num bytes opt need_def ok_or_def is_default_suite_def)
qed

text \<open>What is read has the lengths of the arrays of the code.\<close>

definition fields_typed :: "token_fields \<Rightarrow> bool" where
  "fields_typed fs \<longleftrightarrow> (\<forall>f n b. map_of fs f = Some (VBytes b) \<and> field_type f = FArray n \<longrightarrow> length b = n)"

lemma deserialize_field_length:
  "deserialize_field C f v = Inr (VBytes b) \<Longrightarrow> field_type f = FArray n \<Longrightarrow> length b = n"
  by (auto simp: deserialize_field_def de_array_def result_simps)

lemma visit_entry_typed:
  assumes "visit_entry C fs kv = Inr fs'" and "fields_typed fs"
  shows "fields_typed fs'"
proof -
  obtain f v x where "map_of fs f = None" "deserialize_field C f v = Inr x" "fs' = fs @ [(f, x)]"
    using assms(1) by (auto simp: visit_entry_def result_simps split: prod.splits)
  then show ?thesis
    using assms(2) deserialize_field_length [of C f v]
    by (auto simp: fields_typed_def map_add_def split: option.splits if_splits)
qed

lemma fields_typedD: "fields_typed fs \<Longrightarrow> field_bytes fs f = Some b \<Longrightarrow> field_type f = FArray n \<Longrightarrow> length b = n"
  by (auto simp: fields_typed_def field_bytes_def split: option.splits field_value.splits)

lemma deserialize_token_typed:
  assumes "deserialize_token C v = Inr t"
  shows "token_typed t"
proof -
  obtain entries fs where fs: "foldR (visit_entry C) [] entries = Inr fs"
    and t: "field_bytes fs F_value_x = Some (value_x t)" "field_bytes fs F_tls_spki_hash = Some (tls_spki_hash t)"
      "field_bytes fs F_source_hash = Some (source_hash t)" "field_bytes fs F_artifact_hash = Some (artifact_hash t)"
      "field_bytes fs F_eat_nonce = Some (eat_nonce t)"
    using assms by (auto simp: deserialize_token_def need_def result_simps)
  have "fields_typed fs"
    using fs by (rule foldR_invariant) (simp add: fields_typed_def, rule visit_entry_typed)
  note len = fields_typedD [OF this]
  show ?thesis
    using len [OF t(1)] len [OF t(2)] len [OF t(3)] len [OF t(4)] len [OF t(5)]
    by (simp add: token_typed_def)
qed

lemma from_cbor_Inr_iff:
  "from_cbor C bs = Inr t \<longleftrightarrow>
     length bs \<le> 32 * 1024 * 1024 \<and>
     (\<exists>v. decode_value C bs = Inr (v, length bs) \<and> deserialize_token C v = Inr t) \<and> validate_shape t = Inr ()"
  by (auto simp: from_cbor_def result_simps)

lemma to_cbor_from_cbor:
  assumes "cbor_laws C" "token_typed t" "to_cbor C t = Inr bs" "length bs \<le> 32 * 1024 * 1024"
  shows "from_cbor C bs = (case validate_shape t of Inl e \<Rightarrow> Inl e | Inr _ \<Rightarrow> Inr t)"
proof -
  have "decode_value C bs = Inr (serialize_token t, length bs)"
    using assms(1,3) by (auto simp: to_cbor_def cbor_laws_def result_simps)
  then show ?thesis
    using assms(4) deserialize_serialize [OF assms(1,2)]
    by (auto simp: from_cbor_def map_err_def split: sum.splits)
qed

lemma platform_roundtrip: "platform t = platform_to_u8 p \<Longrightarrow> platform_enum t = Some p"
  by (cases p) (simp_all add: platform_enum_def platform_to_u8_def)

lemma platform_enum_Some: "platform_enum t = Some p \<Longrightarrow> platform t = platform_to_u8 p"
  by (auto simp: platform_enum_def platform_to_u8_def split: if_splits)

lemma from_build_shape:
  "is_ok (validate_shape (from_build_with_nonce now c nonce)) \<longleftrightarrow>
     bc_platform c \<notin> {AzureSnpVtpm, AwsSnpNitroTpm} \<and> length (bc_platform_quote c) \<le> 4 * 1024 * 1024"
proof -
  let ?t = "from_build_with_nonce now c nonce"
  have "platform_enum ?t = Some (bc_platform c)"
    by (rule platform_roundtrip) (simp add: from_build_with_nonce_def)
  moreover have "platform ?t \<in> {4, 5} \<longleftrightarrow> bc_platform c \<in> {AzureSnpVtpm, AwsSnpNitroTpm}"
    by (cases "bc_platform c") (simp_all add: from_build_with_nonce_def platform_to_u8_def)
  ultimately show ?thesis
    unfolding validate_shape_def
    by (auto simp: is_ok_iff from_build_with_nonce_def EAT_PROFILE_ACCEPTED_def not_less)
qed

section \<open>Concrete tokens\<close>

definition demo_mix :: "bytes \<Rightarrow> bytes" where
  "demo_mix x = take 32 (drop 32 (rev x) @ replicate 32 0)"

definition mix_prims :: prims where
  "mix_prims = demo_prims\<lparr>sha256 := demo_mix\<rparr>"

lemma mix_digest_sizes [simp]: "digest_sizes mix_prims"
  by (auto simp: mix_prims_def digest_sizes_def demo_mix_def demo_prims_def min_def)

definition demo_token :: "byte \<Rightarrow> EatToken" where
  "demo_token b = \<lparr>version = 2, eat_profile = EAT_PROFILE, binding_suite = 1, value_x = replicate 48 7, platform = 3,
     platform_measurement = [], platform_quote = [], tls_spki_hash = replicate 32 1, source_hash = replicate 48 2,
     artifact_hash = replicate 48 3, iat = 5, eat_nonce = replicate 32 b, previous_attestation = [],
     gpu_evidence = [], boot_evidence = []\<rparr>"

lemma demo_token_ok: "token_typed (demo_token b)" "validate_shape (demo_token b) = Inr ()" "no_zero_digest P (demo_token b)"
  by (simp_all add: demo_token_def token_typed_def validate_shape_def EAT_VERSION_def EAT_PROFILE_ACCEPTED_def
      platform_enum_def no_zero_digest_def has_previous_def)

lemma demo_mix_binding: "demo_mix (binding_preimage P (demo_token b)) = replicate 32 b"
  by (simp add: binding_preimage_def demo_token_def eat_fields_def previous_hash_def demo_mix_def del: list.map)

lemma demo_commits: "commits mix_prims (demo_token 0) (demo_token 1)"
proof -
  have "hashed_values mix_prims (demo_token b) = {binding_preimage mix_prims (demo_token b)}" for b
    by (simp add: hashed_values_def demo_token_def has_previous_def)
  then show ?thesis
    by (simp add: commits_def demo_token_ok inj_on_def mix_prims_def demo_mix_binding)
qed

definition demo_cbor :: cbor where
  "demo_cbor = \<lparr>encode_value = (\<lambda>v. if v = serialize_token (demo_token 0) then Inr [1] else Inl ''other''),
     decode_value = (\<lambda>bs. if bs = [1] then Inr (serialize_token (demo_token 0), 1) else Inl ''other''),
     de_map = (\<lambda>v. case v of CMap es \<Rightarrow> Inr es | _ \<Rightarrow> Inl ''map''),
     de_identifier = (\<lambda>v. case v of CText s \<Rightarrow> Inr s | _ \<Rightarrow> Inl ''identifier''),
     de_string = (\<lambda>v. case v of CText s \<Rightarrow> Inr s | _ \<Rightarrow> Inl ''string''),
     de_unsigned = (\<lambda>b v. case v of CInteger n \<Rightarrow> if 0 \<le> n \<and> n < int b then Inr (nat n) else Inl ''range'' | _ \<Rightarrow> Inl ''integer''),
     de_byte_buf = (\<lambda>v. case v of CBytes b \<Rightarrow> Inr b | _ \<Rightarrow> Inl ''bytes''),
     de_u8_seq = (\<lambda>v. case v of CBytes b \<Rightarrow> Inr b | _ \<Rightarrow> Inl ''sequence'')\<rparr>"

lemma demo_cbor_laws: "cbor_laws demo_cbor"
  by (auto simp: cbor_laws_def demo_cbor_def split: if_splits)

section \<open>Properties\<close>

text \<open>C20. The binding commits to exactly the claims: two well-shaped tokens have the same binding if and
  only if they agree on every field other than the quote and the measurement taken from it, whatever
  their binding suites, as long as the hash does not collide on the values hashed for them. In
  particular the binding is the same before and after the quote is written back.\<close>

theorem eat_binding_exact:
  assumes "digest_sizes P" and "commits P t t'"
  shows "binding_bytes P t = binding_bytes P t' \<longleftrightarrow> claims t = claims t'"
  using commits_claims [OF assms] binding_bytes_claims [of P t] binding_bytes_claims [of P t'] by metis

theorem eat_binding_exact_witness:
  "binding_bytes mix_prims (demo_token 0) \<noteq> binding_bytes mix_prims (demo_token 1)"
proof -
  have "claims (demo_token 0) \<noteq> claims (demo_token 1)"
    by (simp add: claims_def demo_token_def)
  then show ?thesis
    using eat_binding_exact [OF mix_digest_sizes demo_commits] by blast
qed

text \<open>C21. The 64 bytes of report data commit to the claims of the token and to the challenge of the
  verifier: two well-shaped tokens with their challenges have the same report data if and only if
  they agree on every claim and on the challenge, including whether there is one, as long as the
  hash does not collide on the values hashed and no challenge digest is the plain prefix of an
  application identity.\<close>

theorem report_data_exact:
  assumes "digest_sizes P" and "commits P t t'" and "challenge_commits P t t' ch ch'"
  shows "length (report_data_64 P t ch) = 64 \<and>
    (report_data_64 P t ch = report_data_64 P t' ch' \<longleftrightarrow> claims t = claims t' \<and> ch = ch')"
  using report_data_length [OF assms(1)] report_data_claims [OF assms] assms(2)
  by (auto simp: commits_def)

theorem report_data_exact_witness:
  "report_data_64 mix_prims (demo_token 0) (Some (replicate 32 1)) \<noteq>
     report_data_64 mix_prims (demo_token 0) None"
proof -
  have c: "commits mix_prims (demo_token 0) (demo_token 0)"
    using demo_commits by (auto simp: commits_def inj_on_def)
  have "challenge_commits mix_prims (demo_token 0) (demo_token 0) (Some (replicate 32 1)) None"
    by (simp add: challenge_commits_def challenge_inputs_def mix_prims_def demo_mix_def demo_token_def SECOND_COMMITMENT_DOMAIN_def)
  from report_data_exact [OF mix_digest_sizes c this] show ?thesis by simp
qed

text \<open>C22. Decoding inverts encoding through the field names, omitted defaults and byte helpers of the
  wire format: the encoding of a token decodes to that token when it is well shaped and to the error
  of the shape check otherwise, also where optional fields were left out; as the previous stage of
  another token it is given back. Whatever decodes is well shaped and has arrays of the right length.\<close>

theorem eat_cbor_roundtrip:
  assumes "cbor_laws C" and "token_typed t" and "to_cbor C t = Inr bs" and "length bs \<le> 32 * 1024 * 1024"
  shows "from_cbor C bs = (case validate_shape t of Inl e \<Rightarrow> Inl e | Inr _ \<Rightarrow> Inr t) \<and>
    (is_ok (validate_shape t) \<longrightarrow> decode_previous C (set_previous t' bs) = Inr (Some t)) \<and>
    (from_cbor C bs' = Inr t'' \<longrightarrow> token_typed t'' \<and> validate_shape t'' = Inr ())"
proof -
  have "bs \<noteq> []" using assms(1,3) by (auto simp: cbor_laws_def to_cbor_def result_simps)
  then show ?thesis
    using to_cbor_from_cbor [OF assms] deserialize_token_typed
    by (auto simp: decode_previous_def set_previous_def is_ok_iff result_simps from_cbor_Inr_iff)
qed

theorem eat_cbor_roundtrip_witness: "from_cbor demo_cbor [1] = Inr (demo_token 0)"
  using eat_cbor_roundtrip [OF demo_cbor_laws demo_token_ok(1), of 0 "[1]"] demo_token_ok(2)
  by (simp add: to_cbor_def demo_cbor_def map_err_def)

text \<open>C23. Which build tokens are well shaped: exactly those of a platform that is not a TPM composite
  and whose quote is at most 4 MiB; for the composite platforms a build token, which uses suite 0, is
  rejected on decoding.\<close>

theorem from_build_shape_exact:
  "is_ok (validate_shape (from_build P env random_nonce now c)) \<longleftrightarrow>
     bc_platform c \<notin> {AzureSnpVtpm, AwsSnpNitroTpm} \<and> length (bc_platform_quote c) \<le> 4 * 1024 * 1024"
  unfolding from_build_def by (rule from_build_shape)

end
