(* ===== verification/Relay.thy ===== *)
theory Relay
  imports Eat
begin

text \<open>
  Relay credentials (\<open>v2/src/relay.rs\<close>): one-time challenges, the device binding, issuing a credential
  in a bootstrap, holder-of-key presentations and the two replay stores. Ed25519 is a parameter. The
  lemmas show that the signed encodings are injective, that an accepted presentation carries both
  signatures over fresh values, that a credential issued by a bootstrap is accepted for its device,
  and, over any sequence of requests, that no nonce is consumed twice.
\<close>

section \<open>Errors, keys and challenges\<close>

datatype RelayError =
    InvalidPublicKey
  | InvalidSignature
  | DeviceBindingMismatch
  | BootstrapReplay
  | PresentationReplay
  | ChallengeExpired
  | TimeOverflow
  | IssuerSignatureInvalid
  | Expired
  | NotYetValid
  | ProofOfPossession
  | TeeAttestation string
  | DeviceAttestation string

text \<open>\<open>ed25519_dalek\<close>: the public key of a signing key, signing, the check of an encoded public key,
  and verification. Keys and signatures are their encodings.\<close>

record ed25519 =
  verifying_key :: "bytes \<Rightarrow> bytes"
  ed_sign :: "bytes \<Rightarrow> bytes \<Rightarrow> bytes"
  ed_valid_key :: "bytes \<Rightarrow> bool"
  ed_verify :: "bytes \<Rightarrow> bytes \<Rightarrow> bytes \<Rightarrow> bool"

definition CRED_DOMAIN :: bytes where "CRED_DOMAIN = lit ''uq/relay/credential'' @ [0]"
definition CHALLENGE_DOMAIN :: bytes where "CHALLENGE_DOMAIN = lit ''uq/relay/challenge'' @ [0]"
definition BIND_DOMAIN :: bytes where "BIND_DOMAIN = lit ''uq/relay/device-binding'' @ [0]"
definition POP_DOMAIN :: bytes where "POP_DOMAIN = lit ''uq/relay/proof-of-possession'' @ [0]"

abbreviation SKEW_SECS :: u64 where "SKEW_SECS \<equiv> 60"

definition put_field :: "bytes \<Rightarrow> bytes \<Rightarrow> bytes" where
  "put_field buf fld = buf @ be_bytes 4 (length fld) @ fld"

record RelayChallenge =
  nonce :: bytes
  expires_at :: u64
  context_bytes :: bytes

definition challenge_new :: "bytes \<Rightarrow> u64 \<Rightarrow> u64 \<Rightarrow> bytes \<Rightarrow> RelayError + RelayChallenge" where
  "challenge_new n now ttl_secs ctxt =
     bindR (ok_or (checked_add now ttl_secs) TimeOverflow) (\<lambda>expires.
     Inr \<lparr>nonce = n, expires_at = expires, context_bytes = ctxt\<rparr>)"

definition ensure_fresh :: "RelayChallenge \<Rightarrow> u64 \<Rightarrow> RelayError + unit" where
  "ensure_fresh c now = (if now > expires_at c then Inl ChallengeExpired else Inr ())"

definition challenge_bytes :: "RelayChallenge \<Rightarrow> bytes" where
  "challenge_bytes c =
     put_field (CHALLENGE_DOMAIN @ nonce c @ be_bytes 8 (unat (expires_at c))) (context_bytes c)"

definition device_binding :: "prims \<Rightarrow> bytes \<Rightarrow> bytes \<Rightarrow> RelayChallenge \<Rightarrow> bytes" where
  "device_binding P device_pubkey tee_value_x challenge =
     sha256 P (BIND_DOMAIN @ device_pubkey @ be_bytes 4 (length tee_value_x) @ tee_value_x @ challenge_bytes challenge)"

section \<open>Credentials\<close>

record RelayCredential =
  device_pubkey :: bytes
  rc_platform :: str
  rc_value_x :: bytes
  rc_tee_value_x :: bytes
  issued_at :: u64
  expiry :: u64
  rc_sig :: bytes

definition credential_bytes :: "RelayCredential \<Rightarrow> bytes" where
  "credential_bytes c =
     put_field (put_field (put_field (put_field CRED_DOMAIN (device_pubkey c)) (rc_platform c))
       (rc_value_x c)) (rc_tee_value_x c) @
     be_bytes 8 (unat (issued_at c)) @ be_bytes 8 (unat (expiry c))"

definition vk_from_slice :: "ed25519 \<Rightarrow> bytes \<Rightarrow> RelayError + bytes" where
  "vk_from_slice E b = (if length b \<noteq> 32 \<or> \<not> ed_valid_key E b then Inl InvalidPublicKey else Inr b)"

definition sig_from_slice :: "bytes \<Rightarrow> RelayError + bytes" where
  "sig_from_slice b = (if length b \<noteq> 64 then Inl InvalidSignature else Inr b)"

text \<open>The sum \<open>now + SKEW_SECS\<close> is unchecked in the code; it is the wrapping sum of a release build.\<close>

definition credential_verify :: "ed25519 \<Rightarrow> RelayCredential \<Rightarrow> bytes \<Rightarrow> u64 \<Rightarrow> RelayError + bytes" where
  "credential_verify E c issuer now =
     (if now > expiry c then Inl Expired
      else if now + SKEW_SECS < issued_at c then Inl NotYetValid
      else bindR (sig_from_slice (rc_sig c)) (\<lambda>s.
      if \<not> ed_verify E issuer (credential_bytes c) s then Inl IssuerSignatureInvalid
      else vk_from_slice E (device_pubkey c)))"

record Presentation =
  pop_sig :: bytes

definition pop_message :: "bytes \<Rightarrow> bytes" where
  "pop_message challenge = POP_DOMAIN @ be_bytes 4 (length challenge) @ challenge"

definition verify_presentation ::
  "ed25519 \<Rightarrow> RelayCredential \<Rightarrow> bytes \<Rightarrow> bytes \<Rightarrow> Presentation \<Rightarrow> u64 \<Rightarrow> RelayError + unit" where
  "verify_presentation E c issuer challenge_message pop now =
     bindR (credential_verify E c issuer now) (\<lambda>device_vk.
     bindR (sig_from_slice (pop_sig pop)) (\<lambda>s.
     if \<not> ed_verify E device_vk (pop_message challenge_message) s then Inl ProofOfPossession else Inr ()))"

record AcceptedRelayClaims =
  ac_platform :: str
  ac_value_x :: bytes
  ac_tee_value_x :: bytes
  ac_device_pubkey :: bytes

record VerifiedRelayTee =
  rt_value_x :: bytes

record VerifiedDeviceAttestation =
  vd_platform :: str
  vd_value_x :: bytes
  observed_binding :: bytes

section \<open>Admission of the relay and of the device\<close>

text \<open>The verifiers that a caller configures are arguments, through the verdicts they return: validity for
  the EAT verifier, an error or the identity found for the desktop ones. The texts that error messages
  quote from the verdict are left out.\<close>

definition from_eat :: "cbor \<Rightarrow> (EatToken \<Rightarrow> bool) \<Rightarrow> bytes \<Rightarrow> RelayError + VerifiedRelayTee" where
  "from_eat C verdict_valid eat_cbor =
     bindR (map_err (\<lambda>_. TeeAttestation ''EAT decode'') (from_cbor C eat_cbor)) (\<lambda>token.
     if binding_suite token \<notin> {1, 2}
     then Inl (TeeAttestation ''relay admission requires a full 64-byte report-data binding'')
     else if \<not> verdict_valid token then Inl (TeeAttestation ''relay admission rejected'')
     else Inr \<lparr>rt_value_x = value_x token\<rparr>)"

record DesktopVerdict =
  dv_verdict :: str
  dv_platform :: str
  identity_hash :: str
  ima_verified :: bool

definition from_desktop_tpm ::
  "prims \<Rightarrow> string + DesktopVerdict \<Rightarrow> bytes \<Rightarrow> RelayError + VerifiedDeviceAttestation" where
  "from_desktop_tpm P verdict expected_binding =
     bindR (map_err DeviceAttestation verdict) (\<lambda>v.
     if dv_verdict v \<noteq> lit ''verified'' then Inl (DeviceAttestation ''desktop TPM verdict'')
     else if \<not> ima_verified v
     then Inl (DeviceAttestation ''relay application identity requires the authenticated IMA measurement profile'')
     else bindR (ok_or (hex_decode P (identity_hash v)) (DeviceAttestation ''identity_hash'')) (\<lambda>x.
     Inr \<lparr>vd_platform = dv_platform v, vd_value_x = x, observed_binding = expected_binding\<rparr>))"

definition from_macos_app_attest ::
  "prims \<Rightarrow> string + DesktopVerdict \<Rightarrow> bytes \<Rightarrow> RelayError + VerifiedDeviceAttestation" where
  "from_macos_app_attest P verdict expected_binding =
     bindR (map_err DeviceAttestation verdict) (\<lambda>v.
     if dv_verdict v \<noteq> lit ''verified'' then Inl (DeviceAttestation ''macOS App Attest verdict'')
     else bindR (ok_or (hex_decode P (identity_hash v)) (DeviceAttestation ''identity_hash'')) (\<lambda>x.
     Inr \<lparr>vd_platform = dv_platform v, vd_value_x = x, observed_binding = expected_binding\<rparr>))"

section \<open>Issuing and accepting\<close>

definition issue ::
  "ed25519 \<Rightarrow> bytes \<Rightarrow> bytes \<Rightarrow> str \<Rightarrow> bytes \<Rightarrow> bytes \<Rightarrow> u64 \<Rightarrow> u64 \<Rightarrow> RelayCredential" where
  "issue E issuer_sk device_pk plat vx tee_vx issued ttl_secs =
     (let cred = \<lparr>device_pubkey = device_pk, rc_platform = plat, rc_value_x = vx, rc_tee_value_x = tee_vx,
            issued_at = issued, expiry = issued + ttl_secs, rc_sig = []\<rparr>
      in cred\<lparr>rc_sig := ed_sign E issuer_sk (credential_bytes cred)\<rparr>)"

record BootstrapReplayStore =
  bootstrap_seen :: "(bytes, u64) btmap"

record PresentationReplayStore =
  presentation_seen :: "(bytes, u64) btmap"

definition bootstrap_check_and_store ::
  "BootstrapReplayStore \<Rightarrow> RelayChallenge \<Rightarrow> u64 \<Rightarrow> RelayError + BootstrapReplayStore" where
  "bootstrap_check_and_store st challenge now =
     bindR (ensure_fresh challenge now) (\<lambda>_.
     if bt_get (bootstrap_seen st) (nonce challenge) \<noteq> None then Inl BootstrapReplay
     else Inr (st\<lparr>bootstrap_seen := bt_insert (nonce challenge) (expires_at challenge) (bootstrap_seen st)\<rparr>))"

definition presentation_check_and_store ::
  "PresentationReplayStore \<Rightarrow> RelayChallenge \<Rightarrow> u64 \<Rightarrow> RelayError + PresentationReplayStore" where
  "presentation_check_and_store st challenge now =
     bindR (ensure_fresh challenge now) (\<lambda>_.
     if bt_get (presentation_seen st) (nonce challenge) \<noteq> None then Inl PresentationReplay
     else Inr (st\<lparr>presentation_seen := bt_insert (nonce challenge) (expires_at challenge) (presentation_seen st)\<rparr>))"

text \<open>The stores are mutable arguments: an operation gives the store it leaves with its result.\<close>

definition bootstrap ::
  "prims \<Rightarrow> ed25519 \<Rightarrow> BootstrapReplayStore \<Rightarrow> bytes \<Rightarrow> bytes \<Rightarrow> VerifiedDeviceAttestation \<Rightarrow> VerifiedRelayTee \<Rightarrow>
   RelayChallenge \<Rightarrow> u64 \<Rightarrow> u64 \<Rightarrow> BootstrapReplayStore \<times> (RelayError + RelayCredential)" where
  "bootstrap P E st issuer_sk device_pk dev tee challenge issued ttl_secs =
     (case checked_add issued ttl_secs of
        None \<Rightarrow> (st, Inl TimeOverflow)
      | Some _ \<Rightarrow>
          if observed_binding dev \<noteq> device_binding P device_pk (rt_value_x tee) challenge
          then (st, Inl DeviceBindingMismatch)
          else (case bootstrap_check_and_store st challenge issued of
              Inl e \<Rightarrow> (st, Inl e)
            | Inr st' \<Rightarrow>
                (st', Inr (issue E issuer_sk device_pk (vd_platform dev) (vd_value_x dev) (rt_value_x tee) issued ttl_secs))))"

definition bootstrap_once ::
  "prims \<Rightarrow> ed25519 \<Rightarrow> BootstrapReplayStore \<Rightarrow> bytes \<Rightarrow> bytes \<Rightarrow> VerifiedDeviceAttestation \<Rightarrow> VerifiedRelayTee \<Rightarrow>
   RelayChallenge \<Rightarrow> u64 \<Rightarrow> u64 \<Rightarrow> BootstrapReplayStore \<times> (RelayError + RelayCredential)" where
  "bootstrap_once = bootstrap"

definition present :: "ed25519 \<Rightarrow> bytes \<Rightarrow> RelayChallenge \<Rightarrow> Presentation" where
  "present E device_sk challenge = \<lparr>pop_sig = ed_sign E device_sk (pop_message (challenge_bytes challenge))\<rparr>"

definition accept ::
  "ed25519 \<Rightarrow> PresentationReplayStore \<Rightarrow> RelayCredential \<Rightarrow> Presentation \<Rightarrow> bytes \<Rightarrow> RelayChallenge \<Rightarrow> u64 \<Rightarrow>
   PresentationReplayStore \<times> (RelayError + AcceptedRelayClaims)" where
  "accept E st cred pres issuer challenge now =
     (case bindR (ensure_fresh challenge now) (\<lambda>_.
             bindR (verify_presentation E cred issuer (challenge_bytes challenge) pres now) (\<lambda>_.
             presentation_check_and_store st challenge now)) of
        Inl e \<Rightarrow> (st, Inl e)
      | Inr st' \<Rightarrow>
          (st', bindR (vk_from_slice E (device_pubkey cred)) (\<lambda>pk.
             Inr \<lparr>ac_platform = rc_platform cred, ac_value_x = rc_value_x cred,
                  ac_tee_value_x = rc_tee_value_x cred, ac_device_pubkey = pk\<rparr>)))"

section \<open>The signed encodings are injective\<close>

definition challenge_wf :: "RelayChallenge \<Rightarrow> bool" where
  "challenge_wf c \<longleftrightarrow> length (nonce c) = 32 \<and> length (context_bytes c) < 2 ^ 32"

definition credential_wf :: "RelayCredential \<Rightarrow> bool" where
  "credential_wf c \<longleftrightarrow> length (device_pubkey c) < 2 ^ 32 \<and> length (rc_platform c) < 2 ^ 32 \<and>
     length (rc_value_x c) < 2 ^ 32 \<and> length (rc_tee_value_x c) < 2 ^ 32"

lemma length_prefixed_end:
  "length p < 2 ^ 32 \<Longrightarrow> length q < 2 ^ 32 \<Longrightarrow>
   be_bytes 4 (length p) @ p = be_bytes 4 (length q) @ q \<longleftrightarrow> p = q"
  using length_prefixed_inject [of p q "[]" "[]"] by simp

lemma challenge_bytes_inject:
  assumes "challenge_wf c" "challenge_wf d"
  shows "challenge_bytes c = challenge_bytes d \<longleftrightarrow> c = d"
proof
  assume eq: "challenge_bytes c = challenge_bytes d"
  have "nonce c = nonce d \<and> expires_at c = expires_at d \<and>
      be_bytes 4 (length (context_bytes c)) @ context_bytes c = be_bytes 4 (length (context_bytes d)) @ context_bytes d"
    using eq assms by (simp add: challenge_bytes_def put_field_def challenge_wf_def CHALLENGE_DOMAIN_def del: list.map)
  then show "c = d"
    using assms by (cases c; cases d) (simp add: challenge_wf_def length_prefixed_end)
qed simp

lemma credential_bytes_inject:
  assumes "credential_wf c" "credential_wf d"
  shows "credential_bytes c = credential_bytes d \<longleftrightarrow> c\<lparr>rc_sig := []\<rparr> = d\<lparr>rc_sig := []\<rparr>"
proof
  let ?f = "\<lambda>x. be_bytes 4 (length x) @ x"
  assume "credential_bytes c = credential_bytes d"
  then have "?f (device_pubkey c) @ ?f (rc_platform c) @ ?f (rc_value_x c) @ ?f (rc_tee_value_x c) @
      be_bytes 8 (unat (issued_at c)) @ be_bytes 8 (unat (expiry c)) =
      ?f (device_pubkey d) @ ?f (rc_platform d) @ ?f (rc_value_x d) @ ?f (rc_tee_value_x d) @
      be_bytes 8 (unat (issued_at d)) @ be_bytes 8 (unat (expiry d))"
    by (simp add: credential_bytes_def put_field_def CRED_DOMAIN_def del: list.map)
  then have "device_pubkey c = device_pubkey d \<and> rc_platform c = rc_platform d \<and> rc_value_x c = rc_value_x d \<and>
      rc_tee_value_x c = rc_tee_value_x d \<and> be_bytes 8 (unat (issued_at c)) @ be_bytes 8 (unat (expiry c)) =
      be_bytes 8 (unat (issued_at d)) @ be_bytes 8 (unat (expiry d))"
    by (simp only: append_assoc length_prefixed_inject assms [unfolded credential_wf_def])
  then show "c\<lparr>rc_sig := []\<rparr> = d\<lparr>rc_sig := []\<rparr>"
    by (cases c; cases d) simp
qed (cases c; cases d; simp add: credential_bytes_def)

definition binding_preimage_of :: "bytes \<Rightarrow> bytes \<Rightarrow> RelayChallenge \<Rightarrow> bytes" where
  "binding_preimage_of pk vx c = BIND_DOMAIN @ pk @ be_bytes 4 (length vx) @ vx @ challenge_bytes c"

lemma device_binding_inject:
  assumes "length pk = 32" "length pk' = 32" "length vx < 2 ^ 32" "length vx' < 2 ^ 32"
    and "challenge_wf c" "challenge_wf c'"
    and "inj_on (sha256 P) {binding_preimage_of pk vx c, binding_preimage_of pk' vx' c'}"
    and "device_binding P pk vx c = device_binding P pk' vx' c'"
  shows "pk = pk' \<and> vx = vx' \<and> c = c'"
proof -
  have "binding_preimage_of pk vx c = binding_preimage_of pk' vx' c'"
    using assms(8) unfolding device_binding_def binding_preimage_of_def [symmetric]
    by (rule inj_onD [OF assms(7)]) simp_all
  then have "pk @ be_bytes 4 (length vx) @ vx @ challenge_bytes c = pk' @ be_bytes 4 (length vx') @ vx' @ challenge_bytes c'"
    by (simp only: binding_preimage_of_def same_append_eq)
  then have "pk = pk' \<and> be_bytes 4 (length vx) @ vx @ challenge_bytes c = be_bytes 4 (length vx') @ vx' @ challenge_bytes c'"
    using append_eq_append_conv [of pk pk'] assms(1,2) by simp
  then show ?thesis
    using length_prefixed_inject [OF assms(3,4)] challenge_bytes_inject [OF assms(5,6)] by blast
qed

section \<open>Replay stores\<close>

text \<open>What both stores promise: a challenge passes exactly when it is fresh and its nonce was not consumed
  before, and it is consumed when it passes.\<close>

locale replay_guard =
  fixes check :: "'s \<Rightarrow> RelayChallenge \<Rightarrow> u64 \<Rightarrow> RelayError + 's"
    and seen :: "'s \<Rightarrow> bytes set"
  assumes check_iff: "check s c now = Inr s' \<Longrightarrow> now \<le> expires_at c \<and> nonce c \<notin> seen s"
    and check_seen: "check s c now = Inr s' \<Longrightarrow> seen s' = insert (nonce c) (seen s)"
    and check_total: "now \<le> expires_at c \<Longrightarrow> nonce c \<notin> seen s \<Longrightarrow> \<exists>s'. check s c now = Inr s'"
begin

definition tracks :: "'s \<Rightarrow> bytes list \<Rightarrow> bool" where
  "tracks s consumed \<longleftrightarrow> distinct consumed \<and> set consumed = seen s"

lemma tracks_step: "tracks s consumed \<Longrightarrow> check s c now = Inr s' \<Longrightarrow> tracks s' (consumed @ [nonce c])"
  using check_iff check_seen unfolding tracks_def by fastforce

lemma consumed_never_passes: "check s c now = Inr s' \<Longrightarrow> nonce d = nonce c \<Longrightarrow> \<exists>e. check s' d later = Inl e"
  using check_iff check_seen by (metis insertI1 sum.exhaust)

end

definition bootstrap_nonces :: "BootstrapReplayStore \<Rightarrow> bytes set" where
  "bootstrap_nonces st = set (bt_keys (bootstrap_seen st))"

definition presentation_nonces :: "PresentationReplayStore \<Rightarrow> bytes set" where
  "presentation_nonces st = set (bt_keys (presentation_seen st))"

interpretation boot_guard: replay_guard bootstrap_check_and_store bootstrap_nonces
  by unfold_locales
    (auto simp: bootstrap_check_and_store_def ensure_fresh_def bootstrap_nonces_def result_simps not_less map_of_eq_None_iff
      simp flip: set_map simp del: set_map)

interpretation pres_guard: replay_guard presentation_check_and_store presentation_nonces
  by unfold_locales
    (auto simp: presentation_check_and_store_def ensure_fresh_def presentation_nonces_def result_simps not_less map_of_eq_None_iff
      simp flip: set_map simp del: set_map)

section \<open>Issuing and accepting\<close>

lemma bootstrap_Inr:
  assumes "bootstrap P E st sk pk dev tee c issued ttl = (st', Inr cred)"
  shows "bootstrap_check_and_store st c issued = Inr st'"
    and "observed_binding dev = device_binding P pk (rt_value_x tee) c"
    and "cred = issue E sk pk (vd_platform dev) (vd_value_x dev) (rt_value_x tee) issued ttl"
    and "unat (expiry cred) = unat issued + unat ttl"
proof -
  show "bootstrap_check_and_store st c issued = Inr st'"
      "observed_binding dev = device_binding P pk (rt_value_x tee) c"
      and cred: "cred = issue E sk pk (vd_platform dev) (vd_value_x dev) (rt_value_x tee) issued ttl"
    using assms by (auto simp: bootstrap_def split: option.splits sum.splits if_splits)
  have "checked_add issued ttl \<noteq> None"
    using assms by (auto simp: bootstrap_def split: option.splits)
  then show "unat (expiry cred) = unat issued + unat ttl"
    by (auto simp: cred issue_def Let_def checked_add_def unat_word_ariths split: if_splits)
qed

lemma bootstrap_Inl: "bootstrap P E st sk pk dev tee c issued ttl = (st', Inl e) \<Longrightarrow> st' = st"
  by (auto simp: bootstrap_def split: option.splits sum.splits if_splits)

lemma verify_presentation_Inr_iff:
  "verify_presentation E cred issuer m pop now = Inr u \<longleftrightarrow>
     now \<le> expiry cred \<and> \<not> now + SKEW_SECS < issued_at cred \<and> length (rc_sig cred) = 64 \<and>
     ed_verify E issuer (credential_bytes cred) (rc_sig cred) \<and>
     length (device_pubkey cred) = 32 \<and> ed_valid_key E (device_pubkey cred) \<and> length (pop_sig pop) = 64 \<and>
     ed_verify E (device_pubkey cred) (pop_message m) (pop_sig pop)"
  by (auto simp: verify_presentation_def credential_verify_def sig_from_slice_def vk_from_slice_def result_simps
      not_less)

lemma accept_Inr_iff:
  "accept E st cred pres issuer c now = (st', Inr accepted) \<longleftrightarrow>
     verify_presentation E cred issuer (challenge_bytes c) pres now = Inr () \<and>
     presentation_check_and_store st c now = Inr st' \<and>
     accepted = \<lparr>ac_platform = rc_platform cred, ac_value_x = rc_value_x cred,
       ac_tee_value_x = rc_tee_value_x cred, ac_device_pubkey = device_pubkey cred\<rparr>"
proof -
  let ?m = "bindR (ensure_fresh c now) (\<lambda>_.
      bindR (verify_presentation E cred issuer (challenge_bytes c) pres now) (\<lambda>_.
      presentation_check_and_store st c now))"
  have m: "?m = Inr x \<longleftrightarrow> verify_presentation E cred issuer (challenge_bytes c) pres now = Inr () \<and>
      presentation_check_and_store st c now = Inr x" for x
    by (auto simp: result_simps presentation_check_and_store_def)
  show ?thesis
  proof (cases ?m)
    case (Inl e)
    then show ?thesis using m [of st'] by (auto simp: accept_def)
  next
    case (Inr x)
    then have "vk_from_slice E (device_pubkey cred) = Inr (device_pubkey cred)"
      using m [of x] by (simp add: vk_from_slice_def verify_presentation_Inr_iff)
    then show ?thesis using Inr m [of x] by (auto simp: accept_def)
  qed
qed

lemma accept_Inl:
  assumes "accept E st cred pres issuer c now = (st', Inl e)"
  shows "st' = st"
  using assms unfolding accept_def
  by (auto simp: result_simps vk_from_slice_def verify_presentation_Inr_iff split: sum.splits if_splits)

section \<open>Sequences of requests\<close>

record relay_state =
  rs_bootstrap :: BootstrapReplayStore
  rs_presentation :: PresentationReplayStore

definition relay_initial :: relay_state where
  "relay_initial = \<lparr>rs_bootstrap = \<lparr>bootstrap_seen = []\<rparr>, rs_presentation = \<lparr>presentation_seen = []\<rparr>\<rparr>"

datatype relay_event =
    Issued RelayChallenge RelayCredential
  | Accepted RelayChallenge AcceptedRelayClaims
  | Refused RelayError

text \<open>A request to a relay service: a bootstrap or a presentation, with any arguments.\<close>

inductive relay_step :: "prims \<Rightarrow> ed25519 \<Rightarrow> relay_state \<Rightarrow> relay_event \<Rightarrow> relay_state \<Rightarrow> bool" for P E where
  issued: "relay_step P E s (Issued c cred) (s\<lparr>rs_bootstrap := st\<rparr>)"
    if "bootstrap P E (rs_bootstrap s) sk pk dev tee c issued ttl = (st, Inr cred)"
| issue_refused: "relay_step P E s (Refused e) (s\<lparr>rs_bootstrap := st\<rparr>)"
    if "bootstrap P E (rs_bootstrap s) sk pk dev tee c issued ttl = (st, Inl e)"
| accepted: "relay_step P E s (Accepted c acc) (s\<lparr>rs_presentation := st\<rparr>)"
    if "accept E (rs_presentation s) cred pres issuer c now = (st, Inr acc)"
| accept_refused: "relay_step P E s (Refused e) (s\<lparr>rs_presentation := st\<rparr>)"
    if "accept E (rs_presentation s) cred pres issuer c now = (st, Inl e)"

inductive relay_run :: "prims \<Rightarrow> ed25519 \<Rightarrow> relay_state \<Rightarrow> relay_event list \<Rightarrow> relay_state \<Rightarrow> bool" for P E where
  start: "relay_run P E s [] s"
| step: "relay_run P E s (evs @ [ev]) s''" if "relay_run P E s evs s'" "relay_step P E s' ev s''"

inductive_cases relay_step_issuedE: "relay_step P E s (Issued c cred) s'"
inductive_cases relay_step_acceptedE: "relay_step P E s (Accepted c acc) s'"
inductive_cases relay_step_refusedE: "relay_step P E s (Refused e) s'"

definition issued_nonces :: "relay_event list \<Rightarrow> bytes list" where
  "issued_nonces evs = List.map_filter (\<lambda>ev. case ev of Issued c _ \<Rightarrow> Some (nonce c) | _ \<Rightarrow> None) evs"

definition accepted_nonces :: "relay_event list \<Rightarrow> bytes list" where
  "accepted_nonces evs = List.map_filter (\<lambda>ev. case ev of Accepted c _ \<Rightarrow> Some (nonce c) | _ \<Rightarrow> None) evs"

definition relay_inv :: "relay_state \<Rightarrow> relay_event list \<Rightarrow> bool" where
  "relay_inv s evs \<longleftrightarrow> boot_guard.tracks (rs_bootstrap s) (issued_nonces evs) \<and>
     pres_guard.tracks (rs_presentation s) (accepted_nonces evs)"

lemma nonces_snoc [simp]:
  "issued_nonces (evs @ [ev]) = issued_nonces evs @ (case ev of Issued c _ \<Rightarrow> [nonce c] | _ \<Rightarrow> [])"
  "accepted_nonces (evs @ [ev]) = accepted_nonces evs @ (case ev of Accepted c _ \<Rightarrow> [nonce c] | _ \<Rightarrow> [])"
  by (auto simp: issued_nonces_def accepted_nonces_def List.map_filter_def split: relay_event.splits)

lemma bootstrap_tracks:
  "boot_guard.tracks st ns \<Longrightarrow> bootstrap P E st sk pk dev tee c issued ttl = (st', Inr cred) \<Longrightarrow>
   boot_guard.tracks st' (ns @ [nonce c])"
  by (rule boot_guard.tracks_step [OF _ bootstrap_Inr(1)])

lemma relay_step_inv:
  assumes "relay_step P E s ev s'" and "relay_inv s evs"
  shows "relay_inv s' (evs @ [ev])"
proof (cases ev)
  case (Issued c cred)
  then show ?thesis
    using assms
    by (auto simp: relay_inv_def elim!: relay_step_issuedE bootstrap_tracks)
next
  case (Accepted c acc)
  then show ?thesis
    using assms
    by (auto simp: relay_inv_def accept_Inr_iff elim!: relay_step_acceptedE intro: pres_guard.tracks_step)
next
  case (Refused e)
  have "s' = s"
    using assms(1) unfolding Refused
    by (auto elim!: relay_step_refusedE dest!: bootstrap_Inl accept_Inl)
  then show ?thesis using assms(2) by (simp add: relay_inv_def Refused)
qed

lemma relay_run_inv: "relay_run P E s evs s' \<Longrightarrow> s = relay_initial \<Longrightarrow> relay_inv s' evs"
proof (induction rule: relay_run.induct)
  case (start s)
  then show ?case
    by (simp add: relay_inv_def boot_guard.tracks_def pres_guard.tracks_def relay_initial_def bootstrap_nonces_def
        presentation_nonces_def issued_nonces_def accepted_nonces_def List.map_filter_def)
qed (blast intro: relay_step_inv)

section \<open>Completeness\<close>

definition ed_laws :: "ed25519 \<Rightarrow> bool" where
  "ed_laws E \<longleftrightarrow> (\<forall>sk m. ed_verify E (verifying_key E sk) m (ed_sign E sk m) \<and> length (ed_sign E sk m) = 64) \<and>
     (\<forall>sk. length (verifying_key E sk) = 32 \<and> ed_valid_key E (verifying_key E sk))"

lemma issue_verifies:
  assumes "ed_laws E" "cred = issue E sk (verifying_key E dsk) plat vx tvx issued ttl"
    and "now \<le> expiry cred" "\<not> now + SKEW_SECS < issued"
  shows "verify_presentation E cred (verifying_key E sk) (challenge_bytes c) (present E dsk c) now = Inr ()"
proof -
  have "credential_bytes cred = credential_bytes (cred\<lparr>rc_sig := []\<rparr>)" by (simp add: credential_bytes_def)
  then have "rc_sig cred = ed_sign E sk (credential_bytes cred)"
    unfolding assms(2) by (simp add: issue_def Let_def)
  then show ?thesis
    using assms unfolding verify_presentation_Inr_iff ed_laws_def
    by (simp add: present_def) (simp add: issue_def Let_def)
qed

lemma skew_no_wrap:
  assumes "unat issued \<le> unat now + 60" "unat now + 60 < 2 ^ 64"
  shows "\<not> now + SKEW_SECS < issued"
proof -
  have "unat (now + 60) = unat now + 60"
    using assms(2) by (simp add: unat_word_ariths)
  then show ?thesis using assms(1) by (simp add: word_less_nat_alt)
qed

section \<open>A concrete exchange\<close>

text \<open>A stand-in for the signature scheme that satisfies its laws: the tag is the key and the message.\<close>

definition demo_tag :: "bytes \<Rightarrow> bytes \<Rightarrow> bytes" where
  "demo_tag pk m = take 64 (pk @ rev m @ replicate 64 0)"

definition demo_ed :: ed25519 where
  "demo_ed = \<lparr>verifying_key = (\<lambda>sk. take 32 (sk @ replicate 32 0)),
     ed_sign = (\<lambda>sk m. demo_tag (take 32 (sk @ replicate 32 0)) m), ed_valid_key = (\<lambda>_. True),
     ed_verify = (\<lambda>pk m s. s = demo_tag pk m)\<rparr>"

lemma demo_ed_laws: "ed_laws demo_ed"
  by (auto simp: ed_laws_def demo_ed_def demo_tag_def min_def)

definition demo_challenge :: "byte \<Rightarrow> RelayChallenge" where
  "demo_challenge b = \<lparr>nonce = replicate 32 b, expires_at = 100, context_bytes = []\<rparr>"

definition demo_device_pk :: bytes where
  "demo_device_pk = verifying_key demo_ed [9]"

definition demo_device :: VerifiedDeviceAttestation where
  "demo_device = \<lparr>vd_platform = [], vd_value_x = [1], observed_binding =
     device_binding demo_prims demo_device_pk [2] (demo_challenge 0)\<rparr>"

definition demo_credential :: RelayCredential where
  "demo_credential = issue demo_ed [3] demo_device_pk [] [1] [2] 10 50"

lemma demo_bootstrap:
  "bootstrap demo_prims demo_ed (rs_bootstrap relay_initial) [3] demo_device_pk demo_device \<lparr>rt_value_x = [2]\<rparr>
     (demo_challenge 0) 10 50 = (\<lparr>bootstrap_seen = [(replicate 32 0, 100)]\<rparr>, Inr demo_credential)"
proof -
  have "checked_add 10 (50 :: u64) = Some 60" by code_simp
  then show ?thesis
    by (simp add: bootstrap_def demo_device_def bootstrap_check_and_store_def ensure_fresh_def demo_challenge_def
        relay_initial_def demo_credential_def)
qed

section \<open>Properties\<close>

text \<open>C26. Over any sequence of bootstraps and presentations, accepted or refused, in any order and with any
  arguments, no nonce earns two credentials and no nonce is accepted in two presentations.\<close>

theorem relay_nonce_once:
  assumes "relay_run P E relay_initial evs s"
  shows "distinct (issued_nonces evs) \<and> distinct (accepted_nonces evs)"
  using relay_run_inv [OF assms] by (simp add: relay_inv_def boot_guard.tracks_def pres_guard.tracks_def)

theorem relay_nonce_once_witness:
  "\<exists>s. relay_run demo_prims demo_ed relay_initial [Issued (demo_challenge 0) demo_credential] s \<and>
     distinct (issued_nonces [Issued (demo_challenge 0) demo_credential])"
proof -
  have "relay_run demo_prims demo_ed relay_initial ([] @ [Issued (demo_challenge 0) demo_credential])
      (relay_initial\<lparr>rs_bootstrap := \<lparr>bootstrap_seen = [(replicate 32 0, 100)]\<rparr>\<rparr>)"
    by (rule relay_run.step [OF relay_run.start relay_step.issued [OF demo_bootstrap]])
  then show ?thesis using relay_nonce_once by auto
qed

text \<open>C27. A presentation is accepted exactly when the challenge is fresh and unused, the credential is
  inside its window and signed by the issuer, and the device key it names signed the challenge; the
  claims returned are those of the credential, and a refused presentation leaves the store as it was.\<close>

theorem accept_exact:
  "(accept E st cred pres issuer c now = (st', Inr acc) \<longleftrightarrow>
      now \<le> expires_at c \<and> nonce c \<notin> presentation_nonces st \<and>
      st' = st\<lparr>presentation_seen := bt_insert (nonce c) (expires_at c) (presentation_seen st)\<rparr> \<and>
      now \<le> expiry cred \<and> \<not> now + SKEW_SECS < issued_at cred \<and> length (rc_sig cred) = 64 \<and>
      ed_verify E issuer (credential_bytes cred) (rc_sig cred) \<and>
      length (device_pubkey cred) = 32 \<and> ed_valid_key E (device_pubkey cred) \<and> length (pop_sig pres) = 64 \<and>
      ed_verify E (device_pubkey cred) (pop_message (challenge_bytes c)) (pop_sig pres) \<and>
      acc = \<lparr>ac_platform = rc_platform cred, ac_value_x = rc_value_x cred,
        ac_tee_value_x = rc_tee_value_x cred, ac_device_pubkey = device_pubkey cred\<rparr>) \<and>
   (accept E st cred pres issuer c now = (st'', Inl e) \<longrightarrow> st'' = st)"
  using accept_Inl [of E st cred pres issuer c now st'' e]
  unfolding accept_Inr_iff verify_presentation_Inr_iff
  by (auto simp: presentation_check_and_store_def ensure_fresh_def result_simps not_less presentation_nonces_def
      map_of_eq_None_iff)

theorem accept_exact_witness:
  "fst (accept demo_ed \<lparr>presentation_seen = []\<rparr> demo_credential \<lparr>pop_sig = []\<rparr> [] (demo_challenge 0) 10) =
     \<lparr>presentation_seen = []\<rparr>"
proof -
  let ?r = "accept demo_ed \<lparr>presentation_seen = []\<rparr> demo_credential \<lparr>pop_sig = []\<rparr> [] (demo_challenge 0) 10"
  obtain st' e where "?r = (st', Inl e)"
    using accept_exact [of demo_ed "\<lparr>presentation_seen = []\<rparr>" demo_credential "\<lparr>pop_sig = []\<rparr>" "[]" "demo_challenge 0" 10]
    by (cases ?r; cases "snd ?r") auto
  then show ?thesis
    using accept_exact [of demo_ed "\<lparr>presentation_seen = []\<rparr>" demo_credential "\<lparr>pop_sig = []\<rparr>" "[]" "demo_challenge 0" 10]
    by simp
qed

text \<open>C28. What the signatures and the binding cover: the encodings of challenges and of credentials are
  injective (the signature apart), and a device binding determines the device key, the relay's identity
  and the challenge unless the hash collides on the two preimages.\<close>

theorem relay_encodings_inject:
  assumes "challenge_wf c" and "challenge_wf c'" and "credential_wf cred" and "credential_wf cred'"
    and "length pk = 32" and "length pk' = 32" and "length vx < 2 ^ 32" and "length vx' < 2 ^ 32"
    and "inj_on (sha256 P) {binding_preimage_of pk vx c, binding_preimage_of pk' vx' c'}"
  shows "(challenge_bytes c = challenge_bytes c' \<longleftrightarrow> c = c') \<and>
    (credential_bytes cred = credential_bytes cred' \<longleftrightarrow> cred\<lparr>rc_sig := []\<rparr> = cred'\<lparr>rc_sig := []\<rparr>) \<and>
    (device_binding P pk vx c = device_binding P pk' vx' c' \<longleftrightarrow> pk = pk' \<and> vx = vx' \<and> c = c')"
  using challenge_bytes_inject [OF assms(1,2)] credential_bytes_inject [OF assms(3,4)]
    device_binding_inject [OF assms(5-8,1,2,9)] by blast

theorem relay_encodings_inject_witness:
  "challenge_bytes (demo_challenge 0) \<noteq> challenge_bytes (demo_challenge 1)"
proof -
  have wf: "challenge_wf (demo_challenge b)" "credential_wf demo_credential" "length demo_device_pk = 32" for b
    using demo_ed_laws by (simp_all add: challenge_wf_def demo_challenge_def credential_wf_def demo_credential_def
        issue_def demo_device_pk_def ed_laws_def)
  have d: "demo_challenge 0 \<noteq> demo_challenge 1" by (simp add: demo_challenge_def)
  let ?P = "demo_prims\<lparr>sha256 := \<lambda>x. x\<rparr>"
  have "inj_on (sha256 ?P) S" for S by (simp add: inj_on_def)
  from relay_encodings_inject [OF wf(1,1,2,2,3,3) _ _ this, of "[]" "[]"] show ?thesis
    using d by simp
qed

text \<open>C29. A credential that a bootstrap issues to a device is accepted when that device answers a fresh
  unused challenge inside the credential's window (60 seconds of clock skew before it), and the claims
  are the identities that the bootstrap admitted.\<close>

theorem bootstrap_then_accept:
  assumes "ed_laws E" and "bootstrap P E bst sk (verifying_key E dsk) dev tee boot_challenge issued ttl = (bst', Inr cred)"
    and "now \<le> expires_at c" and "nonce c \<notin> presentation_nonces pst"
    and "unat issued \<le> unat now + 60" and "unat now \<le> unat issued + unat ttl" and "unat now + 60 < 2 ^ 64"
  shows "snd (accept E pst cred (present E dsk c) (verifying_key E sk) c now) =
    Inr \<lparr>ac_platform = vd_platform dev, ac_value_x = vd_value_x dev, ac_tee_value_x = rt_value_x tee,
         ac_device_pubkey = verifying_key E dsk\<rparr>"
proof -
  note b = bootstrap_Inr [OF assms(2)]
  have "now \<le> expiry cred" using assms(6) b(4) by (simp add: word_le_nat_alt)
  then have "verify_presentation E cred (verifying_key E sk) (challenge_bytes c) (present E dsk c) now = Inr ()"
    using issue_verifies [OF assms(1) b(3)] skew_no_wrap [OF assms(5,7)] by blast
  moreover obtain st where "presentation_check_and_store pst c now = Inr st"
    using pres_guard.check_total [OF assms(3,4)] by blast
  ultimately have "accept E pst cred (present E dsk c) (verifying_key E sk) c now =
      (st, Inr \<lparr>ac_platform = rc_platform cred, ac_value_x = rc_value_x cred,
        ac_tee_value_x = rc_tee_value_x cred, ac_device_pubkey = device_pubkey cred\<rparr>)"
    by (simp add: accept_Inr_iff)
  then show ?thesis by (simp add: b(3) issue_def Let_def)
qed

theorem bootstrap_then_accept_witness:
  "snd (accept demo_ed \<lparr>presentation_seen = []\<rparr> demo_credential (present demo_ed [9] (demo_challenge 1))
     (verifying_key demo_ed [3]) (demo_challenge 1) 20) =
   Inr \<lparr>ac_platform = [], ac_value_x = [1], ac_tee_value_x = [2], ac_device_pubkey = demo_device_pk\<rparr>"
  using bootstrap_then_accept [OF demo_ed_laws demo_bootstrap [unfolded demo_device_pk_def], of 20 "demo_challenge 1"
      "\<lparr>presentation_seen = []\<rparr>"]
  by (simp add: demo_challenge_def presentation_nonces_def demo_device_def demo_device_pk_def)

end
