(* ===== verification/Attest_Registry.thy ===== *)
theory Attest_Registry
  imports UQ_Prims
begin

text \<open>
  The on-chain bulletin board (\<open>contracts/AttestRegistry.vy\<close>), and the part of the EVM that the three
  contracts use: the caller's environment, checked arithmetic, and \<open>keccak256\<close> and \<open>ecrecover\<close> as
  parameters. A call gives the revert reason, or the new storage and the result; a call that reverts
  leaves the storage as it was. The lemmas show that over any sequence of calls an entry is never
  overwritten and that \<open>verify\<close> answers exactly for what was registered.
\<close>

section \<open>The machine\<close>

type_synonym u256 = "256 word"
type_synonym bytes32 = "256 word"
type_synonym bytes16 = "128 word"
type_synonym address = "160 word"

type_synonym 'a evm = "string + 'a"

record evm_env =
  msg_sender :: address
  msg_value :: u256
  block_number :: u256
  block_timestamp :: u256

record evm_prims =
  keccak256 :: "bytes \<Rightarrow> bytes32"
  ecrecover :: "bytes32 \<Rightarrow> u256 \<Rightarrow> u256 \<Rightarrow> u256 \<Rightarrow> address"

text \<open>\<open>concat\<close> of fixed-size values, \<open>assert\<close>, and sums that revert on overflow. A function that is not
  payable reverts when value is sent.\<close>

definition b32 :: "bytes32 \<Rightarrow> bytes" where
  "b32 w = be_bytes 32 (unat w)"

definition b16 :: "bytes16 \<Rightarrow> bytes" where
  "b16 w = be_bytes 16 (unat w)"

definition add256 :: "u256 \<Rightarrow> u256 \<Rightarrow> u256 evm" where
  "add256 a b = ok_or (checked_add a b) ''safeadd''"

definition nonpayable :: "evm_env \<Rightarrow> unit evm" where
  "nonpayable env = ensureR (msg_value env = 0) ''nonpayable''"

lemma length_b32 [simp]: "length (b32 w) = 32"
  by (simp add: b32_def)

lemma length_b16 [simp]: "length (b16 w) = 16"
  by (simp add: b16_def)

lemma b32_inject [simp]: "b32 v = b32 w \<longleftrightarrow> v = w"
  using unat_bound [of v] unat_bound [of w] by (simp add: b32_def be_bytes_inject word_unat_eq_iff)

lemma b16_inject [simp]: "b16 v = b16 w \<longleftrightarrow> v = w"
  using unat_bound [of v] unat_bound [of w] by (simp add: b16_def be_bytes_inject word_unat_eq_iff)

lemma add256_Inr_iff [result_simps]: "add256 a b = Inr c \<longleftrightarrow> unat a + unat b < 2 ^ 256 \<and> c = a + b"
  by (auto simp: add256_def ok_or_Inr_iff checked_add_Some_iff)

lemma unat_add256: "add256 a b = Inr c \<Longrightarrow> unat c = unat a + unat b"
  by (auto simp: add256_def ok_or_Inr_iff dest: unat_checked_add)

lemma nonpayable_Inr_iff [result_simps]: "nonpayable env = Inr u \<longleftrightarrow> msg_value env = 0"
  by (simp add: nonpayable_def result_simps)

section \<open>The contract\<close>

record Attestation =
  at_value_x_high :: bytes32
  at_value_x_low :: bytes16
  at_platform :: u8
  at_quote_hash :: bytes32
  at_pubkey :: bytes32
  registered_at :: u256
  registrant :: address

datatype registry_event =
  AttestationRegistered address bytes32 bytes16 u8 bytes32 bytes32 u256

record registry_storage =
  attestations :: "bytes32 \<Rightarrow> Attestation"
  attestation_count :: u256
  latest_key :: bytes32
  registry_log :: "registry_event list"

definition empty_attestation :: Attestation where
  "empty_attestation = \<lparr>at_value_x_high = 0, at_value_x_low = 0, at_platform = 0, at_quote_hash = 0,
     at_pubkey = 0, registered_at = 0, registrant = 0\<rparr>"

definition registry_deployed :: registry_storage where
  "registry_deployed = \<lparr>attestations = (\<lambda>_. empty_attestation), attestation_count = 0, latest_key = 0,
     registry_log = []\<rparr>"

definition key_preimage :: "bytes32 \<Rightarrow> bytes16 \<Rightarrow> bytes32 \<Rightarrow> bytes" where
  "key_preimage high low pubkey = b32 high @ b16 low @ b32 pubkey"

definition attestation_key :: "evm_prims \<Rightarrow> bytes32 \<Rightarrow> bytes16 \<Rightarrow> bytes32 \<Rightarrow> bytes32" where
  "attestation_key K high low pubkey = keccak256 K (key_preimage high low pubkey)"

definition register ::
  "evm_prims \<Rightarrow> evm_env \<Rightarrow> registry_storage \<Rightarrow> bytes32 \<Rightarrow> bytes16 \<Rightarrow> u8 \<Rightarrow> bytes32 \<Rightarrow> bytes32 \<Rightarrow> registry_storage evm" where
  "register K env s high low plat quote_hash pubkey =
     bindR (nonpayable env) (\<lambda>_.
     let key = attestation_key K high low pubkey in
     if registered_at (attestations s key) \<noteq> 0 then Inl ''already registered''
     else if \<not> (1 \<le> plat \<and> plat \<le> 3) then Inl ''unknown platform''
     else if pubkey = 0 then Inl ''empty pubkey''
     else bindR (add256 (attestation_count s) 1) (\<lambda>n.
     Inr (s\<lparr>attestations := (attestations s)(key :=
              \<lparr>at_value_x_high = high, at_value_x_low = low, at_platform = plat, at_quote_hash = quote_hash,
               at_pubkey = pubkey, registered_at = block_timestamp env, registrant = msg_sender env\<rparr>),
            attestation_count := n, latest_key := key,
            registry_log := registry_log s @ [AttestationRegistered (msg_sender env) high low plat
              quote_hash pubkey (block_timestamp env)]\<rparr>)))"

definition registry_verify :: "evm_prims \<Rightarrow> registry_storage \<Rightarrow> bytes32 \<Rightarrow> bytes16 \<Rightarrow> bytes32 \<Rightarrow> bool" where
  "registry_verify K s high low pubkey = (registered_at (attestations s (attestation_key K high low pubkey)) > 0)"

definition get_attestation ::
  "registry_storage \<Rightarrow> bytes32 \<Rightarrow> bytes32 \<times> bytes16 \<times> u8 \<times> bytes32 \<times> bytes32 \<times> u256 \<times> address" where
  "get_attestation s key =
     (let a = attestations s key in
      (at_value_x_high a, at_value_x_low a, at_platform a, at_quote_hash a, at_pubkey a, registered_at a, registrant a))"

section \<open>Sequences of calls\<close>

text \<open>Any caller registers anything, in a block after the first.\<close>

inductive registry_run :: "evm_prims \<Rightarrow> registry_storage \<Rightarrow> registry_storage \<Rightarrow> bool" for K where
  start: "registry_run K s s"
| step: "registry_run K s s''"
    if "registry_run K s s'" and "register K env s' high low plat quote_hash pubkey = Inr s''"
      and "block_timestamp env \<noteq> 0"

text \<open>An entry names the key it stands under, and was registered by an event of the log.\<close>

definition registry_inv :: "evm_prims \<Rightarrow> registry_storage \<Rightarrow> bool" where
  "registry_inv K s \<longleftrightarrow>
     (\<forall>key. let a = attestations s key in
        if registered_at a = 0 then a = empty_attestation
        else key = attestation_key K (at_value_x_high a) (at_value_x_low a) (at_pubkey a) \<and>
          1 \<le> at_platform a \<and> at_platform a \<le> 3 \<and> at_pubkey a \<noteq> 0 \<and>
          AttestationRegistered (registrant a) (at_value_x_high a) (at_value_x_low a) (at_platform a)
            (at_quote_hash a) (at_pubkey a) (registered_at a) \<in> set (registry_log s)) \<and>
     (\<forall>ev \<in> set (registry_log s). case ev of AttestationRegistered _ high low _ _ pubkey _ \<Rightarrow>
        registry_verify K s high low pubkey) \<and>
     unat (attestation_count s) = length (registry_log s)"

lemma register_Inr:
  assumes "register K env s high low plat quote_hash pubkey = Inr s'"
  shows "registered_at (attestations s (attestation_key K high low pubkey)) = 0"
    and "1 \<le> plat" and "plat \<le> 3" and "pubkey \<noteq> 0"
    and "attestations s' = (attestations s)(attestation_key K high low pubkey :=
      \<lparr>at_value_x_high = high, at_value_x_low = low, at_platform = plat, at_quote_hash = quote_hash,
       at_pubkey = pubkey, registered_at = block_timestamp env, registrant = msg_sender env\<rparr>)"
    and "registry_log s' = registry_log s @ [AttestationRegistered (msg_sender env) high low plat
      quote_hash pubkey (block_timestamp env)]"
    and "unat (attestation_count s') = Suc (unat (attestation_count s))"
  using assms by (auto simp: register_def Let_def result_simps unat_word_ariths)

lemma registry_verify_iff:
  "registry_verify K s high low pubkey \<longleftrightarrow> registered_at (attestations s (attestation_key K high low pubkey)) \<noteq> 0"
  by (simp add: registry_verify_def word_neq_0_conv)

lemma register_inv:
  assumes "registry_inv K s" and r: "register K env s high low plat quote_hash pubkey = Inr s'"
    and "block_timestamp env \<noteq> 0"
  shows "registry_inv K s'"
proof -
  note new = register_Inr(5-7) [OF r]
  have "\<forall>ev \<in> set (registry_log s'). case ev of AttestationRegistered _ high low _ _ pubkey _ \<Rightarrow>
      registry_verify K s' high low pubkey"
    using assms(1,3) by (auto simp: registry_inv_def registry_verify_iff new split: registry_event.splits)
  then show ?thesis
    using assms(1,3) register_Inr(2-4) [OF r] unfolding registry_inv_def Let_def by (simp add: new)
qed

lemma registry_run_inv: "registry_run K s s' \<Longrightarrow> registry_inv K s \<Longrightarrow> registry_inv K s'"
  by (induction rule: registry_run.induct) (auto intro: register_inv)

lemma registry_deployed_inv: "registry_inv K registry_deployed"
  by (simp add: registry_inv_def registry_deployed_def empty_attestation_def)

lemma registry_run_keeps:
  "registry_run K s s' \<Longrightarrow> registered_at (attestations s key) \<noteq> 0 \<Longrightarrow> attestations s' key = attestations s key"
proof (induction rule: registry_run.induct)
  case (step s s' env high low plat quote_hash pubkey s'')
  then show ?case using register_Inr(1,5) [OF step(2)] by auto
qed simp

text \<open>The preimages that were hashed for the registered keys.\<close>

definition logged_preimages :: "registry_storage \<Rightarrow> bytes set" where
  "logged_preimages s = (\<lambda>ev. case ev of AttestationRegistered _ high low _ _ pubkey _ \<Rightarrow>
     key_preimage high low pubkey) ` set (registry_log s)"

lemma key_preimage_inject [simp]:
  "key_preimage h l p = key_preimage h' l' p' \<longleftrightarrow> h = h' \<and> l = l' \<and> p = p'"
  by (simp add: key_preimage_def)

lemma registry_verify_logged:
  assumes "registry_inv K s" and "registry_verify K s high low pubkey"
    and inj: "inj_on (keccak256 K) (insert (key_preimage high low pubkey) (logged_preimages s))"
  shows "\<exists>who plat qh t. AttestationRegistered who high low plat qh pubkey t \<in> set (registry_log s)"
proof -
  define a where "a = attestations s (attestation_key K high low pubkey)"
  have "registered_at a \<noteq> 0" using assms(2) by (simp add: registry_verify_iff a_def)
  then have k: "attestation_key K high low pubkey = attestation_key K (at_value_x_high a) (at_value_x_low a) (at_pubkey a)"
    and ev: "AttestationRegistered (registrant a) (at_value_x_high a) (at_value_x_low a) (at_platform a)
            (at_quote_hash a) (at_pubkey a) (registered_at a) \<in> set (registry_log s)"
    using assms(1) unfolding registry_inv_def a_def Let_def by (metis (no_types, lifting))+
  have "key_preimage (at_value_x_high a) (at_value_x_low a) (at_pubkey a) \<in> logged_preimages s"
    using ev by (force simp: logged_preimages_def)
  then have "key_preimage high low pubkey = key_preimage (at_value_x_high a) (at_value_x_low a) (at_pubkey a)"
    using k unfolding attestation_key_def by (intro inj_onD [OF inj]) simp_all
  with ev show ?thesis by auto
qed

section \<open>A concrete machine\<close>

definition demo_evm :: evm_prims where
  "demo_evm = \<lparr>keccak256 = (\<lambda>x. of_nat (be_nat x)), ecrecover = (\<lambda>h v r s. of_nat (unat r))\<rparr>"

definition demo_env :: "address \<Rightarrow> evm_env" where
  "demo_env who = \<lparr>msg_sender = who, msg_value = 0, block_number = 1, block_timestamp = 1000\<rparr>"

lemma le_nat_append: "le_nat (a @ b) = le_nat a + 256 ^ length a * le_nat b"
  by (induction a) (simp_all add: algebra_simps)

lemma demo_keccak_suffix [simp]: "keccak256 demo_evm (x @ b32 w) = w"
proof -
  have "be_nat (b32 w) = unat w"
    using unat_bound [of w] by (simp add: b32_def be_nat_be_bytes)
  then have "be_nat (x @ b32 w) = unat w + 256 ^ 32 * be_nat x"
    by (simp add: be_nat_def le_nat_append)
  then have "(of_nat (be_nat (x @ b32 w)) :: bytes32) = of_nat (unat w) + of_nat (256 ^ 32) * of_nat (be_nat x)"
    by (simp only: of_nat_add of_nat_mult)
  moreover have "(of_nat (256 ^ 32) :: bytes32) = 0"
    by (simp add: word_eq_iff_unsigned unsigned_of_nat)
  ultimately show ?thesis by (simp only: demo_evm_def evm_prims.simps) simp
qed

lemma demo_attestation_key [simp]: "attestation_key demo_evm h l p = p"
  using demo_keccak_suffix [of "b32 h @ b16 l" p] by (simp add: attestation_key_def key_preimage_def)

definition demo_registry :: registry_storage where
  "demo_registry = \<lparr>attestations = (\<lambda>_. empty_attestation)(7 := \<lparr>at_value_x_high = 1, at_value_x_low = 2,
       at_platform = 3, at_quote_hash = 5, at_pubkey = 7, registered_at = 1000, registrant = 9\<rparr>),
     attestation_count = 1, latest_key = 7, registry_log = [AttestationRegistered 9 1 2 3 5 7 1000]\<rparr>"

lemma demo_register: "register demo_evm (demo_env 9) registry_deployed 1 2 3 5 7 = Inr demo_registry"
  by (simp add: register_def Let_def nonpayable_def ensureR_def demo_env_def registry_deployed_def
      empty_attestation_def add256_def checked_add_def ok_or_def demo_registry_def)

section \<open>Property\<close>

text \<open>C33. In every state that calls can reach from deployment, a lookup answers yes exactly for the
  identities and keys of registration events, unless \<open>keccak256\<close> collides on the keys involved; an
  entry is never changed by later calls; and the counter is the number of registrations.\<close>

theorem registry_exact:
  assumes "registry_run K registry_deployed s" and "registry_run K s s'"
    and "inj_on (keccak256 K) (insert (key_preimage high low pubkey) (logged_preimages s'))"
  shows "(registry_verify K s' high low pubkey \<longleftrightarrow>
      (\<exists>who plat qh t. AttestationRegistered who high low plat qh pubkey t \<in> set (registry_log s'))) \<and>
    (registered_at (attestations s key) \<noteq> 0 \<longrightarrow> get_attestation s' key = get_attestation s key) \<and>
    unat (attestation_count s') = length (registry_log s')"
proof -
  have inv: "registry_inv K s'"
    using registry_run_inv [OF assms(2)] registry_run_inv [OF assms(1) registry_deployed_inv] by blast
  then have "registry_verify K s' high low pubkey"
    if "AttestationRegistered who high low plat qh pubkey t \<in> set (registry_log s')" for who plat qh t
    using that by (auto simp: registry_inv_def)
  then show ?thesis
    using registry_verify_logged [OF inv _ assms(3)] registry_run_keeps [OF assms(2)] inv
    by (auto simp: registry_inv_def get_attestation_def)
qed

theorem registry_exact_witness:
  "registry_run demo_evm registry_deployed demo_registry \<and> registry_verify demo_evm demo_registry 1 2 7 \<and>
   \<not> registry_verify demo_evm demo_registry 1 2 8"
proof -
  have r: "registry_run demo_evm registry_deployed demo_registry"
    by (rule registry_run.step [OF registry_run.start demo_register]) (simp add: demo_env_def)
  have "inj_on (keccak256 demo_evm) (insert (key_preimage 1 2 p) (logged_preimages demo_registry))" for p
    using demo_attestation_key unfolding attestation_key_def
    by (auto simp: inj_on_def logged_preimages_def demo_registry_def)
  from registry_exact [OF r registry_run.start this] r show ?thesis
    by (auto simp: demo_registry_def)
qed

end
