(* ===== verification/Tee_Gated.thy ===== *)
theory Tee_Gated
  imports Attest_Registry
begin

text \<open>
  The contract whose state changes only on the word of one TEE (\<open>contracts/TeeGated.vy\<close>). The lemmas
  follow a deployment through any sequence of calls: every accepted call carries a fresh signature of
  the registered address over its own arguments, no nonce is used twice (the one of the registration
  included), actions are numbered without gaps, and only a signed update changes the identity.
\<close>

section \<open>Storage and messages\<close>

datatype tee_event =
    TeeRegistered bytes32 bytes16 u8 address u256
  | ActionExecuted u256 address bytes32 u256
  | ValueXUpdated bytes32 bytes16 bytes32 bytes16 u256

record tee_storage =
  registered_value_x_high :: bytes32
  registered_value_x_low :: bytes16
  registered_platform :: u8
  registered_quote_hash :: bytes32
  registered_ed25519_pubkey :: bytes32
  registered_tee_address :: address
  tee_owner :: address
  action_count :: u256
  is_initialized :: bool
  used_nonces :: "bytes32 \<Rightarrow> bool"
  tee_log :: "tee_event list"

definition eth_signed :: "evm_prims \<Rightarrow> bytes32 \<Rightarrow> bytes32" where
  "eth_signed K h = keccak256 K ([0x19] @ lit ''Ethereum Signed Message:'' @ [10] @ lit ''32'' @ b32 h)"

definition recover :: "evm_prims \<Rightarrow> bytes32 \<Rightarrow> u8 \<Rightarrow> bytes32 \<Rightarrow> bytes32 \<Rightarrow> address" where
  "recover K h v r s = ecrecover K (eth_signed K h) (ucast v) r s"

definition registration_hash ::
  "evm_prims \<Rightarrow> bytes32 \<Rightarrow> bytes16 \<Rightarrow> u8 \<Rightarrow> bytes32 \<Rightarrow> bytes32 \<Rightarrow> u256 \<Rightarrow> bytes32 \<Rightarrow> bytes32" where
  "registration_hash K high low plat quote_hash pubkey timestamp nonce =
     keccak256 K (b32 high @ b16 low @ [plat] @ b32 quote_hash @ b32 pubkey @ b32 timestamp @ b32 nonce)"

definition message_hash :: "evm_prims \<Rightarrow> bytes32 \<Rightarrow> u256 \<Rightarrow> bytes32 \<Rightarrow> bytes32" where
  "message_hash K action_hash timestamp nonce = keccak256 K (b32 action_hash @ b32 timestamp @ b32 nonce)"

text \<open>The window around the time of the block.\<close>

definition check_window :: "evm_env \<Rightarrow> u256 \<Rightarrow> string \<Rightarrow> string \<Rightarrow> unit evm" where
  "check_window env timestamp old future =
     bindR (add256 timestamp 300) (\<lambda>t.
     if \<not> t \<ge> block_timestamp env then Inl old
     else bindR (add256 (block_timestamp env) 60) (\<lambda>t.
     ensureR (timestamp \<le> t) future))"

section \<open>Functions\<close>

definition tee_init ::
  "evm_prims \<Rightarrow> evm_env \<Rightarrow> bytes32 \<Rightarrow> bytes16 \<Rightarrow> u8 \<Rightarrow> bytes32 \<Rightarrow> bytes32 \<Rightarrow> address \<Rightarrow> u256 \<Rightarrow> bytes32 \<Rightarrow>
   u8 \<Rightarrow> bytes32 \<Rightarrow> bytes32 \<Rightarrow> tee_storage evm" where
  "tee_init K env high low plat quote_hash pubkey tee_address timestamp nonce v r s =
     bindR (nonpayable env) (\<lambda>_.
     let signer = recover K (registration_hash K high low plat quote_hash pubkey timestamp nonce) v r s in
     if signer \<noteq> tee_address then Inl ''registration signature invalid''
     else if signer = 0 then Inl ''zero signer''
     else if nonce = 0 then Inl ''empty nonce''
     else bindR (check_window env timestamp ''registration too old'' ''registration from future'') (\<lambda>_.
     Inr \<lparr>registered_value_x_high = high, registered_value_x_low = low, registered_platform = plat,
          registered_quote_hash = quote_hash, registered_ed25519_pubkey = pubkey,
          registered_tee_address = tee_address, tee_owner = msg_sender env, action_count = 0,
          is_initialized = True, used_nonces = (\<lambda>_. False)(nonce := True),
          tee_log = [TeeRegistered high low plat tee_address timestamp]\<rparr>))"

definition verify_tee_action ::
  "evm_prims \<Rightarrow> evm_env \<Rightarrow> tee_storage \<Rightarrow> bytes32 \<Rightarrow> u256 \<Rightarrow> bytes32 \<Rightarrow> u8 \<Rightarrow> bytes32 \<Rightarrow> bytes32 \<Rightarrow> tee_storage evm" where
  "verify_tee_action K env st action_hash timestamp nonce v r s =
     (if \<not> is_initialized st then Inl ''not initialized''
      else if used_nonces st nonce then Inl ''nonce already used''
      else if nonce = 0 then Inl ''empty nonce''
      else bindR (check_window env timestamp ''attestation too old'' ''attestation from future'') (\<lambda>_.
      let signer = recover K (message_hash K action_hash timestamp nonce) v r s in
      if signer \<noteq> registered_tee_address st then Inl ''not the registered TEE''
      else if signer = 0 then Inl ''zero signer''
      else Inr (st\<lparr>used_nonces := (used_nonces st)(nonce := True)\<rparr>)))"

definition action_hash :: "evm_prims \<Rightarrow> u256 \<Rightarrow> bytes32 \<Rightarrow> bytes32" where
  "action_hash K n data = keccak256 K (b32 n @ b32 data)"

definition execute_action ::
  "evm_prims \<Rightarrow> evm_env \<Rightarrow> tee_storage \<Rightarrow> bytes32 \<Rightarrow> u256 \<Rightarrow> bytes32 \<Rightarrow> u8 \<Rightarrow> bytes32 \<Rightarrow> bytes32 \<Rightarrow>
   (tee_storage \<times> u256) evm" where
  "execute_action K env st data timestamp nonce v r s =
     bindR (nonpayable env) (\<lambda>_.
     bindR (verify_tee_action K env st (action_hash K (action_count st) data) timestamp nonce v r s) (\<lambda>st.
     let action_id = action_count st in
     bindR (add256 action_id 1) (\<lambda>n.
     Inr (st\<lparr>action_count := n,
            tee_log := tee_log st @ [ActionExecuted action_id (msg_sender env) data timestamp]\<rparr>, action_id))))"

definition update_hash :: "evm_prims \<Rightarrow> bytes32 \<Rightarrow> bytes16 \<Rightarrow> bytes32 \<Rightarrow> bytes32" where
  "update_hash K high low quote_hash = keccak256 K (lit ''update_value_x'' @ b32 high @ b16 low @ b32 quote_hash)"

definition update_value_x ::
  "evm_prims \<Rightarrow> evm_env \<Rightarrow> tee_storage \<Rightarrow> bytes32 \<Rightarrow> bytes16 \<Rightarrow> bytes32 \<Rightarrow> u256 \<Rightarrow> bytes32 \<Rightarrow> u8 \<Rightarrow> bytes32 \<Rightarrow>
   bytes32 \<Rightarrow> tee_storage evm" where
  "update_value_x K env st high low quote_hash timestamp nonce v r s =
     bindR (nonpayable env) (\<lambda>_.
     bindR (verify_tee_action K env st (update_hash K high low quote_hash) timestamp nonce v r s) (\<lambda>st.
     Inr (st\<lparr>registered_value_x_high := high, registered_value_x_low := low, registered_quote_hash := quote_hash,
            tee_log := tee_log st @ [ValueXUpdated (registered_value_x_high st) (registered_value_x_low st)
              high low timestamp]\<rparr>)))"

definition get_tee_identity :: "tee_storage \<Rightarrow> bytes32 \<times> bytes16 \<times> u8 \<times> bytes32 \<times> bytes32 \<times> address" where
  "get_tee_identity st =
     (registered_value_x_high st, registered_value_x_low st, registered_platform st, registered_quote_hash st,
      registered_ed25519_pubkey st, registered_tee_address st)"

definition verify_value_x :: "tee_storage \<Rightarrow> bytes32 \<Rightarrow> bytes16 \<Rightarrow> bool" where
  "verify_value_x st high low = (registered_value_x_high st = high \<and> registered_value_x_low st = low)"

section \<open>Accepted calls\<close>

text \<open>An accepted call: the time of its block, its signature and the arguments that the signature covers.\<close>

type_synonym signature = "u8 \<times> bytes32 \<times> bytes32"

datatype tee_call =
    Execute (call_block: u256) (call_sig: signature) (call_data: bytes32) (call_time: u256) (call_nonce: bytes32)
  | UpdateX (call_block: u256) (call_sig: signature) (new_high: bytes32) (new_low: bytes16)
      (new_quote_hash: bytes32) (call_time: u256) (call_nonce: bytes32)

definition is_execute :: "tee_call \<Rightarrow> bool" where
  "is_execute c = (case c of Execute _ _ _ _ _ \<Rightarrow> True | UpdateX _ _ _ _ _ _ _ \<Rightarrow> False)"

text \<open>The signed hash of a call made after \<open>n\<close> actions.\<close>

definition signed_hash :: "evm_prims \<Rightarrow> u256 \<Rightarrow> tee_call \<Rightarrow> bytes32" where
  "signed_hash K n c = (case c of
     Execute _ _ data t nonce \<Rightarrow> message_hash K (action_hash K n data) t nonce
   | UpdateX _ _ high low qh t nonce \<Rightarrow> message_hash K (update_hash K high low qh) t nonce)"

inductive tee_step :: "evm_prims \<Rightarrow> tee_storage \<Rightarrow> tee_call \<Rightarrow> tee_storage \<Rightarrow> bool" for K where
  execute: "tee_step K st (Execute (block_timestamp env) (v, r, s) data t nonce) st'"
    if "execute_action K env st data t nonce v r s = Inr (st', action_id)"
| update: "tee_step K st (UpdateX (block_timestamp env) (v, r, s) high low qh t nonce) st'"
    if "update_value_x K env st high low qh t nonce v r s = Inr st'"

inductive tee_run :: "evm_prims \<Rightarrow> tee_storage \<Rightarrow> tee_call list \<Rightarrow> tee_storage \<Rightarrow> bool" for K where
  start: "tee_run K st [] st"
| step: "tee_run K st (cs @ [c]) st''" if "tee_run K st cs st'" and "tee_step K st' c st''"

inductive_cases tee_stepE: "tee_step K st c st'"

lemma verify_tee_action_Inr_iff:
  "verify_tee_action K env st h t nonce v r s = Inr st' \<longleftrightarrow>
     is_initialized st \<and> \<not> used_nonces st nonce \<and> nonce \<noteq> 0 \<and>
     check_window env t ''attestation too old'' ''attestation from future'' = Inr () \<and>
     recover K (message_hash K h t nonce) v r s = registered_tee_address st \<and> registered_tee_address st \<noteq> 0 \<and>
     st' = st\<lparr>used_nonces := (used_nonces st)(nonce := True)\<rparr>"
  by (auto simp: verify_tee_action_def Let_def result_simps)

lemma check_window_Inr_iff:
  "check_window env t old future = Inr u \<longleftrightarrow>
     unat t + 300 < 2 ^ 256 \<and> unat (block_timestamp env) \<le> unat t + 300 \<and>
     unat (block_timestamp env) + 60 < 2 ^ 256 \<and> unat t \<le> unat (block_timestamp env) + 60"
  by (auto simp: check_window_def result_simps word_le_nat_alt unat_word_ariths)

text \<open>What one accepted call needs, and what it does.\<close>

definition authorized :: "evm_prims \<Rightarrow> address \<Rightarrow> u256 \<Rightarrow> tee_call \<Rightarrow> bool" where
  "authorized K tee n c \<longleftrightarrow>
     (case call_sig c of (v, r, s) \<Rightarrow> recover K (signed_hash K n c) v r s = tee) \<and> tee \<noteq> 0 \<and>
     unat (call_block c) \<le> unat (call_time c) + 300 \<and> unat (call_time c) \<le> unat (call_block c) + 60"

lemma tee_step_effect:
  assumes "tee_step K st c st'"
  shows "\<not> used_nonces st (call_nonce c)" and "used_nonces st' = (used_nonces st)(call_nonce c := True)"
    and "authorized K (registered_tee_address st) (action_count st) c"
    and "registered_tee_address st' = registered_tee_address st"
    and "registered_platform st' = registered_platform st"
    and "registered_ed25519_pubkey st' = registered_ed25519_pubkey st"
    and "unat (action_count st') = unat (action_count st) + (if is_execute c then 1 else 0)"
    and "(registered_value_x_high st', registered_value_x_low st', registered_quote_hash st') =
      (case c of Execute _ _ _ _ _ \<Rightarrow> (registered_value_x_high st, registered_value_x_low st, registered_quote_hash st)
       | UpdateX _ _ high low qh _ _ \<Rightarrow> (high, low, qh))"
  using assms
  by (auto elim!: tee_stepE simp: execute_action_def update_value_x_def Let_def result_simps unat_word_ariths
      verify_tee_action_Inr_iff check_window_Inr_iff authorized_def signed_hash_def is_execute_def)

section \<open>Sequences of calls\<close>

definition executed :: "tee_call list \<Rightarrow> nat" where
  "executed cs = length (filter is_execute cs)"

text \<open>The identity after a sequence of calls: the one of the last update.\<close>

fun identity_after :: "bytes32 \<times> bytes16 \<times> bytes32 \<Rightarrow> tee_call list \<Rightarrow> bytes32 \<times> bytes16 \<times> bytes32" where
  "identity_after x [] = x"
| "identity_after x (UpdateX _ _ high low qh _ _ # cs) = identity_after (high, low, qh) cs"
| "identity_after x (Execute _ _ _ _ _ # cs) = identity_after x cs"

lemma identity_after_append: "identity_after x (cs @ ds) = identity_after (identity_after x cs) ds"
  by (induction x cs rule: identity_after.induct) auto

definition tee_inv :: "evm_prims \<Rightarrow> tee_storage \<Rightarrow> bytes32 set \<Rightarrow> tee_call list \<Rightarrow> tee_storage \<Rightarrow> bool" where
  "tee_inv K st0 used cs st \<longleftrightarrow>
     distinct (map call_nonce cs) \<and> set (map call_nonce cs) \<inter> used = {} \<and>
     {n. used_nonces st n} = used \<union> set (map call_nonce cs) \<and>
     (\<forall>i < length cs. authorized K (registered_tee_address st0) (action_count st0 + of_nat (executed (take i cs))) (cs ! i)) \<and>
     unat (action_count st) = unat (action_count st0) + executed cs \<and>
     registered_tee_address st = registered_tee_address st0 \<and> registered_platform st = registered_platform st0 \<and>
     registered_ed25519_pubkey st = registered_ed25519_pubkey st0 \<and>
     (registered_value_x_high st, registered_value_x_low st, registered_quote_hash st) =
       identity_after (registered_value_x_high st0, registered_value_x_low st0, registered_quote_hash st0) cs"

lemma action_count_run:
  assumes "unat (action_count st) = unat (action_count st0) + n"
  shows "action_count st = action_count st0 + of_nat n"
  using arg_cong [OF assms, of "of_nat :: nat \<Rightarrow> u256"] by simp

lemma tee_run_inv:
  assumes "tee_run K st0 cs st"
  shows "tee_inv K st0 {n. used_nonces st0 n} cs st"
  using assms
proof (induction rule: tee_run.induct)
  case (start st)
  then show ?case by (simp add: tee_inv_def executed_def)
next
  case (step st0 cs st c st')
  note e = tee_step_effect [OF step(2)]
  have c: "action_count st = action_count st0 + of_nat (executed cs)"
    using step.IH by (intro action_count_run) (simp add: tee_inv_def)
  have "authorized K (registered_tee_address st0) (action_count st0 + of_nat (executed (take i (cs @ [c])))) ((cs @ [c]) ! i)"
    if "i < length (cs @ [c])" for i
    using step.IH e(3) that by (auto simp: tee_inv_def nth_append c less_Suc_eq)
  moreover have "(registered_value_x_high st', registered_value_x_low st', registered_quote_hash st') =
       identity_after (registered_value_x_high st0, registered_value_x_low st0, registered_quote_hash st0) (cs @ [c])"
    using step.IH e(8) by (cases c) (auto simp: tee_inv_def identity_after_append)
  moreover have "{n. used_nonces st' n} = insert (call_nonce c) {n. used_nonces st n}" by (auto simp: e(2))
  ultimately show ?case
    using step.IH e(1,4-7) unfolding tee_inv_def by (auto simp: executed_def)
qed

section \<open>A concrete deployment\<close>

definition demo_tee :: tee_storage where
  "demo_tee = \<lparr>registered_value_x_high = 1, registered_value_x_low = 2, registered_platform = 3,
     registered_quote_hash = 4, registered_ed25519_pubkey = 5, registered_tee_address = 6, tee_owner = 9,
     action_count = 0, is_initialized = True, used_nonces = (\<lambda>_. False)(11 := True),
     tee_log = [TeeRegistered 1 2 3 6 900]\<rparr>"

lemma demo_recover [simp]: "recover demo_evm h v r s = of_nat (unat r)"
  by (simp add: recover_def demo_evm_def)

lemma demo_tee_init: "tee_init demo_evm (demo_env 9) 1 2 3 4 5 6 900 11 27 6 0 = Inr demo_tee"
proof -
  have "check_window (demo_env 9) 900 a b = Inr ()" for a b
    by (simp add: check_window_Inr_iff demo_env_def)
  then show ?thesis by (simp add: tee_init_def nonpayable_def ensureR_def demo_env_def demo_tee_def Let_def)
qed

lemma demo_tee_step: "\<exists>st. tee_step demo_evm demo_tee (Execute 1000 (27, 6, 0) 8 1000 12) st"
proof -
  have w: "check_window (demo_env 9) 1000 a b = Inr ()" for a b
    by (simp add: check_window_Inr_iff demo_env_def)
  have "\<exists>st i. execute_action demo_evm (demo_env 9) demo_tee 8 1000 12 27 6 0 = Inr (st, i)"
    using w by (simp add: execute_action_def verify_tee_action_def nonpayable_def ensureR_def demo_tee_def Let_def
        add256_def checked_add_def ok_or_def) (simp add: demo_env_def)
  then show ?thesis using tee_step.execute [of demo_evm "demo_env 9"] by (force simp: demo_env_def)
qed

section \<open>Properties\<close>

text \<open>C32. From deployment on, through any sequence of accepted calls: no nonce occurs twice, and none is
  the one of the registration; each call carries a signature by the registered address, over its own
  arguments and (for an action) the number of actions before it, made within the window around its
  block; the counter numbers the actions without gaps; the address, the platform and the Ed25519 key are
  those of the registration, and the application identity is that of the last signed update.\<close>

theorem tee_gated_authorized:
  assumes "tee_init K env high low plat qh pubkey tee timestamp nonce v r s = Inr st0" and "tee_run K st0 cs st"
  shows "distinct (nonce # map call_nonce cs) \<and>
    (\<forall>i < length cs. authorized K tee (of_nat (executed (take i cs))) (cs ! i)) \<and>
    unat (action_count st) = executed cs \<and>
    (let (high', low', qh') = identity_after (high, low, qh) cs in
     get_tee_identity st = (high', low', plat, qh', pubkey, tee) \<and> verify_value_x st high' low')"
proof -
  have "registered_value_x_high st0 = high" "registered_value_x_low st0 = low" "registered_quote_hash st0 = qh"
    "registered_platform st0 = plat" "registered_ed25519_pubkey st0 = pubkey" "registered_tee_address st0 = tee"
    "action_count st0 = 0" "{n. used_nonces st0 n} = {nonce}"
    using assms(1) by (auto simp: tee_init_def Let_def result_simps split: if_splits)
  with tee_run_inv [OF assms(2)] show ?thesis
    by (auto simp: tee_inv_def get_tee_identity_def verify_value_x_def split: prod.splits)
qed

theorem tee_gated_authorized_witness:
  "\<exists>st. tee_run demo_evm demo_tee [Execute 1000 (27, 6, 0) 8 1000 12] st \<and> unat (action_count st) = 1 \<and>
     verify_value_x st 1 2"
proof -
  obtain st where "tee_step demo_evm demo_tee (Execute 1000 (27, 6, 0) 8 1000 12) st" using demo_tee_step by blast
  then have r: "tee_run demo_evm demo_tee ([] @ [Execute 1000 (27, 6, 0) 8 1000 12]) st"
    by (rule tee_run.step [OF tee_run.start])
  from tee_gated_authorized [OF demo_tee_init r] r show ?thesis
    by (auto simp: executed_def is_execute_def)
qed

text \<open>The signed message of an action names neither the contract nor the chain: what one deployment
  accepts, another one of the same TEE accepts too while its counter and nonces allow it.\<close>

lemma action_replays_on_other_deployment:
  assumes "execute_action K env st data t nonce v r s = Inr (st', n)"
    and "is_initialized other" and "registered_tee_address other = registered_tee_address st"
    and "action_count other = action_count st" and "\<not> used_nonces other nonce"
  shows "\<exists>other'. execute_action K env other data t nonce v r s = Inr (other', n)"
  using assms by (auto simp: execute_action_def verify_tee_action_def Let_def result_simps)

end
