(* ===== verification/Update_Challenge.thy ===== *)
theory Update_Challenge
  imports Attest_Registry
begin

text \<open>
  The commit-reveal vote on a new application identity (\<open>contracts/UpdateChallenge.vy\<close>): proposals with
  a stake, hidden votes, their reveal, the tally and the payment of stakes. The balance of the contract
  is part of its state, and may also grow by transfers that no function receives. The lemmas are about
  the states that calls can reach while the block number grows: the counters are the numbers of revealed
  votes, the recommended identity is one that a majority approved, and the balance covers every stake
  not yet paid out.
\<close>

section \<open>Storage\<close>

abbreviation COMMIT_PERIOD :: u256 where "COMMIT_PERIOD \<equiv> 50400"
abbreviation REVEAL_PERIOD :: u256 where "REVEAL_PERIOD \<equiv> 21600"
abbreviation ESCROW_LOCK :: u256 where "ESCROW_LOCK \<equiv> 216000"

record Proposal =
  proposer :: address
  new_value_x_high :: bytes32
  new_value_x_low :: bytes16
  build_provenance_hash :: bytes32
  analysis_hash :: bytes32
  stake :: u256
  commit_deadline :: u256
  reveal_deadline :: u256
  resolved :: bool
  approved :: bool
  approve_count :: u256
  reject_count :: u256
  escrow_unlock_block :: u256

definition empty_proposal :: Proposal where
  "empty_proposal = \<lparr>proposer = 0, new_value_x_high = 0, new_value_x_low = 0, build_provenance_hash = 0,
     analysis_hash = 0, stake = 0, commit_deadline = 0, reveal_deadline = 0, resolved = False, approved = False,
     approve_count = 0, reject_count = 0, escrow_unlock_block = 0\<rparr>"

datatype challenge_event =
    UpdateProposed bytes32 address bytes32 bytes16 u256 u256 u256
  | VoteCommitted bytes32 address
  | VoteRevealed bytes32 address bool
  | ProposalResolved bytes32 bool u256 u256
  | RewardClaimed bytes32 address u256

record challenge_storage =
  proposals :: "bytes32 \<Rightarrow> Proposal"
  proposal_count :: u256
  commitments :: "address \<Rightarrow> bytes32 \<Rightarrow> bytes32"
  reveals :: "address \<Rightarrow> bytes32 \<Rightarrow> u8"
  claimed :: "address \<Rightarrow> bytes32 \<Rightarrow> bool"
  current_value_x_high :: bytes32
  current_value_x_low :: bytes16
  min_stake :: u256
  challenge_owner :: address
  challenge_log :: "challenge_event list"
  self_balance :: nat

abbreviation emit :: "challenge_event \<Rightarrow> challenge_storage \<Rightarrow> challenge_storage" where
  "emit ev s \<equiv> s\<lparr>challenge_log := challenge_log s @ [ev]\<rparr>"

abbreviation set_proposal :: "bytes32 \<Rightarrow> Proposal \<Rightarrow> challenge_storage \<Rightarrow> challenge_storage" where
  "set_proposal pid p s \<equiv> s\<lparr>proposals := (proposals s)(pid := p)\<rparr>"

definition upd2 :: "('a \<Rightarrow> 'b \<Rightarrow> 'c) \<Rightarrow> 'a \<Rightarrow> 'b \<Rightarrow> 'c \<Rightarrow> 'a \<Rightarrow> 'b \<Rightarrow> 'c" where
  "upd2 f a b c = f(a := (f a)(b := c))"

section \<open>Functions\<close>

definition challenge_init :: "evm_env \<Rightarrow> u256 \<Rightarrow> challenge_storage evm" where
  "challenge_init env min_stake_wei =
     bindR (nonpayable env) (\<lambda>_.
     Inr \<lparr>proposals = (\<lambda>_. empty_proposal), proposal_count = 0, commitments = (\<lambda>_ _. 0), reveals = (\<lambda>_ _. 0),
          claimed = (\<lambda>_ _. False), current_value_x_high = 0, current_value_x_low = 0, min_stake = min_stake_wei,
          challenge_owner = msg_sender env, challenge_log = [], self_balance = 0\<rparr>)"

definition propose ::
  "evm_prims \<Rightarrow> evm_env \<Rightarrow> challenge_storage \<Rightarrow> bytes32 \<Rightarrow> bytes16 \<Rightarrow> bytes32 \<Rightarrow> bytes32 \<Rightarrow>
   (challenge_storage \<times> bytes32) evm" where
  "propose K env s high low provenance analysis =
     (if \<not> msg_value env \<ge> min_stake s then Inl ''insufficient stake''
      else
        let pid = keccak256 K (b32 high @ b16 low @ b32 (block_number env)) in
        if commit_deadline (proposals s pid) \<noteq> 0 then Inl ''exists''
        else bindR (add256 (block_number env) COMMIT_PERIOD) (\<lambda>commit_by.
        bindR (add256 commit_by REVEAL_PERIOD) (\<lambda>reveal_by.
        bindR (add256 (proposal_count s) 1) (\<lambda>n.
        Inr (emit (UpdateProposed pid (msg_sender env) high low (msg_value env) commit_by reveal_by)
              (set_proposal pid
                \<lparr>proposer = msg_sender env, new_value_x_high = high, new_value_x_low = low,
                 build_provenance_hash = provenance, analysis_hash = analysis, stake = msg_value env,
                 commit_deadline = commit_by, reveal_deadline = reveal_by, resolved = False, approved = False,
                 approve_count = 0, reject_count = 0, escrow_unlock_block = 0\<rparr>
                (s\<lparr>proposal_count := n, self_balance := self_balance s + unat (msg_value env)\<rparr>)), pid)))))"

definition commit_vote :: "evm_env \<Rightarrow> challenge_storage \<Rightarrow> bytes32 \<Rightarrow> bytes32 \<Rightarrow> challenge_storage evm" where
  "commit_vote env s pid commitment =
     bindR (nonpayable env) (\<lambda>_.
     let p = proposals s pid; me = msg_sender env in
     if \<not> commit_deadline p > 0 then Inl ''no proposal''
     else if \<not> block_number env \<le> commit_deadline p then Inl ''commit phase ended''
     else if commitments s me pid \<noteq> 0 then Inl ''already committed''
     else Inr (emit (VoteCommitted pid me) (s\<lparr>commitments := upd2 (commitments s) me pid commitment\<rparr>)))"

definition vote_commitment :: "evm_prims \<Rightarrow> bool \<Rightarrow> bytes32 \<Rightarrow> bytes32" where
  "vote_commitment K approve salt = keccak256 K ([if approve then 1 else 0] @ b32 salt)"

definition reveal_vote ::
  "evm_prims \<Rightarrow> evm_env \<Rightarrow> challenge_storage \<Rightarrow> bytes32 \<Rightarrow> bool \<Rightarrow> bytes32 \<Rightarrow> challenge_storage evm" where
  "reveal_vote K env s pid approve salt =
     bindR (nonpayable env) (\<lambda>_.
     let p = proposals s pid; me = msg_sender env in
     if \<not> commit_deadline p > 0 then Inl ''no proposal''
     else if \<not> block_number env > commit_deadline p then Inl ''still in commit phase''
     else if \<not> block_number env \<le> reveal_deadline p then Inl ''reveal phase ended''
     else if reveals s me pid \<noteq> 0 then Inl ''already revealed''
     else if commitments s me pid \<noteq> vote_commitment K approve salt then Inl ''commitment mismatch''
     else bindR
       (if approve then
          bindR (add256 (approve_count p) 1) (\<lambda>n.
          Inr (set_proposal pid (p\<lparr>approve_count := n\<rparr>) (s\<lparr>reveals := upd2 (reveals s) me pid 1\<rparr>)))
        else
          bindR (add256 (reject_count p) 1) (\<lambda>n.
          Inr (set_proposal pid (p\<lparr>reject_count := n\<rparr>) (s\<lparr>reveals := upd2 (reveals s) me pid 2\<rparr>)))) (\<lambda>s.
     Inr (emit (VoteRevealed pid me approve) s)))"

definition resolve :: "evm_env \<Rightarrow> challenge_storage \<Rightarrow> bytes32 \<Rightarrow> challenge_storage evm" where
  "resolve env s pid =
     bindR (nonpayable env) (\<lambda>_.
     let p = proposals s pid in
     if \<not> commit_deadline p > 0 then Inl ''no proposal''
     else if \<not> block_number env > reveal_deadline p then Inl ''reveal phase not ended''
     else if resolved p then Inl ''already resolved''
     else bindR (add256 (approve_count p) (reject_count p)) (\<lambda>total.
     let verdict = (if total = 0 then False else approve_count p > reject_count p) in
     bindR (add256 (block_number env) ESCROW_LOCK) (\<lambda>unlock.
     let p' = p\<lparr>resolved := True, approved := verdict, escrow_unlock_block := unlock\<rparr>;
         s' = set_proposal pid p' s;
         s' = (if verdict then s'\<lparr>current_value_x_high := new_value_x_high p,
                                  current_value_x_low := new_value_x_low p\<rparr> else s') in
     Inr (emit (ProposalResolved pid verdict (approve_count p) (reject_count p)) s'))))"

definition claim_amount :: "Proposal \<Rightarrow> u8 \<Rightarrow> address \<Rightarrow> u256 evm" where
  "claim_amount p vote me =
     (if approved p then Inr (if me = proposer p then stake p else 0)
      else if reject_count p = 0 then Inr (if me = proposer p then stake p else 0)
      else if \<not> vote > 0 then Inl ''did not vote''
      else Inr (if vote = 2 then stake p div reject_count p else 0))"

text \<open>A transfer fails when the balance is too small or the receiver refuses it; the gas that goes with it
  is too little for a call back into the contract.\<close>

definition claim_reward ::
  "(address \<Rightarrow> bool) \<Rightarrow> evm_env \<Rightarrow> challenge_storage \<Rightarrow> bytes32 \<Rightarrow> challenge_storage evm" where
  "claim_reward accepts env s pid =
     bindR (nonpayable env) (\<lambda>_.
     let p = proposals s pid; me = msg_sender env in
     if \<not> resolved p then Inl ''not resolved''
     else if \<not> block_number env \<ge> escrow_unlock_block p then Inl ''escrow locked''
     else if claimed s me pid then Inl ''already claimed''
     else bindR (claim_amount p (reveals s me pid) me) (\<lambda>reward.
     if \<not> reward > 0 then Inl ''no reward''
     else if self_balance s < unat reward then Inl ''insufficient balance''
     else if \<not> accepts me then Inl ''transfer refused''
     else Inr (emit (RewardClaimed pid me reward)
                (s\<lparr>claimed := upd2 (claimed s) me pid True, self_balance := self_balance s - unat reward\<rparr>))))"

definition get_proposal ::
  "challenge_storage \<Rightarrow> bytes32 \<Rightarrow>
   address \<times> bytes32 \<times> bytes16 \<times> u256 \<times> u256 \<times> u256 \<times> bool \<times> bool \<times> u256 \<times> u256" where
  "get_proposal s pid =
     (let p = proposals s pid in
      (proposer p, new_value_x_high p, new_value_x_low p, stake p, commit_deadline p, reveal_deadline p,
       resolved p, approved p, approve_count p, reject_count p))"

definition is_active :: "challenge_storage \<Rightarrow> bytes32 \<Rightarrow> bool" where
  "is_active s pid = (commit_deadline (proposals s pid) > 0 \<and> \<not> resolved (proposals s pid))"

definition current_value_x :: "challenge_storage \<Rightarrow> bytes32 \<times> bytes16" where
  "current_value_x s = (current_value_x_high s, current_value_x_low s)"

section \<open>Reachable states\<close>

text \<open>The states after any calls by anyone, in blocks whose numbers do not decrease.\<close>

inductive reachable :: "evm_prims \<Rightarrow> (address \<Rightarrow> bool) \<Rightarrow> u256 \<Rightarrow> challenge_storage \<Rightarrow> bool" for K accepts where
  deploy: "reachable K accepts (block_number env) s" if "challenge_init env m = Inr s"
| proposed: "reachable K accepts (block_number env) s'"
    if "reachable K accepts b s" "b \<le> block_number env" "propose K env s high low prov ana = Inr (s', pid)"
| committed: "reachable K accepts (block_number env) s'"
    if "reachable K accepts b s" "b \<le> block_number env" "commit_vote env s pid c = Inr s'"
| revealed: "reachable K accepts (block_number env) s'"
    if "reachable K accepts b s" "b \<le> block_number env" "reveal_vote K env s pid a salt = Inr s'"
| settled: "reachable K accepts (block_number env) s'"
    if "reachable K accepts b s" "b \<le> block_number env" "resolve env s pid = Inr s'"
| paid_out: "reachable K accepts (block_number env) s'"
    if "reachable K accepts b s" "b \<le> block_number env" "claim_reward accepts env s pid = Inr s'"
| received: "reachable K accepts b (s\<lparr>self_balance := self_balance s + n\<rparr>)" if "reachable K accepts b s"

text \<open>What a claim of a voter is worth, given the revealed choices, and what is still owed for a proposal.\<close>

definition reward_of :: "Proposal \<Rightarrow> (address \<Rightarrow> u8) \<Rightarrow> address \<Rightarrow> nat" where
  "reward_of p choice v =
     (if approved p \<or> reject_count p = 0 then (if v = proposer p then unat (stake p) else 0)
      else if choice v = 2 then unat (stake p) div unat (reject_count p)
      else 0)"

definition paid :: "Proposal \<Rightarrow> (address \<Rightarrow> u8) \<Rightarrow> (address \<Rightarrow> bool) \<Rightarrow> nat" where
  "paid p choice done_by = (\<Sum>v | done_by v. reward_of p choice v)"

abbreviation choices :: "challenge_storage \<Rightarrow> bytes32 \<Rightarrow> address \<Rightarrow> u8" where
  "choices s pid \<equiv> (\<lambda>v. reveals s v pid)"

abbreviation claims_of :: "challenge_storage \<Rightarrow> bytes32 \<Rightarrow> address \<Rightarrow> bool" where
  "claims_of s pid \<equiv> (\<lambda>v. claimed s v pid)"

definition outstanding :: "challenge_storage \<Rightarrow> bytes32 \<Rightarrow> nat" where
  "outstanding s pid = unat (stake (proposals s pid)) - paid (proposals s pid) (choices s pid) (claims_of s pid)"

text \<open>The invariants: votes and deadlines of a proposal, the recommended identity, and the funds.\<close>

definition votes_ok ::
  "evm_prims \<Rightarrow> u256 \<Rightarrow> Proposal \<Rightarrow> (address \<Rightarrow> u8) \<Rightarrow> (address \<Rightarrow> bytes32) \<Rightarrow> (address \<Rightarrow> bool) \<Rightarrow> bool" where
  "votes_ok K b p choice commitment done_by \<longleftrightarrow>
     (commit_deadline p = 0 \<longrightarrow> p = empty_proposal) \<and> commit_deadline p \<le> reveal_deadline p \<and>
     unat (approve_count p) = card {v. choice v = 1} \<and> unat (reject_count p) = card {v. choice v = 2} \<and>
     (resolved p \<longrightarrow> reveal_deadline p < b) \<and>
     (approved p \<longrightarrow> resolved p \<and> reject_count p < approve_count p) \<and>
     (\<forall>v. choice v \<noteq> 0 \<longrightarrow> commit_deadline p < b \<and>
        (\<exists>a salt. choice v = (if a then 1 else 2) \<and> commitment v = vote_commitment K a salt)) \<and>
     (\<forall>v. done_by v \<longrightarrow> resolved p)"

definition votes_inv :: "evm_prims \<Rightarrow> u256 \<Rightarrow> challenge_storage \<Rightarrow> bool" where
  "votes_inv K b s \<longleftrightarrow>
     (\<forall>pid. votes_ok K b (proposals s pid) (choices s pid) (\<lambda>v. commitments s v pid) (claims_of s pid))"

definition value_inv :: "challenge_storage \<Rightarrow> bool" where
  "value_inv s \<longleftrightarrow> current_value_x s = (0, 0) \<or>
     (\<exists>pid. approved (proposals s pid) \<and>
        current_value_x s = (new_value_x_high (proposals s pid), new_value_x_low (proposals s pid)))"

definition funds_inv :: "challenge_storage \<Rightarrow> bool" where
  "funds_inv s \<longleftrightarrow> (\<Sum>pid \<in> UNIV. outstanding s pid) \<le> self_balance s"

section \<open>Rewards\<close>

lemma upd2_apply [simp]: "upd2 f a b c x y = (if x = a \<and> y = b then c else f x y)"
  by (simp add: upd2_def)

lemma reward_total:
  assumes "unat (reject_count p) = card {v. choice v = 2}"
  shows "(\<Sum>v \<in> UNIV. reward_of p choice v) \<le> unat (stake p)"
proof (cases "approved p \<or> reject_count p = 0")
  case True
  then show ?thesis by (simp add: reward_of_def sum.delta)
next
  case False
  then have "(\<Sum>v \<in> UNIV. reward_of p choice v) = (\<Sum>v | choice v = 2. unat (stake p) div unat (reject_count p))"
    by (simp add: reward_of_def sum.If_cases Collect_conj_eq)
  also have "\<dots> \<le> unat (stake p)" by (simp add: assms)
  finally show ?thesis .
qed

lemma paid_le_stake:
  assumes "unat (reject_count p) = card {v. choice v = 2}"
  shows "paid p choice done_by \<le> unat (stake p)"
proof -
  have "paid p choice done_by \<le> (\<Sum>v \<in> UNIV. reward_of p choice v)"
    unfolding paid_def by (rule sum_mono2) auto
  then show ?thesis using reward_total [OF assms] by linarith
qed

lemma paid_none [simp]: "(\<And>v. \<not> done_by v) \<Longrightarrow> paid p choice done_by = 0"
  by (simp add: paid_def)

lemma paid_claim:
  assumes "\<not> done_by v"
  shows "paid p choice (done_by(v := True)) = paid p choice done_by + reward_of p choice v"
proof -
  have "{u. (done_by(v := True)) u} = insert v {u. done_by u}" by auto
  then show ?thesis using assms by (simp add: paid_def)
qed

lemma sum_change:
  fixes f g :: "'a::finite \<Rightarrow> nat"
  assumes "\<And>q. q \<noteq> a \<Longrightarrow> g q = f q"
  shows "sum g UNIV + f a = sum f UNIV + g a"
proof -
  have "sum g (UNIV - {a}) = sum f (UNIV - {a})" using assms by (intro sum.cong) auto
  then show ?thesis by (simp add: sum.remove [of UNIV a f] sum.remove [of UNIV a g])
qed

lemma outstanding_frame:
  "proposals s' q = proposals s q \<Longrightarrow> choices s' q = choices s q \<Longrightarrow> claims_of s' q = claims_of s q \<Longrightarrow>
   outstanding s' q = outstanding s q"
  by (simp add: outstanding_def)

lemma votes_ok_later: "votes_ok K b p choice commitment done_by \<Longrightarrow> b \<le> b' \<Longrightarrow> votes_ok K b' p choice commitment done_by"
  unfolding votes_ok_def by (meson order_less_le_trans)

section \<open>Every call keeps the invariants\<close>

definition challenge_inv :: "evm_prims \<Rightarrow> u256 \<Rightarrow> challenge_storage \<Rightarrow> bool" where
  "challenge_inv K b s \<longleftrightarrow> votes_inv K b s \<and> value_inv s \<and> funds_inv s"

text \<open>A call touches one proposal: what is to show about it.\<close>

lemma challenge_inv_update:
  assumes inv: "challenge_inv K b s" and "b \<le> b'"
    and frame: "\<And>q. q \<noteq> pid \<Longrightarrow> proposals s' q = proposals s q \<and> choices s' q = choices s q \<and>
      (\<lambda>v. commitments s' v q) = (\<lambda>v. commitments s v q) \<and> claims_of s' q = claims_of s q"
    and votes: "votes_ok K b' (proposals s' pid) (choices s' pid) (\<lambda>v. commitments s' v pid) (claims_of s' pid)"
    and funds: "outstanding s' pid + self_balance s \<le> outstanding s pid + self_balance s'"
    and kept: "approved (proposals s pid) \<Longrightarrow> approved (proposals s' pid) \<and>
      new_value_x_high (proposals s' pid) = new_value_x_high (proposals s pid) \<and>
      new_value_x_low (proposals s' pid) = new_value_x_low (proposals s pid)"
    and current: "current_value_x s' = current_value_x s \<or> approved (proposals s' pid) \<and>
      current_value_x s' = (new_value_x_high (proposals s' pid), new_value_x_low (proposals s' pid))"
  shows "challenge_inv K b' s'"
proof -
  have "votes_ok K b' (proposals s' q) (choices s' q) (\<lambda>v. commitments s' v q) (claims_of s' q)" for q
    using inv votes frame [of q] votes_ok_later [OF _ assms(2)]
    by (cases "q = pid") (simp_all add: challenge_inv_def votes_inv_def)
  moreover have "(\<Sum>q \<in> UNIV. outstanding s' q) + outstanding s pid = (\<Sum>q \<in> UNIV. outstanding s q) + outstanding s' pid"
    by (rule sum_change) (simp add: outstanding_def frame)
  moreover have "value_inv s'"
    using inv current kept frame unfolding challenge_inv_def value_inv_def by metis
  ultimately show ?thesis
    using inv funds by (simp add: challenge_inv_def votes_inv_def funds_inv_def)
qed

lemma votes_invD: "challenge_inv K b s \<Longrightarrow>
   votes_ok K b (proposals s pid) (choices s pid) (\<lambda>v. commitments s v pid) (claims_of s pid)"
  by (simp add: challenge_inv_def votes_inv_def)

lemma votes_ok_none:
  assumes "votes_ok K b p choice commitment done_by" "commit_deadline p = 0"
  shows "p = empty_proposal" "choice v = 0" "\<not> done_by v"
proof -
  show p: "p = empty_proposal" using assms by (simp add: votes_ok_def)
  then have "card {v. choice v = 1} = 0" "card {v. choice v = 2} = 0"
    using assms(1) by (simp_all add: votes_ok_def empty_proposal_def)
  then have none: "choice v \<noteq> 1" "choice v \<noteq> 2" by simp_all
  show "choice v = 0"
  proof (rule ccontr)
    assume "choice v \<noteq> 0"
    then obtain a :: bool where "choice v = (if a then 1 else 2)" using assms(1) unfolding votes_ok_def by blast
    with none show False by (cases a) simp_all
  qed
  show "\<not> done_by v" using assms(1) p unfolding votes_ok_def by (auto simp: empty_proposal_def)
qed

lemma votes_ok_unresolved: "votes_ok K b p choice commitment done_by \<Longrightarrow> \<not> resolved p \<Longrightarrow> \<not> done_by v \<and> \<not> approved p"
  by (auto simp: votes_ok_def)

lemma votes_ok_open:
  "votes_ok K b p choice commitment done_by \<Longrightarrow> b \<le> n \<Longrightarrow> n \<le> reveal_deadline p \<Longrightarrow> \<not> resolved p"
  by (auto simp: votes_ok_def)

lemma propose_inv:
  assumes inv: "challenge_inv K b s" and "b \<le> block_number env"
    and call: "propose K env s high low prov ana = Inr (s', pid)"
  shows "challenge_inv K (block_number env) s'"
proof -
  obtain c r n where new: "commit_deadline (proposals s pid) = 0"
      and c: "add256 (block_number env) COMMIT_PERIOD = Inr c" and r: "add256 c REVEAL_PERIOD = Inr r"
      and s': "s' = emit (UpdateProposed pid (msg_sender env) high low (msg_value env) c r)
              (set_proposal pid
                \<lparr>proposer = msg_sender env, new_value_x_high = high, new_value_x_low = low,
                 build_provenance_hash = prov, analysis_hash = ana, stake = msg_value env,
                 commit_deadline = c, reveal_deadline = r, resolved = False, approved = False,
                 approve_count = 0, reject_count = 0, escrow_unlock_block = 0\<rparr>
                (s\<lparr>proposal_count := n, self_balance := self_balance s + unat (msg_value env)\<rparr>))"
    using call unfolding propose_def Let_def by (auto simp: bindR_Inr_iff if_Inl_eq_Inr_iff)
  note old = votes_ok_none [OF votes_invD [OF inv] new]
  have "c \<le> r" "c \<noteq> 0"
    using unat_add256 [OF c] unat_add256 [OF r] by (auto simp: word_le_nat_alt)
  then show ?thesis
    by (intro challenge_inv_update [OF inv assms(2), of pid])
      (simp_all add: s' old votes_ok_def outstanding_def empty_proposal_def current_value_x_def)
qed

lemma commit_inv:
  assumes inv: "challenge_inv K b s" and b: "b \<le> block_number env" and call: "commit_vote env s pid c = Inr s'"
  shows "challenge_inv K (block_number env) s'"
proof -
  let ?me = "msg_sender env"
  have open_phase: "block_number env \<le> commit_deadline (proposals s pid)"
      and s': "s' = emit (VoteCommitted pid ?me) (s\<lparr>commitments := upd2 (commitments s) ?me pid c\<rparr>)"
    using call by (auto simp: commit_vote_def Let_def result_simps)
  have v: "votes_ok K (block_number env) (proposals s pid) (choices s pid) (\<lambda>v. commitments s v pid) (claims_of s pid)"
    using votes_ok_later [OF votes_invD [OF inv] b] .
  then have "reveals s v pid = 0" for v
    using open_phase unfolding votes_ok_def by (meson leD)
  with v have "votes_ok K (block_number env) (proposals s pid) (choices s pid) (\<lambda>v. commitments s' v pid) (claims_of s pid)"
    by (simp add: votes_ok_def)
  then show ?thesis
    by (intro challenge_inv_update [OF inv b, of pid]) (simp_all add: s' outstanding_def current_value_x_def)
qed

lemma card_vote:
  fixes choice :: "address \<Rightarrow> u8"
  assumes "choice v = 0" and "j \<noteq> 0"
  shows "card {u. (choice(v := k)) u = j} = card {u. choice u = j} + (if j = k then 1 else 0)"
proof (cases "j = k")
  case True
  then have "{u. (choice(v := k)) u = j} = insert v {u. choice u = j}" by auto
  with assms True show ?thesis by simp
next
  case False
  then have "{u. (choice(v := k)) u = j} = {u. choice u = j}" using assms by auto
  with False show ?thesis by simp
qed

lemma votes_ok_vote:
  assumes ok: "votes_ok K b p choice commitment done_by" and "choice v = 0" and k: "k = (if a then 1 else 2)"
    and "commit_deadline p < b" and "\<not> resolved p" and "commitment v = vote_commitment K a salt"
    and "p' = (if a then p\<lparr>approve_count := n\<rparr> else p\<lparr>reject_count := n\<rparr>)"
    and "add256 (if a then approve_count p else reject_count p) 1 = Inr n" and "commit_deadline p \<noteq> 0"
  shows "votes_ok K b p' (choice(v := k)) commitment done_by"
proof -
  have n: "unat n = unat (if a then approve_count p else reject_count p) + 1"
    using unat_add256 [OF assms(8)] by simp
  note c = card_vote [where choice = choice and k = k and j = 1, OF assms(2)]
    card_vote [where choice = choice and k = k and j = 2, OF assms(2)]
  have "\<exists>a' salt. k = (if a' then 1 else 2) \<and> commitment v = vote_commitment K a' salt"
    using assms(6) k by blast
  with ok show ?thesis
    unfolding votes_ok_def using assms(4,5,7,9) c n k by (cases a) simp_all
qed

lemma reveal_inv:
  assumes inv: "challenge_inv K b s" and b: "b \<le> block_number env" and call: "reveal_vote K env s pid a salt = Inr s'"
  shows "challenge_inv K (block_number env) s'"
proof -
  let ?me = "msg_sender env" and ?p = "proposals s pid" and ?k = "(if a then 1 else 2) :: u8"
  obtain n where n: "add256 (if a then approve_count ?p else reject_count ?p) 1 = Inr n"
      and phase: "commit_deadline ?p \<noteq> 0" "commit_deadline ?p < block_number env" "block_number env \<le> reveal_deadline ?p"
      and fresh: "reveals s ?me pid = 0" and com: "commitments s ?me pid = vote_commitment K a salt"
      and s': "s' = emit (VoteRevealed pid ?me a) (set_proposal pid
        (if a then ?p\<lparr>approve_count := n\<rparr> else ?p\<lparr>reject_count := n\<rparr>) (s\<lparr>reveals := upd2 (reveals s) ?me pid ?k\<rparr>))"
    using call unfolding reveal_vote_def Let_def by (cases a) (auto simp: bindR_Inr_iff if_Inl_eq_Inr_iff)
  note v = votes_ok_later [OF votes_invD [OF inv] b, of pid]
  have unres: "\<not> resolved ?p" using votes_ok_open [OF v _ phase(3)] by simp
  have ch: "choices s' pid = (choices s pid)(?me := ?k)" by (auto simp: s')
  have "votes_ok K (block_number env) (proposals s' pid) (choices s' pid) (\<lambda>v. commitments s' v pid) (claims_of s' pid)"
    unfolding ch using votes_ok_vote [OF v _ refl phase(2) unres _ refl n phase(1), of ?me salt] fresh com
    by (simp add: s')
  moreover have "outstanding s' pid = outstanding s pid"
    using votes_ok_unresolved [OF v unres] by (cases a) (simp_all add: outstanding_def s')
  ultimately show ?thesis
    using votes_ok_unresolved [OF v unres]
    by (intro challenge_inv_update [OF inv b, of pid]) (simp_all add: s' current_value_x_def)
qed

lemma resolve_Inr:
  assumes "resolve env s pid = Inr s'"
  defines "p \<equiv> proposals s pid"
  defines "win \<equiv> approve_count p > reject_count p"
  obtains u where "commit_deadline p \<noteq> 0" and "reveal_deadline p < block_number env" and "\<not> resolved p"
    and "s' = emit (ProposalResolved pid win (approve_count p) (reject_count p))
        (if win then (set_proposal pid (p\<lparr>resolved := True, approved := True, escrow_unlock_block := u\<rparr>) s)
           \<lparr>current_value_x_high := new_value_x_high p, current_value_x_low := new_value_x_low p\<rparr>
         else set_proposal pid (p\<lparr>resolved := True, approved := False, escrow_unlock_block := u\<rparr>) s)"
proof -
  obtain t u where t: "add256 (approve_count p) (reject_count p) = Inr t"
      and g: "commit_deadline p > 0" "block_number env > reveal_deadline p" "\<not> resolved p"
      and s': "Inr (emit (ProposalResolved pid (if t = 0 then False else win) (approve_count p) (reject_count p))
        (if (if t = 0 then False else win)
         then (set_proposal pid (p\<lparr>resolved := True, approved := (if t = 0 then False else win), escrow_unlock_block := u\<rparr>) s)
           \<lparr>current_value_x_high := new_value_x_high p, current_value_x_low := new_value_x_low p\<rparr>
         else set_proposal pid (p\<lparr>resolved := True, approved := (if t = 0 then False else win), escrow_unlock_block := u\<rparr>) s)) =
        (Inr s' :: challenge_storage evm)"
    using assms(1) unfolding resolve_def Let_def p_def [symmetric] win_def [symmetric] not_not
    by - (elim result_elims, (rule that; (assumption | simp only: not_not)))
  have "t = 0 \<Longrightarrow> \<not> win" using unat_add256 [OF t] by (simp add: win_def word_less_nat_alt)
  then have "(if t = 0 then False else win) = win" by auto
  then show ?thesis using that [of u] g s' by (simp add: word_neq_0_conv split: if_splits)
qed

lemma resolve_inv:
  assumes inv: "challenge_inv K b s" and b: "b \<le> block_number env" and call: "resolve env s pid = Inr s'"
  shows "challenge_inv K (block_number env) s'"
proof -
  let ?p = "proposals s pid"
  from resolve_Inr [OF call] obtain u where phase: "commit_deadline ?p \<noteq> 0" "reveal_deadline ?p < block_number env" "\<not> resolved ?p"
      and s': "s' = emit (ProposalResolved pid (approve_count ?p > reject_count ?p) (approve_count ?p) (reject_count ?p))
        (if approve_count ?p > reject_count ?p
         then (set_proposal pid (?p\<lparr>resolved := True, approved := True, escrow_unlock_block := u\<rparr>) s)
           \<lparr>current_value_x_high := new_value_x_high ?p, current_value_x_low := new_value_x_low ?p\<rparr>
         else set_proposal pid (?p\<lparr>resolved := True, approved := False, escrow_unlock_block := u\<rparr>) s)" .
  note v = votes_ok_later [OF votes_invD [OF inv] b, of pid]
  note none = votes_ok_unresolved [OF v phase(3)]
  have "votes_ok K (block_number env) (proposals s' pid) (choices s' pid) (\<lambda>v. commitments s' v pid) (claims_of s' pid)"
    using v phase none by (simp add: votes_ok_def s')
  moreover have "outstanding s' pid = outstanding s pid"
    using none by (simp add: outstanding_def s')
  ultimately show ?thesis
    using none by (intro challenge_inv_update [OF inv b, of pid]) (simp_all add: s' current_value_x_def)
qed

lemma claim_amount_value: "claim_amount p (choice me) me = Inr w \<Longrightarrow> unat w = reward_of p choice me"
  by (auto simp: claim_amount_def reward_of_def unat_div split: if_splits)

lemma claim_amount_iff:
  assumes "0 < w"
  shows "claim_amount p (choice me) me = Inr w \<longleftrightarrow> 0 < reward_of p choice me \<and> w = of_nat (reward_of p choice me)"
proof
  assume "claim_amount p (choice me) me = Inr w"
  from claim_amount_value [of p choice me w, OF this, symmetric] assms show "0 < reward_of p choice me \<and> w = of_nat (reward_of p choice me)"
    by (simp add: unat_gt_0)
next
  assume r: "0 < reward_of p choice me \<and> w = of_nat (reward_of p choice me)"
  then obtain u where u: "claim_amount p (choice me) me = Inr u"
    by (auto simp: claim_amount_def reward_of_def split: if_splits)
  then show "claim_amount p (choice me) me = Inr w"
    using r claim_amount_value [of p choice me u, OF u, symmetric] by simp
qed

text \<open>A claim succeeds exactly under the guards, the balance being large enough.\<close>

lemma claim_reward_Inr_iff:
  "claim_reward accepts env s pid = Inr s' \<longleftrightarrow>
     (let p = proposals s pid; me = msg_sender env; r = reward_of p (choices s pid) me in
      msg_value env = 0 \<and> resolved p \<and> escrow_unlock_block p \<le> block_number env \<and> \<not> claimed s me pid \<and>
      0 < r \<and> r \<le> self_balance s \<and> accepts me \<and>
      s' = emit (RewardClaimed pid me (of_nat r))
        (s\<lparr>claimed := upd2 (claimed s) me pid True, self_balance := self_balance s - r\<rparr>))" (is "?call \<longleftrightarrow> ?rhs")
proof -
  let ?p = "proposals s pid" and ?me = "msg_sender env"
  let ?r = "reward_of ?p (choices s pid) ?me"
  have r: "unat (of_nat ?r :: u256) = ?r"
  proof -
    have "?r \<le> unat (stake ?p)" by (auto simp: reward_of_def)
    then show ?thesis using unat_bound [of "stake ?p"] by (intro unat_of_nat_small) simp
  qed
  show ?thesis
  proof
    assume ?call
    then obtain w where w: "claim_amount ?p (reveals s ?me pid) ?me = Inr w" "0 < w"
      and g: "msg_value env = 0" "resolved ?p" "escrow_unlock_block ?p \<le> block_number env" "\<not> claimed s ?me pid"
        "\<not> self_balance s < unat w" "accepts ?me"
      and s': "Inr (emit (RewardClaimed pid ?me w)
          (s\<lparr>claimed := upd2 (claimed s) ?me pid True, self_balance := self_balance s - unat w\<rparr>)) = (Inr s' :: challenge_storage evm)"
      unfolding claim_reward_def Let_def nonpayable_def ensureR_def not_not
      by - (elim result_elims, (rule that; (assumption | simp split: if_splits)))
    have "0 < ?r" "w = of_nat ?r" using claim_amount_iff [OF w(2), of ?p "choices s pid" ?me] w(1) by simp_all
    then show ?rhs using g s' r unfolding Let_def by simp
  next
    assume rhs: ?rhs
    then have "0 < (of_nat ?r :: u256)" using r by (simp add: Let_def word_less_nat_alt)
    then have "claim_amount ?p (reveals s ?me pid) ?me = Inr (of_nat ?r)"
      using claim_amount_iff [of "of_nat ?r" ?p "choices s pid" ?me] rhs by (simp add: Let_def)
    then show ?call
      using rhs r \<open>0 < (of_nat ?r :: u256)\<close> by (simp add: claim_reward_def Let_def nonpayable_def ensureR_def)
  qed
qed

lemma claim_covered:
  assumes inv: "challenge_inv K b s" and "\<not> claimed s v pid"
  shows "reward_of (proposals s pid) (choices s pid) v \<le> outstanding s pid" and "outstanding s pid \<le> self_balance s"
proof -
  have c: "unat (reject_count (proposals s pid)) = card {u. choices s pid u = 2}"
    using votes_invD [OF inv, of pid] by (simp add: votes_ok_def)
  show "reward_of (proposals s pid) (choices s pid) v \<le> outstanding s pid"
    using paid_le_stake [OF c, of "(claims_of s pid)(v := True)"] paid_claim [of "claims_of s pid" v] assms(2)
    by (simp add: outstanding_def)
  have "outstanding s pid \<le> (\<Sum>q \<in> UNIV. outstanding s q)" by (rule member_le_sum) auto
  then show "outstanding s pid \<le> self_balance s" using inv by (simp add: challenge_inv_def funds_inv_def)
qed

lemma claim_inv:
  assumes inv: "challenge_inv K b s" and b: "b \<le> block_number env" and call: "claim_reward accepts env s pid = Inr s'"
  shows "challenge_inv K (block_number env) s'"
proof -
  let ?me = "msg_sender env" and ?r = "reward_of (proposals s pid) (choices s pid) (msg_sender env)"
  have g: "resolved (proposals s pid)" "\<not> claimed s ?me pid"
    and s': "s' = emit (RewardClaimed pid ?me (of_nat ?r))
        (s\<lparr>claimed := upd2 (claimed s) ?me pid True, self_balance := self_balance s - ?r\<rparr>)"
    using call by (simp_all add: claim_reward_Inr_iff Let_def)
  have cl: "claims_of s' pid = (claims_of s pid)(?me := True)" by (auto simp: s')
  have same: "proposals s' pid = proposals s pid" "choices s' pid = choices s pid" by (simp_all add: s')
  have "votes_ok K (block_number env) (proposals s' pid) (choices s' pid) (\<lambda>v. commitments s' v pid) (claims_of s' pid)"
    using votes_ok_later [OF votes_invD [OF inv] b, of pid] g(1) by (simp add: votes_ok_def s')
  moreover have "outstanding s' pid + ?r = outstanding s pid"
    using claim_covered(1) [OF inv g(2)] paid_claim [of "claims_of s pid" ?me] g(2)
    unfolding outstanding_def cl same by simp
  ultimately show ?thesis
    using claim_covered [OF inv g(2)]
    by (intro challenge_inv_update [OF inv b, of pid]) (simp_all add: s' current_value_x_def)
qed

lemma init_inv:
  assumes "challenge_init env m = Inr s"
  shows "challenge_inv K b s"
proof -
  have s: "proposals s = (\<lambda>_. empty_proposal)" "reveals s = (\<lambda>_ _. 0)" "claimed s = (\<lambda>_ _. False)"
      "current_value_x s = (0, 0)"
    using assms by (auto simp: challenge_init_def bindR_Inr_iff current_value_x_def)
  have "outstanding s q = 0" for q by (simp add: outstanding_def s empty_proposal_def)
  then have "funds_inv s" by (simp add: funds_inv_def)
  moreover have "votes_ok K b (proposals s pid) (choices s pid) (\<lambda>v. commitments s v pid) (claims_of s pid)" for pid
    by (simp add: votes_ok_def s) (simp add: empty_proposal_def)
  ultimately show ?thesis by (simp add: challenge_inv_def votes_inv_def value_inv_def s)
qed

lemma reachable_inv: "reachable K accepts b s \<Longrightarrow> challenge_inv K b s"
proof (induction rule: reachable.induct)
  case (received b s n)
  have "outstanding (s\<lparr>self_balance := self_balance s + n\<rparr>) q = outstanding s q" for q
    by (simp add: outstanding_def)
  then show ?case
    using received.IH by (simp add: challenge_inv_def votes_inv_def value_inv_def funds_inv_def current_value_x_def)
qed (blast intro: init_inv propose_inv commit_inv reveal_inv resolve_inv claim_inv)+

section \<open>A concrete vote\<close>

text \<open>One proposal with stake 10 by the account 5, one voter 6, and the vote \<open>a\<close>.\<close>

definition vote_env :: "address \<Rightarrow> u256 \<Rightarrow> u256 \<Rightarrow> evm_env" where
  "vote_env who value block = \<lparr>msg_sender = who, msg_value = value, block_number = block, block_timestamp = 1000\<rparr>"

definition demo_proposal :: Proposal where
  "demo_proposal = \<lparr>proposer = 5, new_value_x_high = 3, new_value_x_low = 4, build_provenance_hash = 0,
     analysis_hash = 0, stake = 10, commit_deadline = 50401, reveal_deadline = 72001, resolved = False,
     approved = False, approve_count = 0, reject_count = 0, escrow_unlock_block = 0\<rparr>"

definition demo_deployed :: challenge_storage where
  "demo_deployed = \<lparr>proposals = (\<lambda>_. empty_proposal), proposal_count = 0, commitments = (\<lambda>_ _. 0),
     reveals = (\<lambda>_ _. 0), claimed = (\<lambda>_ _. False), current_value_x_high = 0, current_value_x_low = 0,
     min_stake = 1, challenge_owner = 9, challenge_log = [], self_balance = 0\<rparr>"

definition demo_proposed :: challenge_storage where
  "demo_proposed = demo_deployed\<lparr>proposals := (\<lambda>_. empty_proposal)(1 := demo_proposal), proposal_count := 1,
     challenge_log := [UpdateProposed 1 5 3 4 10 50401 72001], self_balance := 10\<rparr>"

definition demo_committed :: challenge_storage where
  "demo_committed = demo_proposed\<lparr>commitments := upd2 (\<lambda>_ _. 0) 6 1 77,
     challenge_log := [UpdateProposed 1 5 3 4 10 50401 72001, VoteCommitted 1 6]\<rparr>"

definition demo_counted :: "bool \<Rightarrow> Proposal" where
  "demo_counted a = (if a then demo_proposal\<lparr>approve_count := 1\<rparr> else demo_proposal\<lparr>reject_count := 1\<rparr>)"

definition demo_revealed :: "bool \<Rightarrow> challenge_storage" where
  "demo_revealed a = demo_committed\<lparr>proposals := (\<lambda>_. empty_proposal)(1 := demo_counted a),
     reveals := upd2 (\<lambda>_ _. 0) 6 1 (if a then 1 else 2),
     challenge_log := challenge_log demo_committed @ [VoteRevealed 1 6 a]\<rparr>"

definition demo_settled :: "bool \<Rightarrow> challenge_storage" where
  "demo_settled a = (demo_revealed a)
     \<lparr>proposals := (\<lambda>_. empty_proposal)(1 := (demo_counted a)\<lparr>resolved := True, approved := a, escrow_unlock_block := 288002\<rparr>),
      current_value_x_high := (if a then 3 else 0), current_value_x_low := (if a then 4 else 0),
      challenge_log := challenge_log (demo_revealed a) @
        [ProposalResolved 1 a (if a then 1 else 0) (if a then 0 else 1)]\<rparr>"

lemmas demo_eval = Let_def bindR.simps nonpayable_def ensureR_def add256_def checked_add_def ok_or_def vote_env_def
  if_True if_False option.case evm_env.simps unsigned_numeral

lemma demo_propose:
  "propose demo_evm (vote_env 5 10 1) demo_deployed 3 4 0 0 = Inr (demo_proposed, 1)"
  using demo_keccak_suffix [of "b32 3 @ b16 4" 1]
  by (simp add: propose_def demo_eval demo_deployed_def demo_proposed_def empty_proposal_def demo_proposal_def)

lemma demo_commit: "commit_vote (vote_env 6 0 2) demo_proposed 1 77 = Inr demo_committed"
  by (simp add: commit_vote_def demo_eval demo_proposed_def demo_committed_def demo_deployed_def demo_proposal_def)

lemma demo_reveal: "reveal_vote demo_evm (vote_env 6 0 50402) demo_committed 1 a 77 = Inr (demo_revealed a)"
  using demo_keccak_suffix [of "[if a then 1 else 0]" 77]
  by (simp add: reveal_vote_def vote_commitment_def demo_eval demo_proposed_def demo_committed_def demo_revealed_def
      demo_deployed_def demo_proposal_def demo_counted_def)

lemma demo_resolve: "resolve (vote_env 9 0 72002) (demo_revealed a) 1 = Inr (demo_settled a)"
  by (cases a) (simp_all add: resolve_def demo_eval demo_proposed_def demo_committed_def demo_revealed_def
      demo_settled_def demo_deployed_def demo_proposal_def demo_counted_def)

lemma demo_reachable: "reachable demo_evm (\<lambda>_. True) 72002 (demo_settled a)"
proof -
  have "challenge_init (vote_env 9 0 1) 1 = Inr demo_deployed"
    by (simp add: challenge_init_def demo_eval demo_deployed_def)
  then have "reachable demo_evm (\<lambda>_. True) 1 demo_deployed"
    using reachable.deploy [of "vote_env 9 0 1"] by (simp add: vote_env_def)
  from reachable.proposed [OF this _ demo_propose] have "reachable demo_evm (\<lambda>_. True) 1 demo_proposed"
    by (simp add: vote_env_def)
  from reachable.committed [OF this _ demo_commit] have "reachable demo_evm (\<lambda>_. True) 2 demo_committed"
    by (simp add: vote_env_def)
  from reachable.revealed [OF this _ demo_reveal] have "reachable demo_evm (\<lambda>_. True) 50402 (demo_revealed a)"
    by (simp add: vote_env_def)
  from reachable.settled [OF this _ demo_resolve] show ?thesis
    by (simp add: vote_env_def)
qed

section \<open>Properties\<close>

text \<open>C30. In every reachable state the contract is solvent: its balance covers all the stakes not yet paid
  out, no proposal ever pays more than its stake, and a claim succeeds exactly when the proposal is
  resolved and unlocked, the caller has not claimed before, is owed something and accepts the transfer.
  So it never fails for lack of funds, and it pays what the caller is owed.\<close>

theorem challenge_solvent:
  assumes "reachable K accepts b s"
  shows "(\<Sum>q \<in> UNIV. outstanding s q) \<le> self_balance s \<and>
    paid (proposals s pid) (choices s pid) (claims_of s pid) \<le> unat (stake (proposals s pid)) \<and>
    (claim_reward accepts env s pid = Inr s' \<longleftrightarrow>
      (let p = proposals s pid; me = msg_sender env; r = reward_of p (choices s pid) me in
       msg_value env = 0 \<and> resolved p \<and> escrow_unlock_block p \<le> block_number env \<and> \<not> claimed s me pid \<and>
       0 < r \<and> accepts me \<and>
       s' = emit (RewardClaimed pid me (of_nat r))
         (s\<lparr>claimed := upd2 (claimed s) me pid True, self_balance := self_balance s - r\<rparr>)))"
proof -
  note inv = reachable_inv [OF assms]
  have "unat (reject_count (proposals s pid)) = card {u. choices s pid u = 2}"
    using votes_invD [OF inv, of pid] by (simp add: votes_ok_def)
  note paid = paid_le_stake [OF this, of "claims_of s pid"]
  have "reward_of (proposals s pid) (choices s pid) (msg_sender env) \<le> self_balance s" if "\<not> claimed s (msg_sender env) pid"
    using claim_covered [OF inv that] by linarith
  moreover have "(\<Sum>q \<in> UNIV. outstanding s q) \<le> self_balance s"
    using inv by (simp add: challenge_inv_def funds_inv_def)
  ultimately show ?thesis
    using paid unfolding claim_reward_Inr_iff Let_def by blast
qed

theorem challenge_solvent_witness:
  "\<exists>s'. claim_reward (\<lambda>_. True) (vote_env 6 0 288002) (demo_settled False) 1 = Inr s' \<and> self_balance s' = 0"
proof -
  have "reward_of (proposals (demo_settled False) 1) (choices (demo_settled False) 1) 6 = 10"
    by (simp add: reward_of_def demo_settled_def demo_counted_def demo_proposal_def demo_revealed_def)
  moreover have "self_balance (demo_settled False) = 10" "resolved (proposals (demo_settled False) 1)"
    "escrow_unlock_block (proposals (demo_settled False) 1) = 288002" "\<not> claimed (demo_settled False) 6 1"
    by (simp_all add: demo_settled_def demo_revealed_def demo_committed_def demo_proposed_def demo_deployed_def)
  ultimately show ?thesis
    using challenge_solvent [OF demo_reachable [of False], of 1 "vote_env 6 0 288002"]
    by (simp add: Let_def vote_env_def)
qed

text \<open>C31. In every reachable state the recommended identity is the initial one or that of an approved
  proposal. A proposal is approved only after its reveal deadline and when more voters revealed approval
  than rejection, each voter counting once, and each counted vote opens the commitment that is stored for
  its voter, revealed after the commit deadline.\<close>

theorem challenge_majority:
  assumes "reachable K accepts b s"
  shows "(current_value_x s = (0, 0) \<or> (\<exists>q. approved (proposals s q) \<and>
      current_value_x s = (new_value_x_high (proposals s q), new_value_x_low (proposals s q)))) \<and>
    (approved (proposals s pid) \<longrightarrow> resolved (proposals s pid) \<and> reveal_deadline (proposals s pid) < b \<and>
      card {v. reveals s v pid = 2} < card {v. reveals s v pid = 1}) \<and>
    (reveals s v pid \<noteq> 0 \<longrightarrow> commit_deadline (proposals s pid) < b \<and>
      (\<exists>a salt. reveals s v pid = (if a then 1 else 2) \<and> commitments s v pid = vote_commitment K a salt))"
proof -
  note inv = reachable_inv [OF assms]
  have v: "votes_ok K b (proposals s pid) (choices s pid) (\<lambda>v. commitments s v pid) (claims_of s pid)"
    by (rule votes_invD [OF inv])
  then have "approved (proposals s pid) \<longrightarrow> resolved (proposals s pid) \<and> reveal_deadline (proposals s pid) < b \<and>
      card {v. reveals s v pid = 2} < card {v. reveals s v pid = 1}"
    by (auto simp: votes_ok_def word_less_nat_alt)
  moreover have "reveals s v pid \<noteq> 0 \<longrightarrow> commit_deadline (proposals s pid) < b \<and>
      (\<exists>a salt. reveals s v pid = (if a then 1 else 2) \<and> commitments s v pid = vote_commitment K a salt)"
    using v unfolding votes_ok_def by blast
  ultimately show ?thesis using inv unfolding challenge_inv_def value_inv_def by blast
qed

theorem challenge_majority_witness:
  "current_value_x (demo_settled True) = (3, 4) \<and>
   card {v. reveals (demo_settled True) v 1 = 2} < card {v. reveals (demo_settled True) v 1 = 1}"
proof -
  have "approved (proposals (demo_settled True) 1)" "current_value_x (demo_settled True) = (3, 4)"
    by (simp_all add: demo_settled_def current_value_x_def)
  then show ?thesis using challenge_majority [OF demo_reachable [of True], of 1] by blast
qed

section \<open>Limits of the design\<close>

text \<open>The division of a stake leaves a remainder that nobody is ever owed; with more rejecting voters than
  units of stake, the whole stake is lost.\<close>

lemma stake_remainder_is_never_owed:
  assumes "reachable K accepts b s" and "resolved (proposals s pid)" and "\<not> approved (proposals s pid)"
    and "unat (stake (proposals s pid)) < unat (reject_count (proposals s pid))"
  shows "reward_of (proposals s pid) (choices s pid) v = 0" and "claim_reward accepts env s pid \<noteq> Inr s'"
proof -
  show "reward_of (proposals s pid) (choices s pid) v = 0" for v
    using assms(3,4) by (auto simp: reward_of_def)
  then show "claim_reward accepts env s pid \<noteq> Inr s'" by (simp add: claim_reward_Inr_iff Let_def)
qed

text \<open>A commitment does not name its voter: another account can commit to the same hash and, once the
  salt is public, reveal the same vote.\<close>

lemma commitment_can_be_copied:
  assumes "reveal_vote K env s pid a salt = Inr s'" and "copier \<noteq> msg_sender env"
    and "commitments s copier pid = commitments s (msg_sender env) pid" and "reveals s copier pid = 0"
    and "unat (approve_count (proposals s pid)) < 2 ^ 256 - 2" and "unat (reject_count (proposals s pid)) < 2 ^ 256 - 2"
  shows "\<exists>s''. reveal_vote K (env\<lparr>msg_sender := copier\<rparr>) s' pid a salt = Inr s''"
  using assms
  by (cases a) (auto simp: reveal_vote_def Let_def bindR_Inr_iff if_Inl_eq_Inr_iff nonpayable_def ensureR_def
      add256_def checked_add_def ok_or_def unat_word_ariths split: if_splits)

end
