(* ===== verification/Pki.thy ===== *)
theory Pki
  imports UQ_Prims
begin

text \<open>
  CPU certificate paths (\<open>v2/src/quote/pki.rs\<close>): validation of a path up to a pinned root, the
  certificate profile, signatures of certificates, PEM bundles and revocation lists. DER decoding and
  the signature schemes are fields of the record \<open>pkix\<close>: a decoded certificate is a record with the
  fields that \<open>x509_cert\<close> gives, where the result of \<open>get::<T>()\<close> for an extension type is a field.
  The lemmas show that an accepted path derives the leaf from the pinned root by a chain of valid
  signatures of authorized issuers, that an accepted revocation list is current, signed and does not
  list the certificate, and that a bundle of PEM blocks is read back.
\<close>

type_synonym 'a anyhow = "string + 'a"

section \<open>Decoded certificates and the crates that decode and check them\<close>

record AlgorithmIdentifier =
  alg_oid :: str
  alg_parameters :: "bytes option"

record BasicConstraints =
  ca :: bool
  path_len_constraint :: "u8 option"

record KeyUsage =
  digital_signature :: bool
  key_cert_sign :: bool
  crl_sign :: bool
  key_agreement :: bool
  encipher_only :: bool
  decipher_only :: bool

datatype Tag = TagUtf8String | TagPrintableString | TagEnumerated | OtherTag byte

record Any =
  any_tag :: Tag
  any_value :: bytes

record AttributeTypeAndValue =
  attr_oid :: str
  attr_value :: Any

type_synonym Name = "AttributeTypeAndValue list list"

datatype GeneralName = DirectoryName Name | OtherGeneralName bytes

record AuthorityKeyIdentifier =
  key_identifier :: "bytes option"
  authority_cert_issuer :: "GeneralName list option"
  authority_cert_serial_number :: "bytes option"

record Extension =
  extn_id :: str
  critical :: bool
  extn_value :: bytes

datatype Version = V1 | V2 | V3

text \<open>A field is \<open>None\<close> where the crate reports that encoding fails or that a bit string is not
  byte-aligned; an extension of a type is an error when it is malformed.\<close>

record Certificate =
  cert_version :: Version
  issuer_unique_id :: "bytes option"
  subject_unique_id :: "bytes option"
  not_before :: u64
  not_after :: u64
  tbs_signature :: AlgorithmIdentifier
  signature_algorithm :: AlgorithmIdentifier
  cert_issuer :: Name
  cert_subject :: Name
  serial_number :: bytes
  cert_extensions :: "Extension list"
  key_algorithm :: AlgorithmIdentifier
  subject_public_key :: "bytes option"
  raw_public_key :: bytes
  spki_der :: "bytes option"
  tbs_der :: "bytes option"
  cert_signature :: "bytes option"
  get_BasicConstraints :: "(bool \<times> BasicConstraints) option anyhow"
  get_KeyUsage :: "(bool \<times> KeyUsage) option anyhow"
  get_ExtendedKeyUsage :: "(bool \<times> str list) option anyhow"
  get_AuthorityKeyIdentifier :: "(bool \<times> AuthorityKeyIdentifier) option anyhow"
  get_SubjectKeyIdentifier :: "(bool \<times> bytes) option anyhow"

record RevokedCert =
  revoked_serial :: bytes
  crl_entry_extensions :: "Extension list"

record CertificateList =
  crl_version :: Version
  crl_issuer :: Name
  crl_tbs_signature :: AlgorithmIdentifier
  crl_signature_algorithm :: AlgorithmIdentifier
  this_update :: u64
  next_update :: "u64 option"
  crl_extensions :: "Extension list"
  crl_tbs_der :: "bytes option"
  crl_signature :: "bytes option"
  revoked_certificates :: "RevokedCert list"

record PssParams =
  pss_hash :: AlgorithmIdentifier
  pss_mask_gen_oid :: str
  pss_mask_gen_hash :: "AlgorithmIdentifier option"
  salt_len :: nat

record pkix =
  cert_from_der :: "bytes \<Rightarrow> Certificate option"
  crl_from_der :: "bytes \<Rightarrow> CertificateList option"
  aki_from_der :: "bytes \<Rightarrow> AuthorityKeyIdentifier option"
  crl_number_ok :: "bytes \<Rightarrow> bool"
  crl_reason_from_der :: "bytes \<Rightarrow> nat option"
  generalized_time_ok :: "bytes \<Rightarrow> bool"
  any_oid :: "bytes \<Rightarrow> str option"
  any_null :: "bytes \<Rightarrow> bool"
  pss_from_der :: "bytes \<Rightarrow> PssParams option"
  p256_key_ok :: "bytes \<Rightarrow> bool"
  p384_key_ok :: "bytes \<Rightarrow> bool"
  p256_verify_der :: "bytes \<Rightarrow> bytes \<Rightarrow> bytes \<Rightarrow> bool"
  p384_verify_der :: "bytes \<Rightarrow> bytes \<Rightarrow> bytes \<Rightarrow> bool"
  rsa_bits :: "bytes \<Rightarrow> nat option"
  rsa_pss_verify :: "bytes \<Rightarrow> bytes \<Rightarrow> bytes \<Rightarrow> bool"
  p256_sig_ok :: "bytes \<Rightarrow> bool"
  p384_sig_ok :: "bytes \<Rightarrow> bool"
  p256_verify :: "bytes \<Rightarrow> bytes \<Rightarrow> bytes \<Rightarrow> bool"
  p384_verify :: "bytes \<Rightarrow> bytes \<Rightarrow> bytes \<Rightarrow> bool"
  p256_verify_msg :: "bytes \<Rightarrow> bytes \<Rightarrow> bytes \<Rightarrow> bool"
  base64_decode :: "str \<Rightarrow> bytes option"

abbreviation MAX_CHAIN_BYTES :: nat where "MAX_CHAIN_BYTES \<equiv> 256 * 1024"
abbreviation MAX_CHAIN_CERTS :: nat where "MAX_CHAIN_CERTS \<equiv> 12"

definition EC_KEY :: str where "EC_KEY = lit ''1.2.840.10045.2.1''"
definition P384_OID :: str where "P384_OID = lit ''1.3.132.0.34''"
definition P256_OID :: str where "P256_OID = lit ''1.2.840.10045.3.1.7''"
definition RSA_KEY :: str where "RSA_KEY = lit ''1.2.840.113549.1.1.1''"

datatype Curve = P256 | P384 | AmdEndorsement

section \<open>The certificate profile\<close>

definition cert_curve :: "pkix \<Rightarrow> Certificate \<Rightarrow> str anyhow" where
  "cert_curve X cert =
     bindR (ok_or (alg_parameters (key_algorithm cert)) ''missing named EC curve'') (\<lambda>params.
     ok_or (any_oid X params) ''EC parameters are not an OID'')"

definition public_key :: "Certificate \<Rightarrow> bytes anyhow" where
  "public_key cert = ok_or (subject_public_key cert) ''public key is not byte-aligned''"

definition check_null_or_absent :: "pkix \<Rightarrow> AlgorithmIdentifier \<Rightarrow> unit anyhow" where
  "check_null_or_absent X algorithm =
     (case alg_parameters algorithm of
        None \<Rightarrow> Inr ()
      | Some params \<Rightarrow> ensureR (any_null X params) ''algorithm parameters must be absent or NULL'')"

definition key_usage :: "Certificate \<Rightarrow> KeyUsage anyhow" where
  "key_usage cert =
     bindR (get_KeyUsage cert) (\<lambda>u.
     bindR (ok_or u ''certificate lacks key usage'') (\<lambda>(_, usage).
     Inr usage))"

text \<open>The constraints that are refused wherever they stand, and the extensions that may be critical.\<close>

definition refused_extensions :: "str list" where
  "refused_extensions = [lit ''2.5.29.30'', lit ''2.5.29.33'', lit ''2.5.29.36'', lit ''2.5.29.54'']"

definition critical_extensions :: "str list" where
  "critical_extensions =
     [lit ''2.5.29.19'', lit ''2.5.29.15'', lit ''2.5.29.37'', lit ''2.5.29.14'', lit ''2.5.29.35'']"

definition check_extension :: "str list \<Rightarrow> Extension \<Rightarrow> str list anyhow" where
  "check_extension seen ext =
     (if extn_id ext \<in> set seen then Inl ''duplicate certificate extension''
      else if extn_id ext \<in> set refused_extensions then Inl ''unsupported name/policy constraints''
      else if critical ext \<and> extn_id ext \<notin> set critical_extensions
      then Inl ''unsupported critical certificate extension''
      else Inr (extn_id ext # seen))"

definition check_public_key :: "pkix \<Rightarrow> Certificate \<Rightarrow> unit anyhow" where
  "check_public_key X cert =
     (let algorithm = key_algorithm cert in
      if alg_oid algorithm = EC_KEY then
        bindR (cert_curve X cert) (\<lambda>c.
        if c = P384_OID then
          bindR (public_key cert) (\<lambda>k. ensureR (p384_key_ok X k) ''P-384 key'')
        else if c = P256_OID then
          bindR (public_key cert) (\<lambda>k. ensureR (p256_key_ok X k) ''P-256 key'')
        else Inl ''unsupported EC curve'')
      else if alg_oid algorithm = RSA_KEY then
        bindR (check_null_or_absent X algorithm) (\<lambda>_.
        bindR (ok_or (spki_der cert) ''SPKI encoding'') (\<lambda>spki.
        bindR (ok_or (rsa_bits X spki) ''RSA key'') (\<lambda>bits.
        ensureR (3072 \<le> bits \<and> bits \<le> 8192) ''RSA key outside supported 3072-8192 bit range'')))
      else Inl ''unsupported certificate public-key algorithm'')"

definition check_certificate :: "pkix \<Rightarrow> Certificate \<Rightarrow> u64 \<Rightarrow> unit anyhow" where
  "check_certificate X cert now =
     (if cert_version cert \<noteq> V3 then Inl ''only X.509 v3 certificates are supported''
      else if issuer_unique_id cert \<noteq> None \<or> subject_unique_id cert \<noteq> None
      then Inl ''unique identifiers are outside the supported PKIX profile''
      else if now < not_before cert then Inl ''certificate is not yet valid''
      else if now > not_after cert then Inl ''certificate has expired''
      else if tbs_signature cert \<noteq> signature_algorithm cert
      then Inl ''certificate inner/outer signature algorithms differ''
      else if cert_subject cert = [] then Inl ''empty certificate subject is unsupported''
      else bindR (foldR check_extension [] (cert_extensions cert)) (\<lambda>_.
      bindR (get_BasicConstraints cert) (\<lambda>bc.
      bindR (case bc of None \<Rightarrow> Inr () | Some (_, bc) \<Rightarrow>
          ensureR (ca bc \<or> path_len_constraint bc = None) ''path length on non-CA certificate'') (\<lambda>_.
      bindR (get_KeyUsage cert) (\<lambda>usage.
      bindR (case usage of None \<Rightarrow> Inr () | Some (_, usage) \<Rightarrow>
          ensureR (\<not> (encipher_only usage \<or> decipher_only usage) \<or> key_agreement usage)
            ''encipherOnly/decipherOnly requires keyAgreement'') (\<lambda>_.
      bindR (get_ExtendedKeyUsage cert) (\<lambda>eku.
      bindR (case eku of None \<Rightarrow> Inr () | Some (_, eku) \<Rightarrow>
          bindR (ensureR (eku \<noteq> []) ''empty extended key usage'') (\<lambda>_.
          ensureR (lit ''2.5.29.37.0'' \<in> set eku)
            ''CPU certificate EKU excludes unrestricted attestation use'')) (\<lambda>_.
      bindR (get_AuthorityKeyIdentifier cert) (\<lambda>_.
      bindR (get_SubjectKeyIdentifier cert) (\<lambda>_.
      check_public_key X cert))))))))))"

section \<open>Signatures\<close>

definition check_authority_key_id :: "AuthorityKeyIdentifier \<Rightarrow> Certificate \<Rightarrow> unit anyhow" where
  "check_authority_key_id aki issuer =
     bindR (case key_identifier aki of
         None \<Rightarrow> Inr ()
       | Some key_id \<Rightarrow>
           bindR (get_SubjectKeyIdentifier issuer) (\<lambda>ski.
           bindR (ok_or ski ''AKI present but issuer lacks SKI'') (\<lambda>(_, ski).
           ensureR (key_id = ski) ''authority key identifier mismatch''))) (\<lambda>_.
     bindR (ensureR ((authority_cert_issuer aki \<noteq> None) = (authority_cert_serial_number aki \<noteq> None))
         ''authority issuer and serial must occur together'') (\<lambda>_.
     bindR (case authority_cert_serial_number aki of
         None \<Rightarrow> Inr ()
       | Some serial \<Rightarrow> ensureR (serial = serial_number issuer) ''authority serial mismatch'') (\<lambda>_.
     (case authority_cert_issuer aki of
         None \<Rightarrow> Inr ()
       | Some names \<Rightarrow> ensureR (DirectoryName (cert_issuer issuer) \<in> set names) ''authority issuer name mismatch''))))"

definition verify_rsa_pss :: "prims \<Rightarrow> pkix \<Rightarrow> Certificate \<Rightarrow> AlgorithmIdentifier \<Rightarrow> bytes \<Rightarrow> bytes \<Rightarrow> unit anyhow" where
  "verify_rsa_pss P X issuer algorithm msg sig =
     (if alg_oid (key_algorithm issuer) \<noteq> RSA_KEY then Inl ''RSA-PSS requires RSA key''
      else bindR (ok_or (alg_parameters algorithm) ''missing RSA-PSS parameters'') (\<lambda>encoded.
      bindR (ok_or (pss_from_der X encoded) ''RSA-PSS parameters'') (\<lambda>params.
      if \<not> (alg_oid (pss_hash params) = lit ''2.16.840.1.101.3.4.2.2'' \<and>
            pss_mask_gen_oid params = lit ''1.2.840.113549.1.1.8'' \<and> salt_len params = 48)
      then Inl ''unsupported AMD RSA-PSS parameters''
      else bindR (ok_or (pss_mask_gen_hash params) ''missing RSA-PSS MGF hash'') (\<lambda>mgf.
      if alg_oid mgf \<noteq> alg_oid (pss_hash params) then Inl ''RSA-PSS MGF/hash mismatch''
      else bindR (foldR (\<lambda>_ p. case p of None \<Rightarrow> Inr () | Some p \<Rightarrow> ensureR (any_null X p) ''NULL parameters'') ()
               [alg_parameters (pss_hash params), alg_parameters mgf]) (\<lambda>_.
      bindR (ok_or (spki_der issuer) ''SPKI encoding'') (\<lambda>spki.
      bindR (ok_or (rsa_bits X spki) ''RSA key'') (\<lambda>bits.
      if \<not> (3072 \<le> bits \<and> bits \<le> 8192) then Inl ''RSA key outside supported range''
      else ensureR (rsa_pss_verify X spki (sha384 P msg) sig) ''RSA-PSS signature'')))))))"

definition verify_signature ::
  "prims \<Rightarrow> pkix \<Rightarrow> Certificate \<Rightarrow> AlgorithmIdentifier \<Rightarrow> bytes \<Rightarrow> bytes \<Rightarrow> unit anyhow" where
  "verify_signature P X issuer algorithm msg sig =
     (let oid = alg_oid algorithm in
      if oid = lit ''1.2.840.113549.1.1.10'' then verify_rsa_pss P X issuer algorithm msg sig
      else bindR
        (if oid = lit ''1.2.840.10045.4.3.2'' then Inr (sha256 P msg)
         else if oid = lit ''1.2.840.10045.4.3.3'' then Inr (sha384 P msg)
         else if oid = lit ''1.2.840.10045.4.3.4'' then Inr (sha512 P msg)
         else Inl ''unsupported CPU signature algorithm'') (\<lambda>digest.
      if alg_parameters algorithm \<noteq> None then Inl ''ECDSA signature parameters must be absent''
      else if alg_oid (key_algorithm issuer) \<noteq> EC_KEY then Inl ''ECDSA signature requires EC key''
      else bindR (cert_curve X issuer) (\<lambda>c.
      if c = P256_OID then
        bindR (public_key issuer) (\<lambda>k.
        bindR (ensureR (p256_key_ok X k) ''P-256 key'') (\<lambda>_.
        ensureR (p256_verify_der X k digest sig) ''P-256 signature''))
      else if c = P384_OID then
        bindR (public_key issuer) (\<lambda>k.
        bindR (ensureR (p384_key_ok X k) ''P-384 key'') (\<lambda>_.
        ensureR (p384_verify_der X k digest sig) ''P-384 signature''))
      else Inl ''unsupported CPU signature curve'')))"

definition verify_certificate_signature :: "prims \<Rightarrow> pkix \<Rightarrow> Certificate \<Rightarrow> Certificate \<Rightarrow> unit anyhow" where
  "verify_certificate_signature P X cert issuer =
     (if cert_issuer cert \<noteq> cert_subject issuer then Inl ''certificate issuer/subject names differ''
      else bindR (get_AuthorityKeyIdentifier cert) (\<lambda>aki.
      bindR (case aki of None \<Rightarrow> Inr () | Some (_, aki) \<Rightarrow> check_authority_key_id aki issuer) (\<lambda>_.
      if tbs_signature cert \<noteq> signature_algorithm cert
      then Inl ''certificate inner/outer signature algorithms differ''
      else bindR (ok_or (tbs_der cert) ''TBS encoding'') (\<lambda>msg.
      bindR (ok_or (cert_signature cert) ''certificate signature is not byte-aligned'') (\<lambda>sig.
      verify_signature P X issuer (signature_algorithm cert) msg sig)))))"

section \<open>Paths\<close>

record path_state =
  total_bytes :: nat
  seen_ders :: "bytes list"
  path_certs :: "Certificate list"

definition decode_path :: "pkix \<Rightarrow> path_state \<Rightarrow> bytes \<Rightarrow> path_state anyhow" where
  "decode_path X st der =
     bindR (ok_or (usize_checked_add (total_bytes st) (length der)) ''certificate size overflow'') (\<lambda>total.
     if der = [] \<or> total > MAX_CHAIN_BYTES then Inl ''CPU certificate path size outside limit''
     else if der \<in> set (seen_ders st) then Inl ''duplicate CPU certificate''
     else bindR (ok_or (cert_from_der X der) ''certificate DER'') (\<lambda>cert.
     Inr \<lparr>total_bytes = total, seen_ders = der # seen_ders st, path_certs = path_certs st @ [cert]\<rparr>))"

definition check_leaf :: "pkix \<Rightarrow> Curve \<Rightarrow> Certificate \<Rightarrow> unit anyhow" where
  "check_leaf X leaf_curve cert =
     bindR (get_KeyUsage cert) (\<lambda>usage.
     bindR (case usage of
         Some (_, usage) \<Rightarrow> ensureR (digital_signature usage \<and> \<not> key_cert_sign usage)
           ''CPU leaf must permit digitalSignature and not keyCertSign''
       | None \<Rightarrow> ensureR (leaf_curve = AmdEndorsement) ''CPU signing leaf lacks key usage'') (\<lambda>_.
     bindR (get_BasicConstraints cert) (\<lambda>bc.
     bindR (case bc of None \<Rightarrow> Inr () | Some (_, bc) \<Rightarrow>
         ensureR (\<not> ca bc) ''CPU signing leaf must not be a CA'') (\<lambda>_.
     if alg_oid (key_algorithm cert) \<noteq> EC_KEY then Inl ''CPU leaf must use EC''
     else bindR (cert_curve X cert) (\<lambda>c.
       ensureR (c = (if leaf_curve = P256 then P256_OID else P384_OID)) ''CPU signing leaf curve mismatch'')))))"

definition check_issuer :: "Certificate list \<Rightarrow> nat \<Rightarrow> Certificate \<Rightarrow> unit anyhow" where
  "check_issuer certs index cert =
     bindR (get_BasicConstraints cert) (\<lambda>bc.
     bindR (ok_or bc ''CPU issuer lacks basicConstraints'') (\<lambda>(crit, bc).
     bindR (if crit \<and> ca bc then key_usage cert
            else Inl ''CPU issuer lacks critical CA/keyCertSign authorization'') (\<lambda>usage.
     if \<not> key_cert_sign usage then Inl ''CPU issuer lacks critical CA/keyCertSign authorization''
     else (case path_len_constraint bc of
         None \<Rightarrow> Inr ()
       | Some limit \<Rightarrow>
           ensureR (length (filter (\<lambda>c. cert_issuer c \<noteq> cert_subject c) (take (index - 1) (drop 1 certs)))
               \<le> unat limit) ''CPU CA path length exceeded''))))"

definition check_position ::
  "prims \<Rightarrow> pkix \<Rightarrow> Curve \<Rightarrow> u64 \<Rightarrow> Certificate list \<Rightarrow> nat \<Rightarrow> unit anyhow" where
  "check_position P X leaf_curve now certs index =
     (let cert = certs ! index in
      bindR (check_certificate X cert now) (\<lambda>_.
      if index = 0 then check_leaf X leaf_curve cert
      else bindR (check_issuer certs index cert) (\<lambda>_.
        verify_certificate_signature P X (certs ! (index - 1)) cert)))"

definition validate_chain ::
  "prims \<Rightarrow> pkix \<Rightarrow> bytes list \<Rightarrow> str \<Rightarrow> u64 \<Rightarrow> Curve \<Rightarrow> Certificate list anyhow" where
  "validate_chain P X leaf_first pinned_sha256 now leaf_curve =
     (if \<not> (2 \<le> length leaf_first \<and> length leaf_first \<le> MAX_CHAIN_CERTS)
      then Inl ''CPU certificate path depth outside limit''
      else bindR (foldR (decode_path X) \<lparr>total_bytes = 0, seen_ders = [], path_certs = []\<rparr> leaf_first) (\<lambda>st.
      if hex_encode P (sha256 P (last leaf_first)) \<noteq> pinned_sha256
      then Inl ''CPU certificate root fingerprint mismatch''
      else
        let certs = path_certs st in
        bindR (foldR (\<lambda>_. check_position P X leaf_curve now certs) () [0..<length certs]) (\<lambda>_.
        let root = last certs in
        if cert_issuer root \<noteq> cert_subject root then Inl ''CPU pinned root is not self-issued''
        else bindR (verify_certificate_signature P X root root) (\<lambda>_.
        Inr certs))))"

section \<open>PEM bundles\<close>

definition pem_begin :: str where "pem_begin = lit ''-----BEGIN CERTIFICATE-----''"
definition pem_end :: str where "pem_end = lit ''-----END CERTIFICATE-----''"

function pem_certs :: "pkix \<Rightarrow> bytes list \<Rightarrow> str \<Rightarrow> bytes list anyhow" where
  "pem_certs X certs rest =
     (if rest = [] then Inr certs
      else bindR (ok_or (strip_prefix rest pem_begin) ''unexpected CPU PEM text'') (\<lambda>rest.
      bindR (ok_or (find_sub pem_end rest) ''unterminated CPU PEM certificate'') (\<lambda>stop.
      let b64 = filter (\<lambda>c. \<not> is_ascii_whitespace c) (take stop rest) in
      bindR (ok_or (base64_decode X b64) ''CPU PEM base64'') (\<lambda>der.
      bindR (ok_or (cert_from_der X der) ''certificate DER'') (\<lambda>_.
      let certs = certs @ [der] in
      if length certs > MAX_CHAIN_CERTS then Inl ''too many CPU PEM certificates''
      else pem_certs X certs (str_trim (drop (stop + length pem_end) rest)))))))"
  by pat_completeness auto
termination
proof (relation "measure (\<lambda>(_, _, rest). length rest)", goal_cases)
  case (2 X certs rest rest' stop b64 der cert certs')
  from 2(2) have "rest = pem_begin @ rest'" by (simp add: result_simps strip_prefix_Some_iff)
  then show ?case
    using length_str_trim [of "drop (stop + length pem_end) rest'"] by (simp add: pem_begin_def)
qed simp

declare pem_certs.simps [simp del]

definition parse_pem_chain :: "pkix \<Rightarrow> bytes \<Rightarrow> bytes list anyhow" where
  "parse_pem_chain X bs =
     (if bs = [] \<or> length bs > MAX_CHAIN_BYTES then Inl ''CPU PEM size outside limit''
      else
        let bs = (case strip_suffix bs [0] of Some r \<Rightarrow> r | None \<Rightarrow> bs) in
        bindR (ok_or (from_utf8 bs) ''CPU PEM is not UTF-8'') (\<lambda>s.
        bindR (pem_certs X [] (str_trim s)) (\<lambda>certs.
        if certs = [] then Inl ''empty CPU certificate path'' else Inr certs)))"

section \<open>Revocation lists\<close>

definition check_dates :: "u64 \<Rightarrow> u64 \<Rightarrow> u64 \<Rightarrow> unit anyhow" where
  "check_dates this upcoming now =
     (if \<not> this < upcoming then Inl ''revocation nextUpdate must follow thisUpdate''
      else if \<not> this \<le> now then Inl ''revocation thisUpdate is in the future''
      else if \<not> now < upcoming then Inl ''revocation evidence has expired''
      else Inr ())"

definition check_extensions :: "Extension list \<Rightarrow> str list \<Rightarrow> unit anyhow" where
  "check_extensions extensions allowed_critical =
     bindR (foldR (\<lambda>seen ext.
         if extn_id ext \<in> set seen then Inl ''duplicate revocation extension''
         else if critical ext \<and> extn_id ext \<notin> set allowed_critical
         then Inl ''unsupported critical revocation extension''
         else Inr (extn_id ext # seen)) [] extensions) (\<lambda>_.
     Inr ())"

definition check_crl_extension :: "pkix \<Rightarrow> Certificate \<Rightarrow> Extension \<Rightarrow> unit anyhow" where
  "check_crl_extension X issuer ext =
     (if extn_id ext = lit ''2.5.29.35'' then
        bindR (ok_or (aki_from_der X (extn_value ext)) ''authority key identifier'') (\<lambda>aki.
        check_authority_key_id aki issuer)
      else if extn_id ext = lit ''2.5.29.20'' then ensureR (crl_number_ok X (extn_value ext)) ''CRL number''
      else if extn_id ext \<in> {lit ''2.5.29.27'', lit ''2.5.29.28'', lit ''2.5.29.46''}
      then Inl ''delta, scoped, indirect or delta-advertising CRLs are unsupported''
      else Inl ''unsupported CRL extension'')"

definition check_crl_entry_extension :: "pkix \<Rightarrow> Extension \<Rightarrow> unit anyhow" where
  "check_crl_entry_extension X ext =
     (if extn_id ext = lit ''2.5.29.21'' then
        bindR (ok_or (crl_reason_from_der X (extn_value ext)) ''CRL reason'') (\<lambda>reason.
        ensureR (reason \<noteq> 8) ''removeFromCRL is only valid in delta CRLs'')
      else if extn_id ext = lit ''2.5.29.24'' then
        ensureR (generalized_time_ok X (extn_value ext)) ''invalidity date''
      else Inl ''unsupported CRL entry extension'')"

definition check_revoked :: "pkix \<Rightarrow> Certificate \<Rightarrow> bytes list \<Rightarrow> RevokedCert \<Rightarrow> bytes list anyhow" where
  "check_revoked X subject serials revoked =
     (if revoked_serial revoked \<in> set serials then Inl ''duplicate revoked serial in CRL''
      else bindR (check_extensions (crl_entry_extensions revoked) [lit ''2.5.29.21'', lit ''2.5.29.24'']) (\<lambda>_.
      bindR (foldR (\<lambda>_. check_crl_entry_extension X) () (crl_entry_extensions revoked)) (\<lambda>_.
      if revoked_serial revoked = serial_number subject then Inl ''certificate is revoked by CRL''
      else Inr (revoked_serial revoked # serials))))"

definition check_crl :: "prims \<Rightarrow> pkix \<Rightarrow> bytes \<Rightarrow> Certificate \<Rightarrow> Certificate \<Rightarrow> u64 \<Rightarrow> unit anyhow" where
  "check_crl P X crl_der subject issuer now =
     (if crl_der = [] \<or> length crl_der > 4 * 1024 * 1024 then Inl ''CPU CRL size outside limit''
      else bindR (ok_or (crl_from_der X crl_der) ''CRL DER'') (\<lambda>crl.
      if crl_version crl \<noteq> V2 then Inl ''only X.509 v2 CRLs are supported''
      else if \<not> (crl_issuer crl = cert_subject issuer \<and> cert_issuer subject = cert_subject issuer)
      then Inl ''CRL issuer mismatch''
      else bindR (key_usage issuer) (\<lambda>usage.
      if \<not> crl_sign usage then Inl ''CRL issuer lacks cRLSign''
      else if crl_tbs_signature crl \<noteq> crl_signature_algorithm crl
      then Inl ''CRL inner/outer signature algorithms differ''
      else bindR (ok_or (next_update crl) ''CRL nextUpdate is required'') (\<lambda>upcoming.
      bindR (check_dates (this_update crl) upcoming now) (\<lambda>_.
      bindR (check_extensions (crl_extensions crl) [lit ''2.5.29.35'', lit ''2.5.29.20'']) (\<lambda>_.
      bindR (foldR (\<lambda>_. check_crl_extension X issuer) () (crl_extensions crl)) (\<lambda>_.
      bindR (ok_or (crl_tbs_der crl) ''CRL encoding'') (\<lambda>msg.
      bindR (ok_or (crl_signature crl) ''CRL signature is not byte-aligned'') (\<lambda>sig.
      bindR (verify_signature P X issuer (crl_signature_algorithm crl) msg sig) (\<lambda>_.
      bindR (foldR (check_revoked X subject) [] (revoked_certificates crl)) (\<lambda>_.
      Inr ())))))))))))"

section \<open>Accepted paths\<close>

text \<open>An issuer that may sign certificates, and a leaf that may sign quotes.\<close>

definition is_authority :: "Certificate \<Rightarrow> bool" where
  "is_authority c \<longleftrightarrow> (\<exists>bc usage. get_BasicConstraints c = Inr (Some (True, bc)) \<and> ca bc \<and>
     key_usage c = Inr usage \<and> key_cert_sign usage)"

definition is_signing_leaf :: "pkix \<Rightarrow> Curve \<Rightarrow> Certificate \<Rightarrow> bool" where
  "is_signing_leaf X curve c \<longleftrightarrow>
     alg_oid (key_algorithm c) = EC_KEY \<and>
     cert_curve X c = Inr (if curve = P256 then P256_OID else P384_OID) \<and> \<not> is_authority c \<and>
     (case get_KeyUsage c of
        Inr (Some (_, usage)) \<Rightarrow> digital_signature usage \<and> \<not> key_cert_sign usage
      | Inr None \<Rightarrow> curve = AmdEndorsement
      | Inl _ \<Rightarrow> False)"

text \<open>The number of intermediates that a path length constraint of the issuer at a position counts.\<close>

definition intermediates_below :: "Certificate list \<Rightarrow> nat \<Rightarrow> nat" where
  "intermediates_below certs i =
     length (filter (\<lambda>c. cert_issuer c \<noteq> cert_subject c) (take (i - 1) (drop 1 certs)))"

definition path_length_ok :: "Certificate list \<Rightarrow> nat \<Rightarrow> bool" where
  "path_length_ok certs i \<longleftrightarrow> (\<forall>crit bc limit. get_BasicConstraints (certs ! i) = Inr (Some (crit, bc)) \<longrightarrow>
     path_len_constraint bc = Some limit \<longrightarrow> intermediates_below certs i \<le> unat limit)"

text \<open>Certificates derived from the pinned root: the root signs itself, an authority signs the next.\<close>

inductive certified :: "prims \<Rightarrow> pkix \<Rightarrow> str \<Rightarrow> u64 \<Rightarrow> nat \<Rightarrow> Certificate \<Rightarrow> bool" for P X pin now where
  pinned: "certified P X pin now 0 root"
    if "cert_from_der X der = Some root" and "hex_encode P (sha256 P der) = pin"
      and "cert_issuer root = cert_subject root" and "verify_certificate_signature P X root root = Inr ()"
      and "check_certificate X root now = Inr ()"
| signed: "certified P X pin now (Suc n) cert"
    if "certified P X pin now n issuer" and "is_authority issuer"
      and "verify_certificate_signature P X cert issuer = Inr ()" and "check_certificate X cert now = Inr ()"

lemma check_certificate_window:
  "check_certificate X c now = Inr () \<Longrightarrow> not_before c \<le> now \<and> now \<le> not_after c"
  by (auto simp: check_certificate_def not_less split: if_splits)

lemma check_leaf_signing:
  assumes "check_leaf X curve c = Inr ()"
  shows "is_signing_leaf X curve c"
proof -
  obtain usage bc where u: "get_KeyUsage c = Inr usage" and bc: "get_BasicConstraints c = Inr bc"
    using assms by (auto simp: check_leaf_def bindR_Inr_iff)
  show ?thesis
    using assms by (cases usage; cases bc)
      (auto simp: check_leaf_def is_signing_leaf_def is_authority_def u bc bindR_Inr_iff ensureR_Inr_iff if_Inl_eq_Inr_iff)
qed

lemma check_issuer_authority:
  assumes "check_issuer certs i (certs ! i) = Inr ()"
  shows "is_authority (certs ! i)" and "path_length_ok certs i"
proof -
  obtain crit bc where bc: "get_BasicConstraints (certs ! i) = Inr (Some (crit, bc))"
    using assms by (auto simp: check_issuer_def bindR_Inr_iff ok_or_Inr_iff)
  then have auth: "crit" "ca bc" "\<exists>usage. key_usage (certs ! i) = Inr usage \<and> key_cert_sign usage"
    using assms by (auto simp: check_issuer_def bindR_Inr_iff ok_or_def split: if_splits)
  then show "is_authority (certs ! i)" using bc by (auto simp: is_authority_def)
  show "path_length_ok certs i"
    using assms bc auth(1,2)
    by (cases "path_len_constraint bc")
      (auto simp: check_issuer_def path_length_ok_def intermediates_below_def bindR_Inr_iff ok_or_def ensureR_Inr_iff
        if_Inl_eq_Inr_iff)
qed

lemma decode_path_step:
  "decode_path X st der = Inr st' \<longleftrightarrow>
     (\<exists>cert. cert_from_der X der = Some cert \<and> der \<noteq> [] \<and> der \<notin> set (seen_ders st) \<and>
        total_bytes st + length der \<le> MAX_CHAIN_BYTES \<and>
        st' = \<lparr>total_bytes = total_bytes st + length der, seen_ders = der # seen_ders st,
               path_certs = path_certs st @ [cert]\<rparr>)"
  by (auto simp: decode_path_def usize_checked_add_def result_simps)

definition decoded_path :: "pkix \<Rightarrow> bytes list \<Rightarrow> path_state \<Rightarrow> bool" where
  "decoded_path X ders st \<longleftrightarrow> map (cert_from_der X) ders = map Some (path_certs st) \<and> distinct ders \<and>
     set (seen_ders st) = set ders \<and> total_bytes st = length (concat ders)"

lemma decode_path_all:
  assumes "foldR (decode_path X) \<lparr>total_bytes = 0, seen_ders = [], path_certs = []\<rparr> ders = Inr st"
  shows "decoded_path X ders st"
proof (rule foldR_prefix_invariant [where I = "decoded_path X", OF assms])
  show "decoded_path X (ys @ [der]) s'" if ok: "decoded_path X ys s" and step: "decode_path X s der = Inr s'" for ys der s s'
    using step [unfolded decode_path_step] ok by (elim exE conjE) (simp add: decoded_path_def)
qed (simp add: decoded_path_def)

lemma validate_chain_Inr:
  assumes "validate_chain P X ders pin now curve = Inr certs"
  shows "map (cert_from_der X) ders = map Some certs" and "distinct ders" and "2 \<le> length certs"
    and "hex_encode P (sha256 P (last ders)) = pin"
    and "i < length certs \<Longrightarrow> check_position P X curve now certs i = Inr ()"
    and "cert_issuer (last certs) = cert_subject (last certs)"
    and "verify_certificate_signature P X (last certs) (last certs) = Inr ()"
proof -
  obtain st where st: "foldR (decode_path X) \<lparr>total_bytes = 0, seen_ders = [], path_certs = []\<rparr> ders = Inr st"
      and certs: "certs = path_certs st" and len: "2 \<le> length ders"
      and pin: "hex_encode P (sha256 P (last ders)) = pin"
      and pos: "foldR (\<lambda>_. check_position P X curve now certs) () [0..<length certs] = Inr ()"
      and root: "cert_issuer (last certs) = cert_subject (last certs)"
        "verify_certificate_signature P X (last certs) (last certs) = Inr ()"
    using assms by (auto simp: validate_chain_def Let_def result_simps)
  note d = decode_path_all [OF st, unfolded decoded_path_def, folded certs]
  show "map (cert_from_der X) ders = map Some certs" "distinct ders" using d by simp_all
  then show "2 \<le> length certs" using len map_eq_imp_length_eq by metis
  show "hex_encode P (sha256 P (last ders)) = pin" by (fact pin)
  show "cert_issuer (last certs) = cert_subject (last certs)"
    "verify_certificate_signature P X (last certs) (last certs) = Inr ()" by (fact root)+
  show "check_position P X curve now certs i = Inr ()" if "i < length certs"
    using pos that by (simp add: foldR_unit_Inr_iff)
qed

lemma check_position_Inr:
  "check_position P X curve now certs i = Inr () \<Longrightarrow> check_certificate X (certs ! i) now = Inr ()"
  "check_position P X curve now certs 0 = Inr () \<Longrightarrow> check_leaf X curve (certs ! 0) = Inr ()"
  "check_position P X curve now certs (Suc i) = Inr () \<Longrightarrow> check_issuer certs (Suc i) (certs ! Suc i) = Inr ()"
  "check_position P X curve now certs (Suc i) = Inr () \<Longrightarrow>
     verify_certificate_signature P X (certs ! i) (certs ! Suc i) = Inr ()"
  by (auto simp: check_position_def Let_def result_simps split: if_splits)

lemma chain_certified:
  assumes "validate_chain P X ders pin now curve = Inr certs" and "k < length certs"
  shows "certified P X pin now k (certs ! (length certs - 1 - k))"
  using assms(2)
proof (induction k)
  case 0
  note v = validate_chain_Inr [OF assms(1)]
  have last: "certs ! (length certs - 1) = last certs" using v(3) by (cases certs) (auto simp: last_conv_nth)
  have "ders \<noteq> []" using v(1,3) by auto
  then have "cert_from_der X (last ders) = Some (last certs)"
    using v(1,3) by (metis last_map list.map_disc_iff)
  moreover have "check_certificate X (last certs) now = Inr ()"
    using check_position_Inr(1) [OF v(5), of "length certs - 1"] v(3) last by simp
  ultimately show ?case using certified.pinned v(4,6,7) last by simp
next
  case (Suc k)
  note v = validate_chain_Inr [OF assms(1)]
  define i where "i = length certs - 1 - Suc k"
  have i: "Suc i < length certs" "length certs - 1 - k = Suc i" using Suc.prems by (auto simp: i_def)
  have "certified P X pin now k (certs ! Suc i)" using Suc i by simp
  moreover have "is_authority (certs ! Suc i)"
    using check_issuer_authority(1) check_position_Inr(3) v(5) i(1) by blast
  moreover have "verify_certificate_signature P X (certs ! i) (certs ! Suc i) = Inr ()"
    using check_position_Inr(4) v(5) i(1) by blast
  moreover have "check_certificate X (certs ! i) now = Inr ()"
    using check_position_Inr(1) v(5) i(1) by (metis Suc_lessD)
  ultimately show ?case unfolding i_def [symmetric] by (rule certified.signed)
qed

section \<open>Accepted revocation lists\<close>

lemma check_dates_Inr_iff [result_simps]: "check_dates this upcoming now = Inr u \<longleftrightarrow> this \<le> now \<and> now < upcoming"
  by (auto simp: check_dates_def)

lemma check_revoked_other:
  "check_revoked X subject serials r = Inr serials' \<Longrightarrow>
     revoked_serial r \<noteq> serial_number subject \<and> revoked_serial r \<notin> set serials \<and> serials' = revoked_serial r # serials"
  by (auto simp: check_revoked_def bindR_Inr_iff if_Inl_eq_Inr_iff)

lemma check_revoked_all:
  assumes "foldR (check_revoked X subject) [] rs = Inr serials"
  shows "serial_number subject \<notin> set (map revoked_serial rs) \<and> distinct (map revoked_serial rs)"
proof -
  let ?I = "\<lambda>ys serials. set serials = set (map revoked_serial ys) \<and>
    serial_number subject \<notin> set (map revoked_serial ys) \<and> distinct (map revoked_serial ys)"
  have "?I rs serials"
  proof (rule foldR_prefix_invariant [where I = ?I, OF assms])
    show "?I (ys @ [r]) t'" if "?I ys t" "check_revoked X subject t r = Inr t'" for ys r t t'
      using that(1) check_revoked_other [OF that(2)] by auto
  qed simp
  then show ?thesis by blast
qed

lemma check_crl_Inr:
  assumes "check_crl P X der subject issuer now = Inr u"
  obtains crl usage upcoming msg sig where "crl_from_der X der = Some crl" and "crl_issuer crl = cert_subject issuer"
    and "cert_issuer subject = cert_subject issuer" and "key_usage issuer = Inr usage" and "crl_sign usage"
    and "next_update crl = Some upcoming" and "this_update crl \<le> now" and "now < upcoming"
    and "crl_tbs_der crl = Some msg" and "crl_signature crl = Some sig"
    and "verify_signature P X issuer (crl_signature_algorithm crl) msg sig = Inr ()"
    and "serial_number subject \<notin> set (map revoked_serial (revoked_certificates crl))"
  using assms unfolding check_crl_def bindR_Inr_iff if_Inl_eq_Inr_iff ok_or_Inr_iff check_dates_Inr_iff not_not
  using check_revoked_all that by (elim exE conjE) (metis (full_types) old.unit.exhaust)

text \<open>What an accepted revocation list says of a certificate, and what an accepted path says of its leaf.\<close>

definition unrevoked :: "prims \<Rightarrow> pkix \<Rightarrow> bytes \<Rightarrow> Certificate \<Rightarrow> Certificate \<Rightarrow> u64 \<Rightarrow> bool" where
  "unrevoked P X der subject issuer now \<longleftrightarrow>
     (\<exists>crl usage upcoming msg sig. crl_from_der X der = Some crl \<and> crl_issuer crl = cert_subject issuer \<and>
        cert_issuer subject = cert_subject issuer \<and> key_usage issuer = Inr usage \<and> crl_sign usage \<and>
        next_update crl = Some upcoming \<and> this_update crl \<le> now \<and> now < upcoming \<and>
        crl_tbs_der crl = Some msg \<and> crl_signature crl = Some sig \<and>
        verify_signature P X issuer (crl_signature_algorithm crl) msg sig = Inr () \<and>
        serial_number subject \<notin> set (map revoked_serial (revoked_certificates crl)))"

lemma check_crl_unrevoked: "check_crl P X der subject issuer now = Inr u \<Longrightarrow> unrevoked P X der subject issuer now"
  by (erule check_crl_Inr) (unfold unrevoked_def, blast)

lemma validate_chain_leaf:
  assumes "validate_chain P X ders pin now curve = Inr certs"
  shows "certified P X pin now (length certs - 1) (certs ! 0)" and "is_signing_leaf X curve (certs ! 0)"
    and "length certs = length ders" and "cert_from_der X (ders ! 0) = Some (certs ! 0)"
proof -
  note v = validate_chain_Inr [OF assms]
  show "certified P X pin now (length certs - 1) (certs ! 0)"
    using chain_certified [OF assms, of "length certs - 1"] v(3) by simp
  show "is_signing_leaf X curve (certs ! 0)"
    using check_leaf_signing check_position_Inr(2) v(3,5) by (metis less_le_trans zero_less_numeral)
  show len: "length certs = length ders" using v(1) by (metis length_map)
  show "cert_from_der X (ders ! 0) = Some (certs ! 0)"
    using v(1,3) len by (metis nth_map less_le_trans zero_less_numeral)
qed

section \<open>PEM bundles are read back\<close>

text \<open>A bundle: one block per certificate behind some white space. A body is any ASCII text without a dash:
  its base64 may be wrapped into lines of any length and indented.\<close>

definition pem_block :: "str \<Rightarrow> str" where
  "pem_block body = pem_begin @ body @ pem_end"

fun pem_bundle :: "(str \<times> str) list \<Rightarrow> str" where
  "pem_bundle [] = []"
| "pem_bundle ((gap, body) # blocks) = gap @ pem_block body @ pem_bundle blocks"

definition base64_of :: "str \<Rightarrow> str" where
  "base64_of body = filter (\<lambda>c. \<not> is_ascii_whitespace c) body"

definition ascii_text :: "str \<Rightarrow> bool" where
  "ascii_text s \<longleftrightarrow> (\<forall>b \<in> set s. unat b < 128)"

definition blank_text :: "str \<Rightarrow> bool" where
  "blank_text s \<longleftrightarrow> (\<forall>b \<in> set s. unat b < 128 \<and> is_whitespace (unat b))"

definition pem_text :: "(str \<times> str) list \<Rightarrow> bool" where
  "pem_text blocks \<longleftrightarrow> (\<forall>(gap, body) \<in> set blocks. blank_text gap \<and> ascii_text body \<and> 45 \<notin> set body)"

lemma pem_text_simps [simp]:
  "pem_text []"
  "pem_text ((gap, body) # blocks) \<longleftrightarrow> blank_text gap \<and> ascii_text body \<and> 45 \<notin> set body \<and> pem_text blocks"
  by (auto simp: pem_text_def)

lemma str_trim_blank:
  assumes "ascii_text s" and "s \<noteq> []" and "\<not> is_whitespace (unat (hd s))" and "\<not> is_whitespace (unat (last s))"
    and "blank_text a" and "blank_text b"
  shows "str_trim (a @ s @ b) = s"
proof -
  let ?w = "\<lambda>c :: byte. is_whitespace (unat c)"
  have w: "?w c" if "c \<in> set a \<or> c \<in> set b" for c
    using that assms(5,6) by (auto simp: blank_text_def)
  have "dropWhile ?w (a @ s @ b) = s @ b"
    using w assms(2,3) by (cases s) (auto simp: dropWhile_append)
  moreover have "dropWhile ?w (rev (s @ b)) = rev s"
    using w assms(2,4) by (cases s rule: rev_cases) (auto simp: dropWhile_append)
  moreover have "\<forall>c \<in> set (a @ s @ b). unat c < 128"
    using assms(1,5,6) by (auto simp: ascii_text_def blank_text_def)
  ultimately show ?thesis by (simp add: str_trim_ascii)
qed

lemma str_trim_all_blank: "blank_text s \<Longrightarrow> str_trim s = []"
proof -
  assume "blank_text s"
  then have "\<forall>c \<in> set s. unat c < 128" "dropWhile (\<lambda>c. is_whitespace (unat c)) s = []"
    by (simp_all add: blank_text_def dropWhile_eq_Nil_conv)
  then show ?thesis by (simp add: str_trim_ascii del: dropWhile_eq_Nil_conv)
qed

lemma pem_markers [simp]: "pem_begin \<noteq> []" "pem_end \<noteq> []" "hd pem_begin = 45" "hd pem_end = 45" "last pem_end = 45"
  "ascii_text pem_begin" "ascii_text pem_end"
  by (simp_all add: pem_begin_def pem_end_def ascii_text_def)

lemma ascii_text_append [simp]: "ascii_text (a @ b) \<longleftrightarrow> ascii_text a \<and> ascii_text b" "ascii_text (c # b) \<longleftrightarrow> unat c < 128 \<and> ascii_text b"
  "ascii_text []"
  by (auto simp: ascii_text_def)

lemma blank_ascii: "blank_text s \<Longrightarrow> ascii_text s"
  by (simp add: blank_text_def ascii_text_def)

lemma pem_bundle_shape:
  "pem_text blocks \<Longrightarrow> ascii_text (pem_bundle blocks) \<and> (blocks \<noteq> [] \<longrightarrow> pem_bundle blocks \<noteq> [] \<and> last (pem_bundle blocks) = 45)"
proof (induction blocks rule: pem_bundle.induct)
  case (2 gap body blocks)
  then show ?case by (cases "blocks = []") (simp_all add: pem_block_def blank_ascii)
qed simp

lemma str_trim_pem_bundle:
  assumes "pem_text ((gap, body) # blocks)" and "blank_text z"
  shows "str_trim (pem_bundle ((gap, body) # blocks) @ z) = pem_block body @ pem_bundle blocks"
proof -
  have "str_trim (gap @ (pem_block body @ pem_bundle blocks) @ z) = pem_block body @ pem_bundle blocks"
  proof (rule str_trim_blank)
    show "\<not> is_whitespace (unat (last (pem_block body @ pem_bundle blocks)))"
      using pem_bundle_shape [of blocks] assms(1)
      by (cases "blocks = []") (simp_all add: pem_block_def is_whitespace_def)
    show "ascii_text (pem_block body @ pem_bundle blocks)"
      using pem_bundle_shape [of blocks] assms(1) by (simp add: pem_block_def)
  qed (use assms in \<open>simp_all add: pem_block_def is_whitespace_def\<close>)
  then show ?thesis by simp
qed

lemma pem_certs_block:
  assumes "45 \<notin> set body"
  shows "pem_certs X certs (pem_block body @ r) =
    bindR (ok_or (base64_decode X (base64_of body)) ''CPU PEM base64'') (\<lambda>der.
    bindR (ok_or (cert_from_der X der) ''certificate DER'') (\<lambda>_.
    if length certs + 1 > MAX_CHAIN_CERTS then Inl ''too many CPU PEM certificates''
    else pem_certs X (certs @ [der]) (str_trim r)))"
proof -
  define t where "t = body @ pem_end @ r"
  have pre: "strip_prefix (pem_block body @ r) pem_begin = Some t"
    by (simp add: strip_prefix_Some_iff pem_block_def t_def)
  have stop: "find_sub pem_end t = Some (length body)"
    unfolding t_def using assms by (intro find_sub_first) auto
  have rest: "take (length body) t = body" "drop (length body + length pem_end) t = r"
    by (simp_all add: t_def)
  have "pem_block body \<noteq> []" by (simp add: pem_block_def)
  then show ?thesis
    by (subst pem_certs.simps)
      (simp add: pre stop rest(1) base64_of_def ok_or_def Let_def cong: if_cong, simp only: rest(2))
qed

text \<open>What is accepted of a bundle: as many certificates as blocks, in order.\<close>

lemma pem_certs_bundle:
  "pem_text blocks \<Longrightarrow> blank_text z \<Longrightarrow> length certs \<le> MAX_CHAIN_CERTS \<Longrightarrow>
   pem_certs X certs (str_trim (pem_bundle blocks @ z)) = Inr res \<longleftrightarrow>
     (\<exists>ders. res = certs @ ders \<and> map (\<lambda>(_, body). base64_decode X (base64_of body)) blocks = map Some ders \<and>
        (\<forall>d \<in> set ders. cert_from_der X d \<noteq> None) \<and> length certs + length blocks \<le> MAX_CHAIN_CERTS)"
proof (induction blocks arbitrary: certs z)
  case Nil
  then show ?case
    by (subst pem_certs.simps) (auto simp: str_trim_all_blank)
next
  case (Cons block blocks)
  obtain gap body where b: "block = (gap, body)" by (cases block)
  have "blank_text []" by (simp add: blank_text_def)
  then have rest: "pem_certs X (certs @ [d]) (str_trim (pem_bundle blocks)) = Inr res \<longleftrightarrow>
     (\<exists>ders. res = (certs @ [d]) @ ders \<and> map (\<lambda>(_, body). base64_decode X (base64_of body)) blocks = map Some ders \<and>
        (\<forall>d \<in> set ders. cert_from_der X d \<noteq> None) \<and> length (certs @ [d]) + length blocks \<le> MAX_CHAIN_CERTS)"
    if "length certs + 1 \<le> MAX_CHAIN_CERTS" for d
    using Cons.IH [of "[]" "certs @ [d]"] Cons.prems(1) that by (simp add: b)
  have "pem_certs X certs (str_trim (pem_bundle (block # blocks) @ z)) = Inr res \<longleftrightarrow>
      (\<exists>d. base64_decode X (base64_of body) = Some d \<and> cert_from_der X d \<noteq> None \<and>
         length certs + 1 \<le> MAX_CHAIN_CERTS \<and> pem_certs X (certs @ [d]) (str_trim (pem_bundle blocks)) = Inr res)"
    using Cons.prems unfolding b str_trim_pem_bundle [OF Cons.prems(1,2) [unfolded b]]
    by (subst pem_certs_block) (auto simp: result_simps)
  also have "\<dots> \<longleftrightarrow> (\<exists>ders. res = certs @ ders \<and>
      map (\<lambda>(_, body). base64_decode X (base64_of body)) (block # blocks) = map Some ders \<and>
      (\<forall>d \<in> set ders. cert_from_der X d \<noteq> None) \<and> length certs + length (block # blocks) \<le> MAX_CHAIN_CERTS)"
    using rest by (auto simp: b Cons_eq_map_conv)
  finally show ?case .
qed

lemma parse_pem_chain_bundle:
  assumes wf: "pem_text blocks" "blank_text z" and "blocks \<noteq> []"
    and inp: "input = pem_bundle blocks @ z @ replicate k 0" "k \<le> 1"
  shows "parse_pem_chain X input = Inr ders \<longleftrightarrow>
    length input \<le> MAX_CHAIN_BYTES \<and> length blocks \<le> MAX_CHAIN_CERTS \<and>
    map (\<lambda>(_, body). base64_decode X (base64_of body)) blocks = map Some ders \<and>
    (\<forall>d \<in> set ders. cert_from_der X d \<noteq> None)"
proof -
  let ?t = "pem_bundle blocks @ z"
  note shape = pem_bundle_shape [OF wf(1)]
  have "last ?t \<noteq> 0"
  proof (cases "z = []")
    case False
    then have "is_whitespace (unat (last z))" using wf(2) by (simp add: blank_text_def)
    then have "last z \<noteq> 0" by (auto simp: is_whitespace_def)
    then show ?thesis using False by simp
  qed (use shape assms(3) in simp)
  then have "?t \<noteq> r @ [0]" for r by (metis last_snoc)
  then have "strip_suffix ?t [0] = None"
    by (metis not_None_eq strip_suffix_Some_iff)
  then have strip: "(case strip_suffix input [0] of Some r \<Rightarrow> r | None \<Rightarrow> input) = ?t"
    using inp strip_suffix_Some_iff [of "?t @ [0]" "[0]" ?t] by (cases k) auto
  have "ascii_text ?t" using shape wf(2) by (simp add: blank_ascii)
  then have utf: "from_utf8 ?t = Some ?t" using utf8_decode_ascii [of ?t] by (simp add: from_utf8_def ascii_text_def)
  have "input \<noteq> []" using shape assms(3) inp(1) by simp
  then have "parse_pem_chain X input = Inr ders \<longleftrightarrow>
      length input \<le> MAX_CHAIN_BYTES \<and> pem_certs X [] (str_trim ?t) = Inr ders \<and> ders \<noteq> []"
    by (auto simp: parse_pem_chain_def strip Let_def utf ok_or_def result_simps)
  then show ?thesis
    using pem_certs_bundle [OF wf, of "[]" X ders] assms(3) by auto
qed

section \<open>A concrete path\<close>

definition demo_name :: "byte \<Rightarrow> Name" where
  "demo_name b = [[\<lparr>attr_oid = lit ''2.5.4.3'', attr_value = \<lparr>any_tag = TagUtf8String, any_value = [b]\<rparr>\<rparr>]]"

definition demo_key_alg :: AlgorithmIdentifier where
  "demo_key_alg = \<lparr>alg_oid = EC_KEY, alg_parameters = Some [6]\<rparr>"

definition demo_sig_alg :: AlgorithmIdentifier where
  "demo_sig_alg = \<lparr>alg_oid = lit ''1.2.840.10045.4.3.2'', alg_parameters = None\<rparr>"

definition demo_usage :: "bool \<Rightarrow> KeyUsage" where
  "demo_usage issuer = \<lparr>digital_signature = \<not> issuer, key_cert_sign = issuer, crl_sign = issuer, key_agreement = False,
     encipher_only = False, decipher_only = False\<rparr>"

text \<open>A leaf with key 3 and a root with key 4; a signature is the key of its signer.\<close>

definition demo_cert :: "bool \<Rightarrow> Certificate" where
  "demo_cert issuer = \<lparr>cert_version = V3, issuer_unique_id = None, subject_unique_id = None, not_before = 10,
     not_after = 90, tbs_signature = demo_sig_alg, signature_algorithm = demo_sig_alg, cert_issuer = demo_name 4,
     cert_subject = demo_name (if issuer then 4 else 3), serial_number = (if issuer then [4] else [3]), cert_extensions = [],
     key_algorithm = demo_key_alg, subject_public_key = Some (if issuer then [4] else [3]),
     raw_public_key = (if issuer then [4] else [3]), spki_der = None,
     tbs_der = Some [], cert_signature = Some [4],
     get_BasicConstraints = Inr (if issuer then Some (True, \<lparr>ca = True, path_len_constraint = None\<rparr>) else None),
     get_KeyUsage = Inr (Some (True, demo_usage issuer)), get_ExtendedKeyUsage = Inr None,
     get_AuthorityKeyIdentifier = Inr None, get_SubjectKeyIdentifier = Inr None\<rparr>"

definition demo_crl :: CertificateList where
  "demo_crl = \<lparr>crl_version = V2, crl_issuer = demo_name 4, crl_tbs_signature = demo_sig_alg,
     crl_signature_algorithm = demo_sig_alg, this_update = 20, next_update = Some 60, crl_extensions = [],
     crl_tbs_der = Some [], crl_signature = Some [4],
     revoked_certificates = [\<lparr>revoked_serial = [9], crl_entry_extensions = []\<rparr>]\<rparr>"

definition demo_pkix :: pkix where
  "demo_pkix = \<lparr>cert_from_der = (\<lambda>d. if d = [1] then Some (demo_cert False) else if d = [2] then Some (demo_cert True) else None),
     crl_from_der = (\<lambda>d. if d = [5] then Some demo_crl else None), aki_from_der = (\<lambda>_. None), crl_number_ok = (\<lambda>_. False),
     crl_reason_from_der = (\<lambda>_. None), generalized_time_ok = (\<lambda>_. False),
     any_oid = (\<lambda>d. if d = [6] then Some P256_OID else None), any_null = (\<lambda>_. False), pss_from_der = (\<lambda>_. None),
     p256_key_ok = (\<lambda>k. k \<noteq> []), p384_key_ok = (\<lambda>_. False), p256_verify_der = (\<lambda>k d s. s = k),
     p384_verify_der = (\<lambda>_ _ _. False), rsa_bits = (\<lambda>_. None), rsa_pss_verify = (\<lambda>_ _ _. False),
     p256_sig_ok = (\<lambda>s. length s = 64), p384_sig_ok = (\<lambda>s. length s = 96), p256_verify = (\<lambda>k d s. k \<noteq> []),
     p384_verify = (\<lambda>_ _ _. False), p256_verify_msg = (\<lambda>k m s. k \<noteq> []), base64_decode = (\<lambda>s. Some s)\<rparr>"

lemma demo_curves [simp]: "P256_OID \<noteq> P384_OID" "lit ''1.2.840.10045.4.3.2'' \<noteq> lit ''1.2.840.113549.1.1.10''"
  by (simp_all add: P256_OID_def P384_OID_def)

lemma demo_cert_curve [simp]: "cert_curve demo_pkix (demo_cert i) = Inr P256_OID"
  by (simp add: cert_curve_def demo_cert_def demo_key_alg_def demo_pkix_def ok_or_def)

lemma demo_check_certificate [simp]: "check_certificate demo_pkix (demo_cert i) 50 = Inr ()"
proof -
  have "check_public_key demo_pkix (demo_cert i) = Inr ()"
    by (simp add: check_public_key_def Let_def) (simp add: demo_cert_def demo_key_alg_def public_key_def ok_or_def ensureR_def demo_pkix_def)
  then show ?thesis by (simp add: check_certificate_def) (simp add: demo_cert_def demo_name_def demo_usage_def ensureR_def)
qed

lemma demo_verify_signature [simp]: "verify_signature demo_prims demo_pkix (demo_cert True) demo_sig_alg m [4] = Inr ()"
proof -
  have "alg_oid (key_algorithm (demo_cert True)) = EC_KEY" "public_key (demo_cert True) = Inr [4]"
    by (simp_all add: demo_cert_def demo_key_alg_def public_key_def ok_or_def)
  then show ?thesis
    by (simp add: verify_signature_def demo_sig_alg_def Let_def ensureR_def del: list.map) (simp add: demo_pkix_def)
qed

lemma demo_verify_certificate [simp]:
  "verify_certificate_signature demo_prims demo_pkix (demo_cert i) (demo_cert True) = Inr ()"
proof -
  have "cert_issuer (demo_cert i) = cert_subject (demo_cert True)" "get_AuthorityKeyIdentifier (demo_cert i) = Inr None"
    "tbs_signature (demo_cert i) = demo_sig_alg" "signature_algorithm (demo_cert i) = demo_sig_alg"
    "tbs_der (demo_cert i) = Some []" "cert_signature (demo_cert i) = Some [4]"
    by (simp_all add: demo_cert_def)
  then show ?thesis by (simp add: verify_certificate_signature_def ok_or_def)
qed

definition demo_pin :: str where
  "demo_pin = hex_encode demo_prims (sha256 demo_prims [2])"

lemma demo_chain: "validate_chain demo_prims demo_pkix [[1], [2]] demo_pin 50 P256 = Inr [demo_cert False, demo_cert True]"
proof -
  have "get_KeyUsage (demo_cert False) = Inr (Some (True, demo_usage False))" "get_BasicConstraints (demo_cert False) = Inr None"
    "alg_oid (key_algorithm (demo_cert False)) = EC_KEY"
    by (simp_all add: demo_cert_def demo_key_alg_def)
  then have "check_position demo_prims demo_pkix P256 50 [demo_cert False, demo_cert True] 0 = Inr ()"
    by (simp add: check_position_def check_leaf_def ensureR_def demo_usage_def)
  moreover have "get_BasicConstraints (demo_cert True) = Inr (Some (True, \<lparr>ca = True, path_len_constraint = None\<rparr>))"
    "key_usage (demo_cert True) = Inr (demo_usage True)"
    by (simp_all add: demo_cert_def key_usage_def ok_or_def)
  then have "check_position demo_prims demo_pkix P256 50 [demo_cert False, demo_cert True] (Suc 0) = Inr ()"
    by (simp add: check_position_def check_issuer_def Let_def ok_or_def demo_usage_def)
  moreover have "cert_from_der demo_pkix [1] = Some (demo_cert False)" "cert_from_der demo_pkix [2] = Some (demo_cert True)"
    "cert_issuer (demo_cert True) = cert_subject (demo_cert True)"
    by (simp_all add: demo_pkix_def demo_cert_def)
  ultimately show ?thesis
    by (simp add: validate_chain_def decode_path_def usize_checked_add_def ok_or_def Let_def demo_pin_def upt_rec)
qed

section \<open>Properties\<close>

text \<open>C34. An accepted path: its certificates are the decoded ones, distinct and within their validity;
  the leaf is derived from the pinned root by signatures of authorized issuers that respect the path
  length constraints, and may itself sign quotes but not certificates.\<close>

theorem validate_chain_sound:
  assumes "validate_chain P X ders pin now curve = Inr certs"
  shows "map (cert_from_der X) ders = map Some certs \<and> distinct ders \<and>
    certified P X pin now (length certs - 1) (certs ! 0) \<and> is_signing_leaf X curve (certs ! 0) \<and>
    (\<forall>i < length certs. not_before (certs ! i) \<le> now \<and> now \<le> not_after (certs ! i) \<and>
      (0 < i \<longrightarrow> is_authority (certs ! i) \<and> path_length_ok certs i))"
proof -
  note v = validate_chain_Inr [OF assms]
  have "is_authority (certs ! i) \<and> path_length_ok certs i" if "i < length certs" "0 < i" for i
    using check_issuer_authority check_position_Inr(3) [of P X curve now certs "i - 1"] v(5) [OF that(1)] that(2) by simp
  then show ?thesis
    using v(1,2,5) validate_chain_leaf(1,2) [OF assms] check_certificate_window check_position_Inr(1) by blast
qed

theorem validate_chain_sound_witness:
  "certified demo_prims demo_pkix demo_pin 50 1 (demo_cert False) \<and> is_signing_leaf demo_pkix P256 (demo_cert False)"
  using validate_chain_sound [OF demo_chain] by simp

text \<open>C35. A certificate passes a revocation list only if the list is by its issuer, whose key may sign
  lists and signed this one, if the list is current, and if it does not name the certificate.\<close>

theorem check_crl_sound:
  assumes "check_crl P X der subject issuer now = Inr ()"
  shows "\<exists>crl usage upcoming msg sig. crl_from_der X der = Some crl \<and>
    crl_issuer crl = cert_subject issuer \<and> cert_issuer subject = cert_subject issuer \<and>
    key_usage issuer = Inr usage \<and> crl_sign usage \<and>
    next_update crl = Some upcoming \<and> this_update crl \<le> now \<and> now < upcoming \<and>
    crl_tbs_der crl = Some msg \<and> crl_signature crl = Some sig \<and>
    verify_signature P X issuer (crl_signature_algorithm crl) msg sig = Inr () \<and>
    serial_number subject \<notin> set (map revoked_serial (revoked_certificates crl))"
  by (rule check_crl_Inr [OF assms]) blast

theorem check_crl_sound_witness:
  "check_crl demo_prims demo_pkix [5] (demo_cert False) (demo_cert True) 50 = Inr () \<and>
   serial_number (demo_cert False) \<notin> set (map revoked_serial (revoked_certificates demo_crl))"
proof -
  have "crl_from_der demo_pkix [5] = Some demo_crl" by (simp add: demo_pkix_def)
  moreover have "key_usage (demo_cert True) = Inr (demo_usage True)" "serial_number (demo_cert False) = [3]"
    "cert_subject (demo_cert True) = demo_name 4" "cert_issuer (demo_cert False) = demo_name 4"
    by (simp_all add: key_usage_def demo_cert_def ok_or_def)
  ultimately have c: "check_crl demo_prims demo_pkix [5] (demo_cert False) (demo_cert True) 50 = Inr ()"
    by (simp add: check_crl_def demo_crl_def ok_or_def demo_usage_def check_dates_def check_extensions_def check_revoked_def)
  from check_crl_sound [OF c] c show ?thesis by (auto simp: demo_pkix_def)
qed

text \<open>The text \<open>ABC\<close> encodes the leaf and \<open>D\<close> the root.\<close>

definition wrapped_pkix :: pkix where
  "wrapped_pkix = demo_pkix\<lparr>base64_decode := (\<lambda>s. if s = [65, 66, 67] then Some [2] else if s = [68] then Some [1] else None)\<rparr>"

text \<open>C36. A PEM bundle is read exactly as its blocks say: whatever white space separates, precedes and
  follows the blocks and however the base64 of a body is wrapped and indented, with or without the
  terminating zero byte, the result is the list of the decoded bodies in order; and it is a result
  exactly when every body decodes to a certificate and number and size are within the limits.\<close>

theorem parse_pem_chain_exact:
  assumes "pem_text blocks" and "blank_text z" and "blocks \<noteq> []"
    and "input = pem_bundle blocks @ z @ replicate k 0" and "k \<le> 1"
  shows "parse_pem_chain X input = Inr ders \<longleftrightarrow>
    length input \<le> MAX_CHAIN_BYTES \<and> length blocks \<le> MAX_CHAIN_CERTS \<and>
    map (\<lambda>(_, body). base64_decode X (base64_of body)) blocks = map Some ders \<and>
    (\<forall>d \<in> set ders. cert_from_der X d \<noteq> None)"
  by (rule parse_pem_chain_bundle [OF assms])

theorem parse_pem_chain_exact_witness:
  "parse_pem_chain wrapped_pkix
     (pem_bundle [([], [10, 65, 66, 10, 32, 67, 13, 10]), ([13, 10], [10, 68, 10])] @ [10] @ replicate 1 0) = Inr [[2], [1]]"
proof (rule parse_pem_chain_exact [where k = 1 and z = "[10]", THEN iffD2])
  show "pem_text [([], [10, 65, 66, 10, 32, 67, 13, 10]), ([13, 10], [10, 68, 10])]" "blank_text [10]"
    by (simp_all add: blank_text_def is_whitespace_def)
qed (simp_all add: wrapped_pkix_def demo_pkix_def base64_of_def is_ascii_whitespace_def pem_block_def
    pem_begin_def pem_end_def)

end
