(* ===== verification/Spec2Isabelle.thy ===== *)
theory Spec2Isabelle
  imports Boot_Cmdline Boot_Runtime Boot_Verity Uki_Verify Closure Relay Tee_Gated Update_Challenge Pki
begin

text \<open>
  A verification development for unified-quote, a library that collects hardware attestation
  evidence and decides whether to trust it. The program is the Rust crate under \<open>src/v2\<close>; the
  development follows its modules, one theory per component, and each theory gives the definitions in
  the order of the code, then the lemmas, then the properties.

  \<^bold>\<open>Conventions.\<close> A \<open>Result\<close> is a sum with the error on the left, \<open>?\<close> is \<open>bindR\<close>, a \<open>for\<close> loop
  that may return early is \<open>foldR\<close>, other loops are recursive functions with a termination proof (no
  definition uses fuel). Machine integers are words; a \<open>usize\<close> is a natural number whose overflow at
  \<open>2 ^ 64\<close> is written out where the code checks it. Strings are their UTF-8 bytes. A \<open>BTreeMap\<close> is a
  sorted association list, so that iteration order is list order. Texts of error messages are kept
  without the values they interpolate. An index, a range, an \<open>unwrap\<close> or a subtraction that Rust would
  panic on gives the error \<open>Panic\<close> (\<open>index_at\<close>, \<open>index_range\<close>, \<open>into_array\<close>, \<open>usize_sub\<close>), and theorems
  say where it cannot occur. Code outside the repository is an argument: \<open>prims\<close> (hashes and
  hex), \<open>cbor\<close>, \<open>ed25519\<close>, the file system of the closure measurement; what the code
  relies on (digest sizes, decoding inverts encoding, signing then verifying) is a named hypothesis,
  and an executable instance satisfies it in every witness.

  \<^bold>\<open>Shared theories.\<close> \<open>UQ_Prelude\<close> has integers as bytes, results, loops, ordered maps (the locale
  \<open>ordered_map\<close>, interpreted on \<open>bt_insert\<close>) and the collections \<open>result_simps\<close>, \<open>result_elims\<close>,
  \<open>no_error_intros\<close>, \<open>bytes_simps\<close>; \<open>UQ_Text\<close> has UTF-8, UTF-16 and the string methods the code uses;
  \<open>UQ_Prims\<close> has the hash and hex parameters.

  \<^bold>\<open>Measured boot\<close> (\<open>v2/src/boot.rs\<close> and \<open>v2/src/boot\<close>). \<open>Boot_Types\<close> and \<open>Boot_Log\<close> model the event
  log parser (\<open>EventLog::parse\<close>): accepted logs are well-formed and inside the input, the encoding of
  a well-formed log parses back, and parsing never panics. \<open>Boot_Replay\<close> models \<open>replay\<close>, \<open>verify\<close> and
  the lookups on a verified log: the replay loop computes the hash chain of a specification, a log is
  verified exactly when every quoted register is the end of its chain, and two logs verified against
  the same registers carry the same digests unless the hash collides. \<open>Boot_Cmdline\<close> adds the measured
  command line, the dm-verity root it commits to, the CCEL table and bounded file reads. \<open>Boot_Runtime\<close>
  has the runtime events of \<open>boot/runtime.rs\<close>, when their log is accepted and what may be appended to it; \<open>Boot_Verity\<close>
  has the observation of a mounted root (\<open>boot/verity.rs\<close>). \<open>Uki_Pe\<close>, \<open>Uki_Select\<close> and \<open>Uki_Verify\<close> model unified kernel images
  (\<open>boot/uki.rs\<close>, \<open>boot/uki\<close>): the PE parser, the choice of sections, the device tree walk, and the
  appraisal of an image against the verified log. \<open>Closure\<close> models \<open>boot/closure.rs\<close>: a measured
  closure was read completely from regular files under the root, and its root hash determines it.

  \<^bold>\<open>Receipts and relay credentials.\<close> \<open>Eat\<close> models the receipt of \<open>v2/src/eat.rs\<close>: what its binding
  commits to, that report data commits to the claims and the challenge, and the wire format that serde
  derives from the attributes of the struct, over a CBOR codec that is a parameter. \<open>Relay\<close> models \<open>v2/src/relay.rs\<close>: issuing and
  presenting credentials; the replay stores satisfy the locale \<open>replay_guard\<close>, and over any sequence of
  requests no nonce is consumed twice.

  \<^bold>\<open>Contracts\<close> (\<open>contracts\<close>). \<open>Attest_Registry\<close>, \<open>Tee_Gated\<close> and \<open>Update_Challenge\<close> model the three Vyper
  contracts as state machines: a call reverts or gives the new storage, and the properties hold in every
  state that calls can reach. The registry never changes an entry; the gated contract accepts only
  fresh signatures of its TEE and no nonce twice; the vote contract is solvent and recommends only what
  a majority approved. \<open>keccak256\<close> and \<open>ecrecover\<close> are parameters, gas is not modelled.

  \<^bold>\<open>Certificates\<close> (\<open>v2/src/quote/pki.rs\<close>). \<open>Pki\<close> models path validation to a pinned root, PEM chains,
  signatures and revocation lists. An accepted path is a chain of authorised and currently valid issuers
  down to the signing leaf, an accepted revocation list is current and does not name the certificate.
  The DER decoder and the signature schemes are the parameters of the record \<open>pkix\<close>.

  \<^bold>\<open>Not modelled.\<close> The command-line front ends and servers (\<open>main.rs\<close>, \<open>attestation_cli.rs\<close>,
  \<open>boot_cli.rs\<close>, \<open>gpu_cli.rs\<close>, \<open>net\<close>) are I/O around the modelled library. Collection from hardware
  (\<open>tee\<close>, \<open>gpu/nvml.rs\<close>, \<open>gpu/nscq.rs\<close>, \<open>google_backend.rs\<close>) talks to devices, drivers and helper
  processes. The quote, collateral and GPU verifiers (\<open>quote/verify.rs\<close>, \<open>gpu\<close>) are built on
  DER, X.509, JSON and XML crates. The first version of the crate (\<open>src/src\<close>) is superseded by \<open>v2\<close>.
\<close>

end
